(* ===== verification/Prelude.thy ===== *)
theory Prelude
  imports Main "HOL-Library.AList" "HOL-Library.Multiset" "HOL-Library.While_Combinator"
    "HOL-Library.Char_ord" "HOL-Library.List_Lexorder" "HOL-Library.Product_Lexorder"
    "HOL-Library.Option_ord" "HOL-Library.Sublist"
begin

text \<open>
  Shared vocabulary of the development: the machine integers and the clock of the Go code, Go
  maps as association lists, \<open>sort.SliceStable\<close> as a stable insertion sort over a \<open>less\<close>
  function, the first-occurrence filter, and the interface \<open>fifo_evict\<close> that both caches of the
  program provide (a store with an insertion order from whose head entries are evicted while the
  store is over its limits).
\<close>

named_theorems gomap_simps \<open>lookup laws of Go maps modelled as association lists\<close>
named_theorems sorting_simps \<open>facts about the stable sort of the Go standard library\<close>

section \<open>Integers and time\<close>

text \<open>
  An instant is the number of nanoseconds since Go's zero \<open>time.Time\<close> (1 January of year 1, UTC);
  a \<open>time.Duration\<close> is a number of nanoseconds. Both are mathematical integers; where the Go code
  relies on the 64-bit representation, the wrap-around is written with \<open>wrap64\<close>.
\<close>

type_synonym time = int
type_synonym duration = int

definition min_int64 :: int where "min_int64 = - (2 ^ 63)"
definition max_int64 :: int where "max_int64 = 2 ^ 63 - 1"

definition wrap64 :: "int \<Rightarrow> int" where
  "wrap64 x = (x + 2 ^ 63) mod 2 ^ 64 - 2 ^ 63"

lemma wrap64_id: "min_int64 \<le> x \<Longrightarrow> x \<le> max_int64 \<Longrightarrow> wrap64 x = x"
  by (simp add: wrap64_def min_int64_def max_int64_def)

lemma wrap64_range: "min_int64 \<le> wrap64 x \<and> wrap64 x \<le> max_int64"
proof -
  have "0 \<le> (x + 2 ^ 63) mod (2 ^ 64 :: int)" "(x + 2 ^ 63) mod (2 ^ 64 :: int) < 2 ^ 64"
    by simp_all
  then show ?thesis by (simp add: wrap64_def min_int64_def max_int64_def)
qed

definition sat64 :: "int \<Rightarrow> int" where
  "sat64 x = (if x < min_int64 then min_int64 else if x > max_int64 then max_int64 else x)"

lemma sat64_id: "min_int64 \<le> x \<Longrightarrow> x \<le> max_int64 \<Longrightarrow> sat64 x = x"
  by (simp add: sat64_def)

definition nanosecond :: duration where "nanosecond = 1"
definition millisecond :: duration where "millisecond = 1000000"
definition second :: duration where "second = 1000000000"
definition minute :: duration where "minute = 60 * second"
definition hour :: duration where "hour = 60 * minute"

lemmas duration_defs = nanosecond_def millisecond_def second_def minute_def hour_def

text \<open>\<open>time.Time.Sub\<close> saturates at the bounds of \<open>time.Duration\<close>.\<close>

definition time_sub :: "time \<Rightarrow> time \<Rightarrow> duration" where
  "time_sub a b = sat64 (a - b)"

section \<open>Go maps\<close>

text \<open>
  A Go map is an association list with distinct keys, in some order (Go iterates over a map in an
  unspecified order; the list is one such order). Reading is \<open>map_of\<close>, writing is
  \<open>AList.update\<close>, \<open>delete\<close> is \<open>AList.delete\<close>.
\<close>

type_synonym ('k, 'v) gomap = "('k \<times> 'v) list"

definition gm_ok :: "('k, 'v) gomap \<Rightarrow> bool" where
  "gm_ok m \<longleftrightarrow> distinct (map fst m)"

definition gm_len :: "('k, 'v) gomap \<Rightarrow> int" where
  "gm_len m = int (length m)"

lemma gm_ok_Nil [simp]: "gm_ok []"
  by (simp add: gm_ok_def)

lemma gm_ok_update [simp]: "gm_ok m \<Longrightarrow> gm_ok (AList.update k v m)"
  by (simp add: gm_ok_def distinct_update)

lemma gm_ok_delete [simp]: "gm_ok m \<Longrightarrow> gm_ok (AList.delete k m)"
  by (simp add: gm_ok_def distinct_delete)

lemma gm_lookup_update [gomap_simps]: "map_of (AList.update k v m) = (map_of m)(k \<mapsto> v)"
  by (simp add: update_conv')

lemma gm_lookup_delete [gomap_simps]: "map_of (AList.delete k m) = (map_of m)(k := None)"
  by (simp add: delete_conv')

lemma update_fresh: "k \<notin> fst ` set m \<Longrightarrow> AList.update k v m = m @ [(k, v)]"
  by (induction m) auto

lemma delete_append: "AList.delete k (xs @ ys) = AList.delete k xs @ AList.delete k ys"
  by (induction xs) auto

lemma set_update_cases: "p \<in> set (AList.update k v m) \<Longrightarrow> p = (k, v) \<or> p \<in> set m"
  by (induction m) (auto split: if_splits)

lemma length_update_le: "length (AList.update k v m) \<le> Suc (length m)"
  by (induction m) auto

lemma map_of_eq_SomeI: "gm_ok m \<Longrightarrow> (k, v) \<in> set m \<Longrightarrow> map_of m k = Some v"
  by (simp add: gm_ok_def)

lemma delete_split:
  assumes "gm_ok m" and "map_of m k = Some v"
  obtains xs ys where "m = xs @ (k, v) # ys" and "AList.delete k m = xs @ ys"
proof -
  from assms(2) have "(k, v) \<in> set m" by (rule map_of_SomeD)
  then obtain xs ys where m: "m = xs @ (k, v) # ys" by (meson split_list)
  with assms(1) have "k \<notin> fst ` set xs" "k \<notin> fst ` set ys"
    by (auto simp: gm_ok_def)
  then have "AList.delete k m = xs @ ys"
    using m by (simp add: delete_append)
  with m show ?thesis by (rule that)
qed

section \<open>Stable sorting\<close>

text \<open>
  \<open>sort.SliceStable(xs, less)\<close> sorts by the strict order \<open>less\<close> and keeps the original order of
  elements that \<open>less\<close> does not separate. Insertion from the right end puts an element before the
  elements equal to it that follow it, which is the stable sort.
\<close>

fun insert_stable :: "('a \<Rightarrow> 'a \<Rightarrow> bool) \<Rightarrow> 'a \<Rightarrow> 'a list \<Rightarrow> 'a list" where
  "insert_stable lt x [] = [x]"
| "insert_stable lt x (y # ys) =
     (if lt y x then y # insert_stable lt x ys else x # y # ys)"

definition slice_stable :: "('a \<Rightarrow> 'a \<Rightarrow> bool) \<Rightarrow> 'a list \<Rightarrow> 'a list" where
  "slice_stable lt xs = foldr (insert_stable lt) xs []"

lemma mset_insert_stable: "mset (insert_stable lt x ys) = add_mset x (mset ys)"
  by (induction ys) auto

lemma mset_slice_stable [sorting_simps]: "mset (slice_stable lt xs) = mset xs"
  by (induction xs) (simp_all add: slice_stable_def mset_insert_stable)

lemma set_slice_stable [sorting_simps]: "set (slice_stable lt xs) = set xs"
  by (rule mset_eq_setD) (rule mset_slice_stable)

lemma length_slice_stable [sorting_simps]: "length (slice_stable lt xs) = length xs"
  by (rule mset_eq_length) (rule mset_slice_stable)

lemma slice_stable_Nil [simp]: "slice_stable lt [] = []"
  by (simp add: slice_stable_def)

lemma slice_stable_Cons: "slice_stable lt (x # xs) = insert_stable lt x (slice_stable lt xs)"
  by (simp add: slice_stable_def)

text \<open>A \<open>less\<close> function that compares keys sorts as the library's \<open>sort_key\<close> does.\<close>

lemma insert_stable_insort_key:
  fixes f :: "'a \<Rightarrow> 'b::linorder"
  assumes "\<And>a b. lt a b \<longleftrightarrow> f a < f b"
  shows "insert_stable lt x ys = insort_key f x ys"
  by (induction ys) (auto simp: assms not_less)

lemma slice_stable_sort_key:
  fixes f :: "'a \<Rightarrow> 'b::linorder"
  assumes "\<And>a b. lt a b \<longleftrightarrow> f a < f b"
  shows "slice_stable lt xs = sort_key f xs"
proof -
  have "insert_stable lt = insort_key f"
    by (intro ext) (simp add: insert_stable_insort_key [OF assms])
  then show ?thesis by (simp add: slice_stable_def sort_key_def)
qed

lemma sort_key_perm_eq:
  assumes "mset xs = mset ys" and "inj_on f (set xs)"
  shows "sort_key f xs = sort_key f ys"
proof (rule properties_for_sort_key)
  show "mset (sort_key f ys) = mset xs" using assms(1) by simp
  show "filter (\<lambda>x. f k = f x) (sort_key f ys) = filter (\<lambda>x. f k = f x) xs"
    if k: "k \<in> set (sort_key f ys)" for k
  proof -
    have kx: "k \<in> set xs" using k assms(1) by (metis mset_eq_setD set_sort)
    have count: "filter (\<lambda>x. f k = f x) zs = replicate (count (mset zs) k) k"
      if "set zs = set xs" for zs
    proof -
      have "filter (\<lambda>x. f k = f x) zs = filter (\<lambda>x. k = x) zs"
        using assms(2) kx that by (intro filter_cong) (auto simp: inj_on_def)
      then show ?thesis by (simp add: filter_eq_replicate_mset replicate_count_mset_eq_filter_eq)
    qed
    have "set (sort_key f ys) = set xs" using assms(1) by (metis mset_eq_setD set_sort)
    then show ?thesis
      using count [of "sort_key f ys"] count [of xs] assms(1) by simp
  qed
  show "sorted (map f (sort_key f ys))" by simp
qed

lemma sorted_take_le_drop:
  assumes "sorted (map f xs)" and "a \<in> set (take n xs)" and "b \<in> set (drop n xs)"
  shows "f a \<le> (f b :: 'b::linorder)"
proof -
  have "sorted (map f (take n xs) @ map f (drop n xs))"
    using assms(1) by (simp flip: map_append)
  then show ?thesis using assms(2,3) by (auto simp: sorted_append)
qed

lemma sorted_map_drop: "sorted (map f xs) \<Longrightarrow> sorted (map f (drop n xs))"
  by (simp add: sorted_wrt_drop flip: drop_map)

section \<open>First occurrences\<close>

text \<open>Keep the first occurrence of each element, in order (a \<open>seen\<close> set and an output slice).\<close>

fun keep_first :: "'a list \<Rightarrow> 'a list \<Rightarrow> 'a list" where
  "keep_first seen [] = []"
| "keep_first seen (x # xs) =
     (if x \<in> set seen then keep_first seen xs else x # keep_first (x # seen) xs)"

lemma set_keep_first: "set (keep_first seen xs) = set xs - set seen"
  by (induction seen xs rule: keep_first.induct) auto

lemma distinct_keep_first: "distinct (keep_first seen xs)"
  by (induction seen xs rule: keep_first.induct) (auto simp: set_keep_first)

lemma subseq_keep_first: "subseq (keep_first seen xs) xs"
  by (induction seen xs rule: keep_first.induct) auto

section \<open>Eviction from the head of an insertion order\<close>

text \<open>
  Both caches of the program hold entries in a map and their keys in insertion order, and run a
  loop \<open>for over(limits) && len(order) > 0 { remove(order[0]) }\<close>. The loop ends only because a
  removal takes the head off the order, which holds under the cache's invariant; the model runs
  the loop with \<open>while_option\<close>, so that not ending would be \<open>None\<close>. The interface asks of a
  provider what one turn of the loop does; its client lemmas give termination, the exit condition,
  and that exactly a prefix of the order was evicted.
\<close>

locale fifo_evict =
  fixes inv :: "'s \<Rightarrow> bool"
    and order :: "'s \<Rightarrow> 'k list"
    and pop :: "'s \<Rightarrow> 's"
  assumes pop_inv: "inv s \<Longrightarrow> order s \<noteq> [] \<Longrightarrow> inv (pop s)"
    and pop_order: "inv s \<Longrightarrow> order s \<noteq> [] \<Longrightarrow> order (pop s) = tl (order s)"
begin

lemma evict_terminates:
  assumes "inv s"
  shows "\<exists>t. while_option (\<lambda>s. over s \<and> order s \<noteq> []) pop s = Some t"
proof (rule measure_while_option_Some [where P = inv and f = "\<lambda>s. length (order s)"])
  fix s assume "inv s" and "over s \<and> order s \<noteq> []"
  then show "inv (pop s) \<and> length (order (pop s)) < length (order s)"
    by (simp add: pop_inv pop_order)
qed (rule assms)

lemma evict_result:
  assumes "inv s" and "while_option (\<lambda>s. over s \<and> order s \<noteq> []) pop s = Some t"
  shows "inv t" and "\<not> over t \<or> order t = []"
    and "\<exists>n \<le> length (order s). t = (pop ^^ n) s \<and> order t = drop n (order s)
           \<and> (\<forall>m < n. over ((pop ^^ m) s))"
proof -
  let ?P = "\<lambda>u. inv u \<and> (\<exists>n \<le> length (order s). u = (pop ^^ n) s \<and> order u = drop n (order s)
                \<and> (\<forall>m < n. over ((pop ^^ m) s)))"
  have step: "?P (pop u)" if "?P u" and b: "over u \<and> order u \<noteq> []" for u
  proof -
    from that obtain n where n: "inv u" "n \<le> length (order s)" "u = (pop ^^ n) s"
      "order u = drop n (order s)" "\<forall>m < n. over ((pop ^^ m) s)" by blast
    with b have "Suc n \<le> length (order s)" by (cases "n = length (order s)") auto
    moreover have "order (pop u) = drop (Suc n) (order s)"
      using n b by (simp add: pop_order tl_drop drop_Suc)
    moreover have "\<forall>m < Suc n. over ((pop ^^ m) s)"
      using n b by (auto simp: less_Suc_eq)
    ultimately show ?thesis
      using n b by (intro conjI exI [of _ "Suc n"]) (simp_all add: pop_inv)
  qed
  have "?P s" using assms(1) by (intro conjI exI [of _ 0]) simp_all
  with step have "?P t" by (rule while_option_rule [OF _ assms(2)])
  then show "inv t" and "\<exists>n \<le> length (order s). t = (pop ^^ n) s \<and> order t = drop n (order s)
           \<and> (\<forall>m < n. over ((pop ^^ m) s))" by blast+
  show "\<not> over t \<or> order t = []" using while_option_stop [OF assms(2)] by blast
qed

end

end
