(* ===== verification/Utf8.thy ===== *)
theory Utf8
  imports Prelude
begin

text \<open>
  Go strings: a \<open>string\<close> is a sequence of bytes, here a list of 8-bit characters. This theory
  models the decoder and encoder of Go's \<open>unicode/utf8\<close> package (an invalid byte decodes to
  U+FFFD with width 1) and the runs of bytes that \<open>for _, r := range s\<close> visits, and proves that
  they are inverse to each other on valid text.
\<close>

type_synonym rune = nat

section \<open>UTF-8\<close>

definition rune_error :: rune where "rune_error = 65533"

definition is_scalar :: "rune \<Rightarrow> bool" where
  "is_scalar r \<longleftrightarrow> r \<le> 1114111 \<and> \<not> (55296 \<le> r \<and> r \<le> 57343)"

definition byte :: "nat \<Rightarrow> char" where "byte n = char_of n"

definition is_cont :: "char \<Rightarrow> bool" where
  "is_cont c \<longleftrightarrow> 128 \<le> (of_char c :: nat) \<and> (of_char c :: nat) \<le> 191"

text \<open>Length of the sequence a lead byte starts, and the range allowed for its second byte.\<close>

definition lead_info :: "nat \<Rightarrow> nat \<times> nat \<times> nat" where
  "lead_info b =
     (if b < 128 then (1, 0, 0)
      else if b < 194 then (0, 0, 0)
      else if b \<le> 223 then (2, 128, 191)
      else if b = 224 then (3, 160, 191)
      else if b = 237 then (3, 128, 159)
      else if b \<le> 239 then (3, 128, 191)
      else if b = 240 then (4, 144, 191)
      else if b \<le> 243 then (4, 128, 191)
      else if b = 244 then (4, 128, 143)
      else (0, 0, 0))"

definition decode_rune :: "string \<Rightarrow> rune \<times> nat" where
  "decode_rune s = (case s of
     [] \<Rightarrow> (rune_error, 0)
   | c0 # s1 \<Rightarrow>
     (case lead_info (of_char c0) of (n, lo, hi) \<Rightarrow>
      if n = 1 then (of_char c0, 1)
      else if n = 0 then (rune_error, 1)
      else (case s1 of
         [] \<Rightarrow> (rune_error, 1)
       | c1 # s2 \<Rightarrow>
         if of_char c1 < lo \<or> hi < of_char c1 then (rune_error, 1)
         else if n = 2 then (of_char c0 mod 32 * 64 + of_char c1 mod 64, 2)
         else (case s2 of
            [] \<Rightarrow> (rune_error, 1)
          | c2 # s3 \<Rightarrow>
            if \<not> is_cont c2 then (rune_error, 1)
            else if n = 3 then (of_char c0 mod 16 * 4096 + of_char c1 mod 64 * 64 + of_char c2 mod 64, 3)
            else (case s3 of
               [] \<Rightarrow> (rune_error, 1)
             | c3 # _ \<Rightarrow>
               if \<not> is_cont c3 then (rune_error, 1)
               else (of_char c0 mod 8 * 262144 + of_char c1 mod 64 * 4096
                       + of_char c2 mod 64 * 64 + of_char c3 mod 64, 4))))))"

definition encode_rune :: "rune \<Rightarrow> string" where
  "encode_rune r =
     (if r < 128 then [byte r]
      else if r < 2048 then [byte (192 + r div 64), byte (128 + r mod 64)]
      else if \<not> is_scalar r then [byte 239, byte 191, byte 189]
      else if r < 65536 then
        [byte (224 + r div 4096), byte (128 + r div 64 mod 64), byte (128 + r mod 64)]
      else
        [byte (240 + r div 262144), byte (128 + r div 4096 mod 64),
         byte (128 + r div 64 mod 64), byte (128 + r mod 64)])"

lemma of_char_byte [simp]: "of_char (byte n) = n mod (256 :: nat)"
  by (simp add: byte_def)

lemma decode_width:
  "s \<noteq> [] \<Longrightarrow> 1 \<le> snd (decode_rune s) \<and> snd (decode_rune s) \<le> length s"
  by (auto simp: decode_rune_def split: list.split prod.split)

text \<open>The runs of bytes that \<open>for _, r := range s\<close> visits, each with its rune.\<close>

function chunks :: "string \<Rightarrow> (rune \<times> string) list" where
  "chunks s = (if s = [] then []
     else (let (r, w) = decode_rune s in (r, take w s) # chunks (drop w s)))"
  by pat_completeness auto
termination
proof (relation "measure length")
  fix s x y z
  assume s: "s \<noteq> []" and "x = decode_rune s" "(y, z) = x"
  then have "z = snd (decode_rune s)" by (metis snd_conv)
  with s show "(drop z s, s) \<in> measure length"
    using decode_width [OF s] by simp
qed simp

declare chunks.simps [simp del]

lemma chunks_Nil [simp]: "chunks [] = []"
  by (simp add: chunks.simps)

lemma chunks_step:
  "s \<noteq> [] \<Longrightarrow> decode_rune s = (r, w) \<Longrightarrow> chunks s = (r, take w s) # chunks (drop w s)"
  by (subst chunks.simps) simp

lemma chunks_eq_Nil [simp]: "chunks s = [] \<longleftrightarrow> s = []"
  by (cases "decode_rune s") (auto simp: chunks.simps [of s])

lemma concat_chunks: "concat (map snd (chunks s)) = s"
proof (induction s rule: chunks.induct)
  case (1 s)
  show ?case
  proof (cases "s = []")
    case False
    obtain r w where d: "decode_rune s = (r, w)" by fastforce
    with 1 False show ?thesis by (simp add: chunks_step [OF False d])
  qed simp
qed

lemma chunk_nonempty: "p \<in> set (chunks s) \<Longrightarrow> snd p \<noteq> []"
proof (induction s rule: chunks.induct)
  case (1 s)
  show ?case
  proof (cases "s = []")
    case False
    obtain r w where d: "decode_rune s = (r, w)" by fastforce
    with 1 False decode_width [of s] show ?thesis
      by (auto simp: chunks_step [OF False d])
  qed (use 1 in simp)
qed

definition runes :: "string \<Rightarrow> rune list" where
  "runes s = map fst (chunks s)"

definition encode_runes :: "rune list \<Rightarrow> string" where
  "encode_runes rs = concat (map encode_rune rs)"

definition rune_count :: "string \<Rightarrow> nat" where
  "rune_count s = length (runes s)"

definition bad_chunk :: "rune \<times> string \<Rightarrow> bool" where
  "bad_chunk p \<longleftrightarrow> fst p = rune_error \<and> length (snd p) = 1"

definition valid_utf8 :: "string \<Rightarrow> bool" where
  "valid_utf8 s \<longleftrightarrow> list_all (\<lambda>p. \<not> bad_chunk p) (chunks s)"

lemma encode_runes_simps [simp]:
  "encode_runes [] = []"
  "encode_runes (r # rs) = encode_rune r @ encode_runes rs"
  "encode_runes (rs @ rs') = encode_runes rs @ encode_runes rs'"
  by (simp_all add: encode_runes_def)

lemma encode_rune_nonempty [simp]: "encode_rune r \<noteq> []"
  by (simp add: encode_rune_def)

text \<open>The base-64 digits of a rune, as the encoder writes them and the decoder reads them.\<close>

lemma lead_digits:
  "a < 32 \<Longrightarrow> (192 + a) mod 32 = (a :: nat)"
  "a < 16 \<Longrightarrow> (224 + a) mod 16 = (a :: nat)"
  "a < 8 \<Longrightarrow> (240 + a) mod 8 = (a :: nat)"
  "a < 64 \<Longrightarrow> (128 + a) mod 64 = (a :: nat)"
  using mod_mult_self1 [of a 6 32] mod_mult_self1 [of a 14 16] mod_mult_self1 [of a 30 8]
    mod_mult_self1 [of a 2 64]
  by (simp_all add: add.commute)

lemma small_mods:
  "a < 32 \<Longrightarrow> (192 + a) mod 256 = (192 + a :: nat)"
  "a < 16 \<Longrightarrow> (224 + a) mod 256 = (224 + a :: nat)"
  "a < 16 \<Longrightarrow> (240 + a) mod 256 = (240 + a :: nat)"
  "a < 64 \<Longrightarrow> (128 + a) mod 256 = (128 + a :: nat)"
  by simp_all

lemma digits2: "(r :: nat) = r div 64 * 64 + r mod 64"
  by simp

lemma digits3: "(r :: nat) = r div 4096 * 4096 + r div 64 mod 64 * 64 + r mod 64"
proof -
  have "r div 64 = r div 4096 * 64 + r div 64 mod 64"
    using div_mult2_eq [of r 64 64] by simp
  then show ?thesis using digits2 [of r] by linarith
qed

lemma digits4: "(r :: nat) = r div 262144 * 262144 + r div 4096 mod 64 * 4096
    + r div 64 mod 64 * 64 + r mod 64"
proof -
  have "r div 4096 = r div 262144 * 64 + r div 4096 mod 64"
    using div_mult2_eq [of r 4096 64] by simp
  then show ?thesis using digits3 [of r] by linarith
qed

text \<open>Decoding what was encoded gives the rune back, whatever follows.\<close>

lemma decode_encode2:
  assumes "128 \<le> r" and "r < 2048"
  shows "decode_rune (encode_rune r @ t) = (r, length (encode_rune r))"
proof -
  define a b where "a = r div 64" and "b = r mod 64"
  have r: "r = a * 64 + b" and b: "b < 64" by (simp_all add: a_def b_def)
  with assms have a: "2 \<le> a" "a < 32" by linarith+
  have e: "encode_rune r = [byte (192 + a), byte (128 + b)]"
    using assms by (simp add: encode_rune_def a_def b_def)
  show ?thesis
    using a b by (simp add: e decode_rune_def lead_info_def lead_digits small_mods) (simp add: r)
qed

lemma decode_encode3:
  assumes "2048 \<le> r" and "r < 65536" and "is_scalar r"
  shows "decode_rune (encode_rune r @ t) = (r, length (encode_rune r))"
proof -
  define a b c where "a = r div 4096" and "b = r div 64 mod 64" and "c = r mod 64"
  have r: "r = a * 4096 + b * 64 + c" and b: "b < 64" and c: "c < 64"
    using digits3 [of r] by (simp_all add: a_def b_def c_def)
  with assms have a: "a < 16" by linarith
  have lo: "a = 0 \<longrightarrow> 32 \<le> b" using r c assms(1) by linarith
  have hi: "a = 13 \<longrightarrow> b < 32" using r b c assms(3) unfolding is_scalar_def by linarith
  have e: "encode_rune r = [byte (224 + a), byte (128 + b), byte (128 + c)]"
    using assms by (simp add: encode_rune_def a_def b_def c_def)
  show ?thesis
    using a b c lo hi
    by (simp add: e decode_rune_def lead_info_def is_cont_def lead_digits small_mods)
      (auto simp: r)
qed

lemma decode_encode4:
  assumes "65536 \<le> r" and "is_scalar r"
  shows "decode_rune (encode_rune r @ t) = (r, length (encode_rune r))"
proof -
  define a b c d where "a = r div 262144" and "b = r div 4096 mod 64"
    and "c = r div 64 mod 64" and "d = r mod 64"
  have r: "r = a * 262144 + b * 4096 + c * 64 + d" and b: "b < 64" and c: "c < 64" and d: "d < 64"
    using digits4 [of r] by (simp_all add: a_def b_def c_def d_def)
  have top: "r \<le> 1114111" using assms(2) by (simp add: is_scalar_def)
  with r have a: "a < 5" by linarith
  have lo: "a = 0 \<longrightarrow> 16 \<le> b" using r b c d assms(1) by linarith
  have hi: "a = 4 \<longrightarrow> b < 16" using r b c d top by linarith
  have e: "encode_rune r = [byte (240 + a), byte (128 + b), byte (128 + c), byte (128 + d)]"
    using assms by (simp add: encode_rune_def a_def b_def c_def d_def)
  show ?thesis
    using a b c d lo hi
    by (simp add: e decode_rune_def lead_info_def is_cont_def lead_digits small_mods)
      (auto simp: r)
qed

lemma decode_encode:
  assumes "is_scalar r"
  shows "decode_rune (encode_rune r @ t) = (r, length (encode_rune r))"
proof -
  consider "r < 128" | "128 \<le> r" "r < 2048" | "2048 \<le> r" "r < 65536" | "65536 \<le> r" by linarith
  then show ?thesis
  proof cases
    case 1
    then show ?thesis by (simp add: decode_rune_def encode_rune_def lead_info_def)
  qed (use assms decode_encode2 decode_encode3 decode_encode4 in blast)+
qed

lemma chunks_encode_rune:
  "is_scalar r \<Longrightarrow> chunks (encode_rune r @ t) = (r, encode_rune r) # chunks t"
  using chunks_step [OF _ decode_encode [of r t]] by simp

lemma chunks_encode_runes_append:
  "list_all is_scalar rs \<Longrightarrow>
     chunks (encode_runes rs @ t) = map (\<lambda>r. (r, encode_rune r)) rs @ chunks t"
  by (induction rs) (auto simp: chunks_encode_rune)

lemma chunks_encode_runes:
  "list_all is_scalar rs \<Longrightarrow> chunks (encode_runes rs) = map (\<lambda>r. (r, encode_rune r)) rs"
  using chunks_encode_runes_append [of rs "[]"] by simp

lemma runes_encode_runes: "list_all is_scalar rs \<Longrightarrow> runes (encode_runes rs) = rs"
  by (simp add: runes_def chunks_encode_runes o_def)

lemma encode_rune_bad: "bad_chunk (r, encode_rune r) = False"
  by (auto simp: bad_chunk_def rune_error_def encode_rune_def is_scalar_def)

lemma valid_encode_runes: "list_all is_scalar rs \<Longrightarrow> valid_utf8 (encode_runes rs)"
  by (auto simp: valid_utf8_def chunks_encode_runes encode_rune_bad list_all_iff)

text \<open>Conversely, a decoded sequence that is not an invalid byte is the encoding of its rune.\<close>

lemma byte_of_char [simp]: "byte (of_char c) = c"
  by (simp add: byte_def)

lemma digit_join2: "b < 64 \<Longrightarrow> (a * 64 + b) div 64 = (a :: nat) \<and> (a * 64 + b) mod 64 = b"
  by simp

lemma digit_join3:
  assumes "b < 64" and "c < 64" and r: "r = a * 4096 + b * 64 + (c :: nat)"
  shows "r div 4096 = a \<and> r div 64 mod 64 = b \<and> r mod 64 = c"
proof -
  have r': "r = (a * 64 + b) * 64 + c" using r by simp
  have d: "r div 64 = a * 64 + b" "r mod 64 = c"
    unfolding r' using digit_join2 [OF assms(2)] by blast+
  have "r div 4096 = r div 64 div 64" by (simp add: div_mult2_eq [symmetric])
  then show ?thesis using d digit_join2 [OF assms(1)] by simp
qed

lemma digit_join4:
  assumes "b < 64" and "c < 64" and "d < 64"
    and r: "r = a * 262144 + b * 4096 + c * 64 + (d :: nat)"
  shows "r div 262144 = a \<and> r div 4096 mod 64 = b \<and> r div 64 mod 64 = c \<and> r mod 64 = d"
proof -
  have r': "r = (a * 64 + b) * 4096 + c * 64 + d" using r by simp
  have j: "r div 4096 = a * 64 + b" "r div 64 mod 64 = c" "r mod 64 = d"
    using digit_join3 [OF assms(2,3) r'] by blast+
  have "r div 262144 = r div 4096 div 64" by (simp add: div_mult2_eq [symmetric])
  then show ?thesis using j digit_join2 [OF assms(1)] by simp
qed

lemma lead_mods:
  "194 \<le> b \<Longrightarrow> b \<le> 223 \<Longrightarrow> b = 192 + b mod 32 \<and> 2 \<le> b mod (32 :: nat)"
  "224 \<le> b \<Longrightarrow> b \<le> 239 \<Longrightarrow> b = 224 + b mod (16 :: nat)"
  "240 \<le> b \<Longrightarrow> b \<le> 244 \<Longrightarrow> b = 240 + b mod 8 \<and> b mod (8 :: nat) \<le> 4"
  "128 \<le> b \<Longrightarrow> b \<le> 191 \<Longrightarrow> b = 128 + b mod (64 :: nat)"
  using lead_digits(1) [of "b - 192"] lead_digits(2) [of "b - 224"] lead_digits(3) [of "b - 240"]
    lead_digits(4) [of "b - 128"]
  by simp_all

lemma decoded_is_encoded2:
  assumes "194 \<le> (of_char c0 :: nat)" "(of_char c0 :: nat) \<le> 223" "is_cont c1"
    and r: "r = of_char c0 mod 32 * 64 + of_char c1 mod 64"
  shows "is_scalar r \<and> encode_rune r = [c0, c1]"
proof -
  let ?a = "of_char c0 mod 32 :: nat" and ?b = "of_char c1 mod 64 :: nat"
  have h: "of_char c0 = 192 + ?a" "2 \<le> ?a" and l: "of_char c1 = 128 + ?b"
    using lead_mods(1) assms(1,2) lead_mods(4) assms(3) by (auto simp: is_cont_def)
  have lt: "?a < 32" "?b < 64" by simp_all
  with r h(2) have range: "128 \<le> r" "r < 2048" by linarith+
  have d: "r div 64 = ?a" "r mod 64 = ?b" using digit_join2 [OF lt(2), of ?a] r by simp_all
  have "encode_rune r = [byte (192 + ?a), byte (128 + ?b)]"
    using range d by (simp add: encode_rune_def)
  then have "encode_rune r = [c0, c1]" by (simp only: h(1) [symmetric] l [symmetric] byte_of_char)
  then show ?thesis using range by (simp add: is_scalar_def)
qed

lemma decoded_is_encoded3:
  assumes c0: "224 \<le> (of_char c0 :: nat)" "(of_char c0 :: nat) \<le> 239"
    and cont: "is_cont c1" "is_cont c2"
    and lo: "of_char c0 = (224 :: nat) \<Longrightarrow> 160 \<le> (of_char c1 :: nat)"
    and hi: "of_char c0 = (237 :: nat) \<Longrightarrow> (of_char c1 :: nat) \<le> 159"
    and r: "r = of_char c0 mod 16 * 4096 + of_char c1 mod 64 * 64 + of_char c2 mod 64"
  shows "is_scalar r \<and> encode_rune r = [c0, c1, c2]"
proof -
  let ?a = "of_char c0 mod 16 :: nat" and ?b = "of_char c1 mod 64 :: nat"
    and ?c = "of_char c2 mod 64 :: nat"
  have h: "of_char c0 = 224 + ?a" and l: "of_char c1 = 128 + ?b" and m: "of_char c2 = 128 + ?c"
    using lead_mods(2) c0 lead_mods(4) cont by (auto simp: is_cont_def)
  have lt: "?a < 16" "?b < 64" "?c < 64" by simp_all
  have "32 \<le> ?b" if "?a = 0" using lo h l that by linarith
  with r lt have range: "2048 \<le> r" "r < 65536" by (cases "?a = 0"; linarith)+
  have "?b < 32" if "?a = 13" using hi h l that by linarith
  with r lt have "\<not> (55296 \<le> r \<and> r \<le> 57343)" by (cases "?a < 13"; cases "?a = 13"; linarith)
  then have s: "is_scalar r" using range by (simp add: is_scalar_def)
  have d: "r div 4096 = ?a" "r div 64 mod 64 = ?b" "r mod 64 = ?c"
    using digit_join3 [OF lt(2,3) r] by simp_all
  have "encode_rune r = [byte (224 + ?a), byte (128 + ?b), byte (128 + ?c)]"
    using range d s by (simp add: encode_rune_def)
  then have "encode_rune r = [c0, c1, c2]"
    by (simp only: h [symmetric] l [symmetric] m [symmetric] byte_of_char)
  with s show ?thesis ..
qed

lemma decoded_is_encoded4:
  assumes c0: "240 \<le> (of_char c0 :: nat)" "(of_char c0 :: nat) \<le> 244"
    and cont: "is_cont c1" "is_cont c2" "is_cont c3"
    and lo: "of_char c0 = (240 :: nat) \<Longrightarrow> 144 \<le> (of_char c1 :: nat)"
    and hi: "of_char c0 = (244 :: nat) \<Longrightarrow> (of_char c1 :: nat) \<le> 143"
    and r: "r = of_char c0 mod 8 * 262144 + of_char c1 mod 64 * 4096
             + of_char c2 mod 64 * 64 + of_char c3 mod 64"
  shows "is_scalar r \<and> encode_rune r = [c0, c1, c2, c3]"
proof -
  let ?a = "of_char c0 mod 8 :: nat" and ?b = "of_char c1 mod 64 :: nat"
    and ?c = "of_char c2 mod 64 :: nat" and ?d = "of_char c3 mod 64 :: nat"
  have h: "of_char c0 = 240 + ?a" "?a \<le> 4" and l: "of_char c1 = 128 + ?b"
    and m: "of_char c2 = 128 + ?c" "of_char c3 = 128 + ?d"
    using lead_mods(3) c0 lead_mods(4) cont by (auto simp: is_cont_def)
  have lt: "?b < 64" "?c < 64" "?d < 64" by simp_all
  have "16 \<le> ?b" if "?a = 0" using lo h l that by linarith
  with r lt have lower: "65536 \<le> r" by (cases "?a = 0"; linarith)
  have "?b < 16" if "?a = 4" using hi h l that by linarith
  with r lt h(2) have "r \<le> 1114111" by (cases "?a = 4"; linarith)
  with lower have s: "is_scalar r" by (simp add: is_scalar_def)
  have d: "r div 262144 = ?a" "r div 4096 mod 64 = ?b" "r div 64 mod 64 = ?c" "r mod 64 = ?d"
    using digit_join4 [OF lt r] by simp_all
  have "encode_rune r = [byte (240 + ?a), byte (128 + ?b), byte (128 + ?c), byte (128 + ?d)]"
    using lower d s by (simp add: encode_rune_def)
  then have "encode_rune r = [c0, c1, c2, c3]"
    by (simp only: h(1) [symmetric] l [symmetric] m [symmetric] byte_of_char)
  with s show ?thesis ..
qed

lemma decode_good:
  assumes "s \<noteq> []" and "decode_rune s = (r, w)" and "\<not> (r = rune_error \<and> w = 1)"
  shows "is_scalar r \<and> take w s = encode_rune r"
proof -
  obtain c0 s1 where s: "s = c0 # s1" using assms(1) by (cases s) auto
  let ?b = "of_char c0 :: nat"
  obtain n lo hi where li: "lead_info ?b = (n, lo, hi)" by (cases "lead_info ?b") auto
  note D = assms(2) [unfolded s decode_rune_def, simplified, unfolded li, simplified]
  consider "n = 1" | "n = 2" | "n = 3" | "n = 4" | "n = 0"
    using li by (auto simp: lead_info_def split: if_splits)
  then show ?thesis
  proof cases
    case 1
    then have "?b < 128" using li by (auto simp: lead_info_def split: if_splits)
    with 1 D s show ?thesis by (auto simp: is_scalar_def encode_rune_def)
  next
    case 2
    then have b: "194 \<le> ?b" "?b \<le> 223" "lo = 128" "hi = 191"
      using li by (auto simp: lead_info_def split: if_splits)
    from 2 D assms(3) obtain c1 s2 where s1: "s1 = c1 # s2" and r: "w = 2"
        "r = ?b mod 32 * 64 + of_char c1 mod 64" and "lo \<le> of_char c1" "of_char c1 \<le> hi"
      by (cases s1) (auto split: if_splits)
    with b have "is_cont c1" by (simp add: is_cont_def)
    with decoded_is_encoded2 [OF b(1,2) this r(2)] r s s1 show ?thesis by simp
  next
    case 3
    then have b: "224 \<le> ?b" "?b \<le> 239" "128 \<le> lo" "hi \<le> 191" "?b = 224 \<Longrightarrow> lo = 160"
        "?b = 237 \<Longrightarrow> hi = 159"
      using li by (auto simp: lead_info_def split: if_splits)
    from 3 D assms(3) obtain c1 c2 s3 where s1: "s1 = c1 # c2 # s3" and c: "is_cont c2"
        and r: "w = 3" "r = ?b mod 16 * 4096 + of_char c1 mod 64 * 64 + of_char c2 mod 64"
        and c1: "lo \<le> of_char c1" "of_char c1 \<le> hi"
      by (cases s1; cases "tl s1") (auto split: if_splits)
    from b c1 have "is_cont c1" by (simp add: is_cont_def)
    moreover have "?b = 224 \<Longrightarrow> 160 \<le> (of_char c1 :: nat)" "?b = 237 \<Longrightarrow> (of_char c1 :: nat) \<le> 159"
      using b(5,6) c1 by simp_all
    ultimately have "is_scalar r \<and> encode_rune r = [c0, c1, c2]"
      using decoded_is_encoded3 [OF b(1,2) _ c _ _ r(2)] by blast
    then show ?thesis using r(1) s s1 by simp
  next
    case 4
    then have b: "240 \<le> ?b" "?b \<le> 244" "128 \<le> lo" "hi \<le> 191" "?b = 240 \<Longrightarrow> lo = 144"
        "?b = 244 \<Longrightarrow> hi = 143"
      using li by (auto simp: lead_info_def split: if_splits)
    from 4 D assms(3) obtain c1 c2 c3 s4 where s1: "s1 = c1 # c2 # c3 # s4"
        and c: "is_cont c2" "is_cont c3"
        and r: "w = 4" "r = ?b mod 8 * 262144 + of_char c1 mod 64 * 4096
                  + of_char c2 mod 64 * 64 + of_char c3 mod 64"
        and c1: "lo \<le> of_char c1" "of_char c1 \<le> hi"
      by (cases s1; cases "tl s1"; cases "tl (tl s1)") (auto split: if_splits)
    from b c1 have "is_cont c1" by (simp add: is_cont_def)
    moreover have "?b = 240 \<Longrightarrow> 144 \<le> (of_char c1 :: nat)" "?b = 244 \<Longrightarrow> (of_char c1 :: nat) \<le> 143"
      using b(5,6) c1 by simp_all
    ultimately have "is_scalar r \<and> encode_rune r = [c0, c1, c2, c3]"
      using decoded_is_encoded4 [OF b(1,2) _ c _ _ r(2)] by blast
    then show ?thesis using r(1) s s1 by simp
  next
    case 5
    with D assms(3) show ?thesis by auto
  qed
qed

lemma good_chunk:
  "p \<in> set (chunks s) \<Longrightarrow> \<not> bad_chunk p \<Longrightarrow> is_scalar (fst p) \<and> snd p = encode_rune (fst p)"
proof (induction s rule: chunks.induct)
  case (1 s)
  show ?case
  proof (cases "s = []")
    case False
    obtain r w where d: "decode_rune s = (r, w)" by fastforce
    show ?thesis
    proof (cases "p = (r, take w s)")
      case True
      then have "\<not> (r = rune_error \<and> w = 1)"
        using 1(3) False by (cases s) (auto simp: bad_chunk_def)
      with decode_good [OF False d] True show ?thesis by simp
    next
      case p: False
      with 1 False d show ?thesis by (auto simp: chunks_step [OF False d])
    qed
  qed (use 1 in simp)
qed

lemma rune_error_scalar [simp]: "is_scalar rune_error"
  by (simp add: is_scalar_def rune_error_def)

lemma runes_scalar: "list_all is_scalar (runes s)"
  using good_chunk by (force simp: runes_def list_all_iff bad_chunk_def)

text \<open>On valid text, re-encoding the runes gives the text back.\<close>

lemma encode_runes_of_valid: "valid_utf8 s \<Longrightarrow> encode_runes (runes s) = s"
proof -
  assume v: "valid_utf8 s"
  then have "map (encode_rune \<circ> fst) (chunks s) = map snd (chunks s)"
    using good_chunk by (auto simp: valid_utf8_def list_all_iff)
  then have "encode_runes (runes s) = concat (map snd (chunks s))"
    by (simp only: encode_runes_def runes_def map_map)
  then show ?thesis by (simp add: concat_chunks)
qed

lemma rune_count_encode_runes [simp]: "list_all is_scalar rs \<Longrightarrow> rune_count (encode_runes rs) = length rs"
  by (simp add: rune_count_def runes_encode_runes)

lemma length_encode_rune: "1 \<le> length (encode_rune r) \<and> length (encode_rune r) \<le> 4"
  by (simp add: encode_rune_def)

lemma rune_count_le_length: "rune_count s \<le> length s"
proof -
  have "length cs \<le> length (concat (map snd cs))" if "\<forall>p \<in> set cs. snd p \<noteq> []"
    for cs :: "(rune \<times> string) list"
    using that by (induction cs) (auto simp: Suc_le_eq neq_Nil_conv)
  then have "length (chunks s) \<le> length (concat (map snd (chunks s)))"
    using chunk_nonempty by blast
  then show ?thesis by (simp add: rune_count_def runes_def concat_chunks)
qed

text \<open>ASCII bytes decode one by one; this evaluates the operations on literals.\<close>

lemma chunks_ascii_Cons:
  assumes "of_char c < (128 :: nat)"
  shows "chunks (c # s) = (of_char c, [c]) # chunks s"
proof -
  have "decode_rune (c # s) = (of_char c, 1)" using assms by (simp add: decode_rune_def lead_info_def)
  from chunks_step [OF _ this] show ?thesis by simp
qed

lemma runes_ascii_Cons: "of_char c < (128 :: nat) \<Longrightarrow> runes (c # s) = of_char c # runes s"
  by (simp add: runes_def chunks_ascii_Cons)

lemma runes_Nil [simp]: "runes [] = []"
  by (simp add: runes_def)

lemma rune_count_ascii_Cons:
  "of_char c < (128 :: nat) \<Longrightarrow> rune_count (c # s) = Suc (rune_count s)"
  by (simp add: rune_count_def runes_ascii_Cons)

lemma rune_count_Nil [simp]: "rune_count [] = 0"
  by (simp add: rune_count_def)

lemmas ascii_eval = chunks_ascii_Cons runes_ascii_Cons rune_count_ascii_Cons

text \<open>Decoding does not look past an ASCII byte, so text splits at ASCII bytes.\<close>

lemma lead_info_second: "lead_info b = (n, lo, hi) \<Longrightarrow> n \<noteq> 0 \<Longrightarrow> n \<noteq> 1 \<Longrightarrow> 128 \<le> lo"
  by (auto simp: lead_info_def split: if_splits)

lemma decode_append_ascii:
  assumes "s \<noteq> []" and c: "of_char c < (128 :: nat)"
  shows "decode_rune (s @ c # t) = decode_rune s"
proof -
  have nc: "\<not> is_cont c" using c by (simp add: is_cont_def)
  obtain c0 s1 where s: "s = c0 # s1" using assms(1) by (cases s) auto
  obtain n lo hi where li: "lead_info (of_char c0) = (n, lo, hi)" by (metis prod_cases3)
  show ?thesis
  proof (cases "n = 0 \<or> n = 1")
    case True
    with li show ?thesis by (auto simp: s decode_rune_def)
  next
    case False
    then have lo: "of_char c < lo" using lead_info_second [OF li] c by simp
    show ?thesis
    proof (cases s1)
      case Nil
      with li lo False show ?thesis by (simp add: s decode_rune_def)
    next
      case s1: (Cons c1 s2)
      show ?thesis
      proof (cases s2)
        case Nil
        with li nc show ?thesis by (simp add: s s1 decode_rune_def)
      next
        case (Cons c2 s3)
        with li nc show ?thesis by (cases s3) (simp_all add: s s1 decode_rune_def)
      qed
    qed
  qed
qed

lemma chunks_append_ascii:
  assumes c: "of_char c < (128 :: nat)"
  shows "chunks (s @ c # t) = chunks s @ chunks (c # t)"
proof (induction s rule: chunks.induct)
  case (1 s)
  show ?case
  proof (cases "s = []")
    case False
    obtain r w where d: "decode_rune s = (r, w)" by fastforce
    with decode_width [OF False] have w: "1 \<le> w" "w \<le> length s" by auto
    have "chunks (s @ c # t) = (r, take w (s @ c # t)) # chunks (drop w (s @ c # t))"
      using decode_append_ascii [OF False c] d by (intro chunks_step) auto
    also have "\<dots> = (r, take w s) # chunks (drop w s @ c # t)" using w by simp
    also have "\<dots> = ((r, take w s) # chunks (drop w s)) @ chunks (c # t)"
      using 1 [OF False refl] d by (simp add: w)
    finally show ?thesis using chunks_step [OF False d] by simp
  qed simp
qed

lemma runes_append_ascii:
  "of_char c < (128 :: nat) \<Longrightarrow> runes (s @ c # t) = runes s @ runes (c # t)"
  by (simp add: runes_def chunks_append_ascii)

end
