(* ===== verification/GoText.thy ===== *)
theory GoText
  imports Utf8
begin

text \<open>
  The functions of Go's \<open>unicode\<close>, \<open>strings\<close>, \<open>strconv\<close> and \<open>fmt\<close> packages that the program uses on
  strings. The Unicode case tables for runes beyond ASCII are data of the Go library; they are the
  argument \<open>unicode\<close> of the functions that consult them. Everything else is defined here.
\<close>

section \<open>Classes of runes\<close>

text \<open>\<open>unicode.IsControl\<close> is the category Cc; \<open>unicode.IsSpace\<close> is the White_Space property.\<close>

definition is_control :: "rune \<Rightarrow> bool" where
  "is_control r \<longleftrightarrow> r < 32 \<or> (127 \<le> r \<and> r < 160)"

definition is_space :: "rune \<Rightarrow> bool" where
  "is_space r \<longleftrightarrow> (9 \<le> r \<and> r \<le> 13) \<or> r = 32 \<or> r = 133 \<or> r = 160 \<or> r = 5760
     \<or> (8192 \<le> r \<and> r \<le> 8202) \<or> r = 8232 \<or> r = 8233 \<or> r = 8239 \<or> r = 8287 \<or> r = 12288"

definition has_control :: "string \<Rightarrow> bool" where
  "has_control s \<longleftrightarrow> list_ex is_control (runes s)"

text \<open>The tables of \<open>unicode.ToLower\<close> and of simple case folding, beyond ASCII.\<close>

record unicode =
  uc_lower :: "rune \<Rightarrow> rune"
  uc_fold :: "rune \<Rightarrow> rune"

definition ascii_tables :: unicode where
  "ascii_tables = \<lparr>uc_lower = (\<lambda>r. r), uc_fold = (\<lambda>r. r)\<rparr>"

definition ascii_lower :: "rune \<Rightarrow> rune" where
  "ascii_lower r = (if 65 \<le> r \<and> r \<le> 90 then r + 32 else r)"

definition lower_rune :: "unicode \<Rightarrow> rune \<Rightarrow> rune" where
  "lower_rune uc r = (if r < 128 then ascii_lower r else uc_lower uc r)"

definition fold_rune :: "unicode \<Rightarrow> rune \<Rightarrow> rune" where
  "fold_rune uc r = (if r < 128 then ascii_lower r else uc_fold uc r)"

section \<open>Strings\<close>

definition to_lower :: "unicode \<Rightarrow> string \<Rightarrow> string" where
  "to_lower uc s = encode_runes (map (lower_rune uc) (runes s))"

definition equal_fold :: "unicode \<Rightarrow> string \<Rightarrow> string \<Rightarrow> bool" where
  "equal_fold uc s t \<longleftrightarrow> map (fold_rune uc) (runes s) = map (fold_rune uc) (runes t)"

definition space_chunk :: "rune \<times> string \<Rightarrow> bool" where
  "space_chunk p \<longleftrightarrow> is_space (fst p)"

definition trim_space :: "string \<Rightarrow> string" where
  "trim_space s = concat (map snd
     (rev (dropWhile space_chunk (rev (dropWhile space_chunk (chunks s))))))"

definition has_prefix :: "string \<Rightarrow> string \<Rightarrow> bool" where
  "has_prefix s p \<longleftrightarrow> prefix p s"

definition trim_prefix :: "string \<Rightarrow> string \<Rightarrow> string" where
  "trim_prefix s p = (if has_prefix s p then drop (length p) s else s)"

text \<open>\<open>strings.Index\<close>: the position of the first occurrence.\<close>

fun str_index :: "'a list \<Rightarrow> 'a list \<Rightarrow> nat option" where
  "str_index [] sub = (if sub = [] then Some 0 else None)"
| "str_index (c # s) sub =
     (if prefix sub (c # s) then Some 0 else map_option Suc (str_index s sub))"

definition str_contains :: "string \<Rightarrow> string \<Rightarrow> bool" where
  "str_contains s sub \<longleftrightarrow> str_index s sub \<noteq> None"

definition trim_right_char :: "char \<Rightarrow> string \<Rightarrow> string" where
  "trim_right_char c s = rev (dropWhile (\<lambda>x. x = c) (rev s))"

fun split_on :: "char \<Rightarrow> string \<Rightarrow> string list" where
  "split_on c [] = [[]]"
| "split_on c (x # s) =
     (if x = c then [] # split_on c s
      else (case split_on c s of [] \<Rightarrow> [[x]] | w # ws \<Rightarrow> (x # w) # ws))"

text \<open>\<open>strings.Fields\<close>: the maximal runs without white space.\<close>

fun fields_aux :: "string \<Rightarrow> (rune \<times> string) list \<Rightarrow> string list" where
  "fields_aux acc [] = (if acc = [] then [] else [acc])"
| "fields_aux acc (p # ps) =
     (if space_chunk p then (if acc = [] then fields_aux [] ps else acc # fields_aux [] ps)
      else fields_aux (acc @ snd p) ps)"

definition str_fields :: "string \<Rightarrow> string list" where
  "str_fields s = fields_aux [] (chunks s)"

fun str_join :: "string \<Rightarrow> string list \<Rightarrow> string" where
  "str_join sep [] = []"
| "str_join sep [x] = x"
| "str_join sep (x # y # xs) = x @ sep @ str_join sep (y # xs)"

definition cut_at :: "char \<Rightarrow> string \<Rightarrow> (string \<times> string) option" where
  "cut_at c s = (if c \<in> set s
     then Some (takeWhile (\<lambda>x. x \<noteq> c) s, tl (dropWhile (\<lambda>x. x \<noteq> c) s)) else None)"

text \<open>\<open>strconv.Itoa\<close> and the verb \<open>%d\<close>.\<close>

fun show_nat :: "nat \<Rightarrow> string" where
  "show_nat n = (if n < 10 then [byte (48 + n)] else show_nat (n div 10) @ [byte (48 + n mod 10)])"

declare show_nat.simps [simp del]

definition show_int :: "int \<Rightarrow> string" where
  "show_int i = (if i < 0 then CHR ''-'' # show_nat (nat (- i)) else show_nat (nat i))"

definition show_bool :: "bool \<Rightarrow> string" where
  "show_bool b = (if b then ''true'' else ''false'')"

section \<open>Lemmas\<close>

lemma trim_space_Nil [simp]: "trim_space [] = []"
  by (simp add: trim_space_def)

lemma str_index_Some:
  "str_index s sub = Some i \<Longrightarrow>
     i + length sub \<le> length s \<and> take (length sub) (drop i s) = sub"
proof (induction s arbitrary: i)
  case (Cons c s)
  show ?case
  proof (cases "prefix sub (c # s)")
    case True
    with Cons.prems have "i = 0" by simp
    moreover from True obtain zs where "c # s = sub @ zs" by (auto simp: prefix_def)
    ultimately show ?thesis by (metis add_0 append_eq_conv_conj drop0 length_append le_add1)
  next
    case False
    with Cons.prems obtain j where "str_index s sub = Some j" "i = Suc j" by auto
    with Cons.IH [of j] show ?thesis by simp
  qed
qed (auto split: if_splits)

lemma str_index_first:
  assumes "sub \<noteq> []" and "take (length sub) (drop j s) = sub"
  shows "\<exists>i \<le> j. str_index s sub = Some i"
  using assms(2)
proof (induction s arbitrary: j)
  case Nil
  with assms(1) show ?case by simp
next
  case (Cons c s)
  show ?case
  proof (cases "prefix sub (c # s)")
    case True
    then show ?thesis by simp
  next
    case False
    have "j \<noteq> 0"
    proof
      assume "j = 0"
      with Cons.prems have "prefix sub (c # s)" by (metis drop0 take_is_prefix)
      with False show False ..
    qed
    then obtain k where k: "j = Suc k" by (cases j) auto
    with Cons.prems Cons.IH [of k] obtain i where "i \<le> k" "str_index s sub = Some i" by auto
    with k False show ?thesis by auto
  qed
qed

lemma str_contains_iff: "str_contains s sub \<longleftrightarrow> (\<exists>a b. s = a @ sub @ b)"
proof (cases "sub = []")
  case True
  have "str_index s [] = Some 0" by (cases s) auto
  with True show ?thesis by (auto simp: str_contains_def)
next
  case False
  show ?thesis
  proof
    assume "str_contains s sub"
    then obtain i where "str_index s sub = Some i" by (auto simp: str_contains_def)
    then have "take (length sub) (drop i s) = sub" using str_index_Some by blast
    then have "s = take i s @ sub @ drop (i + length sub) s"
      by (metis append_take_drop_id add.commute drop_drop)
    then show "\<exists>a b. s = a @ sub @ b" by blast
  next
    assume "\<exists>a b. s = a @ sub @ b"
    then obtain a b where "s = a @ sub @ b" by blast
    then have "take (length sub) (drop (length a) s) = sub" by simp
    from str_index_first [OF False this] show "str_contains s sub"
      by (auto simp: str_contains_def)
  qed
qed

lemma trim_right_char_last: "trim_right_char c s \<noteq> [] \<Longrightarrow> last (trim_right_char c s) \<noteq> c"
  using hd_dropWhile [of "\<lambda>x. x = c" "rev s"] by (simp add: trim_right_char_def last_rev)

lemma split_on_nonempty [simp]: "split_on c s \<noteq> []"
  by (induction s) (auto split: list.splits)

lemma join_split_on: "str_join [c] (split_on c s) = s"
proof (induction s)
  case (Cons x s)
  obtain w ws where "split_on c s = w # ws" by (cases "split_on c s") auto
  with Cons show ?case by (cases ws) auto
qed simp

lemma split_on_append: "split_on c (s @ c # t) = split_on c s @ split_on c t"
proof (induction s)
  case (Cons x s)
  obtain w ws where "split_on c s = w # ws" by (cases "split_on c s") auto
  with Cons show ?case by simp
qed simp

lemma trim_right_char_split: "\<exists>n. s = trim_right_char c s @ replicate n c"
proof -
  have "takeWhile (\<lambda>x. x = c) xs = replicate (length (takeWhile (\<lambda>x. x = c) xs)) c" for xs
    by (induction xs) auto
  then obtain n where "takeWhile (\<lambda>x. x = c) (rev s) = replicate n c" by blast
  then have "rev s = replicate n c @ dropWhile (\<lambda>x. x = c) (rev s)"
    by (metis takeWhile_dropWhile_id)
  then have "s = trim_right_char c s @ replicate n c"
    by (metis rev_append rev_replicate rev_rev_ident trim_right_char_def)
  then show ?thesis ..
qed

lemma to_lower_valid: "(\<And>r. is_scalar r \<Longrightarrow> is_scalar (lower_rune uc r)) \<Longrightarrow> valid_utf8 (to_lower uc s)"
  unfolding to_lower_def
  by (rule valid_encode_runes) (use runes_scalar in \<open>auto simp: list_all_iff\<close>)

lemma equal_fold_refl [simp]: "equal_fold uc s s"
  by (simp add: equal_fold_def)

lemma equal_fold_sym: "equal_fold uc s t \<Longrightarrow> equal_fold uc t s"
  by (simp add: equal_fold_def)

lemma equal_fold_trans: "equal_fold uc s t \<Longrightarrow> equal_fold uc t u \<Longrightarrow> equal_fold uc s u"
  by (simp add: equal_fold_def)

text \<open>A number can be read back from its digits.\<close>

definition digits_value :: "string \<Rightarrow> nat" where
  "digits_value s = foldl (\<lambda>a c. a * 10 + (of_char c - 48)) 0 s"

lemma digits_value_show_nat: "digits_value (show_nat n) = n"
proof (induction n rule: show_nat.induct)
  case (1 n)
  then show ?case by (cases "n < 10") (simp_all add: show_nat.simps [of n] digits_value_def)
qed

lemma show_nat_inj [simp]: "show_nat m = show_nat n \<longleftrightarrow> m = n"
  by (metis digits_value_show_nat)

end
