(* ===== verification/Regex.thy ===== *)
theory Regex
  imports GoText
begin

text \<open>
  The fully anchored patterns of the configuration (\<open>^...$\<close> in \<open>internal/config/config.go\<close>), as regular
  expressions over bytes with a derivative matcher for \<open>MatchString\<close>. Every class in these patterns
  is a set of ASCII characters or the complement of one ASCII character, so matching bytes and
  matching runes agree. Lemma: the matcher decides membership in the language of the expression.
\<close>

datatype re = RZero | ROne | RCls "char \<Rightarrow> bool" | RAlt re re | RSeq re re | RStar re

fun nullable :: "re \<Rightarrow> bool" where
  "nullable RZero = False"
| "nullable ROne = True"
| "nullable (RCls p) = False"
| "nullable (RAlt r s) = (nullable r \<or> nullable s)"
| "nullable (RSeq r s) = (nullable r \<and> nullable s)"
| "nullable (RStar r) = True"

text \<open>Smart constructors keep the derivatives small.\<close>

fun alt_re :: "re \<Rightarrow> re \<Rightarrow> re" where
  "alt_re RZero s = s"
| "alt_re r RZero = r"
| "alt_re r s = RAlt r s"

fun seq_re :: "re \<Rightarrow> re \<Rightarrow> re" where
  "seq_re RZero s = RZero"
| "seq_re ROne s = s"
| "seq_re r s = RSeq r s"

fun deriv_re :: "char \<Rightarrow> re \<Rightarrow> re" where
  "deriv_re c RZero = RZero"
| "deriv_re c ROne = RZero"
| "deriv_re c (RCls p) = (if p c then ROne else RZero)"
| "deriv_re c (RAlt r s) = alt_re (deriv_re c r) (deriv_re c s)"
| "deriv_re c (RSeq r s) =
     (if nullable r then alt_re (seq_re (deriv_re c r) s) (deriv_re c s)
      else seq_re (deriv_re c r) s)"
| "deriv_re c (RStar r) = seq_re (deriv_re c r) (RStar r)"

fun match_string :: "re \<Rightarrow> string \<Rightarrow> bool" where
  "match_string r [] = nullable r"
| "match_string r (c # s) = match_string (deriv_re c r) s"

section \<open>The language of an expression\<close>

inductive in_lang :: "re \<Rightarrow> string \<Rightarrow> bool" where
  one: "in_lang ROne []"
| cls: "p c \<Longrightarrow> in_lang (RCls p) [c]"
| altl: "in_lang r w \<Longrightarrow> in_lang (RAlt r s) w"
| altr: "in_lang s w \<Longrightarrow> in_lang (RAlt r s) w"
| seq: "in_lang r v \<Longrightarrow> in_lang s w \<Longrightarrow> in_lang (RSeq r s) (v @ w)"
| star0: "in_lang (RStar r) []"
| star1: "in_lang r v \<Longrightarrow> in_lang (RStar r) w \<Longrightarrow> in_lang (RStar r) (v @ w)"

inductive_cases in_langE:
  "in_lang RZero w" "in_lang ROne w" "in_lang (RCls p) w" "in_lang (RAlt r s) w"
  "in_lang (RSeq r s) w"

inductive_simps in_lang_simps [simp]:
  "in_lang RZero w" "in_lang ROne w" "in_lang (RCls p) w" "in_lang (RAlt r s) w"

lemma in_lang_RSeq: "in_lang (RSeq r s) w \<longleftrightarrow> (\<exists>u v. w = u @ v \<and> in_lang r u \<and> in_lang s v)"
  by (blast elim: in_langE(5) intro: in_lang.seq)

lemma nullable_iff: "nullable r \<longleftrightarrow> in_lang r []"
  by (induction r) (auto simp: in_lang_RSeq intro: in_lang.intros)

lemma in_lang_alt_re: "in_lang (alt_re r s) w \<longleftrightarrow> in_lang r w \<or> in_lang s w"
  by (induction r s rule: alt_re.induct) auto

lemma in_lang_seq_re: "in_lang (seq_re r s) w \<longleftrightarrow> in_lang (RSeq r s) w"
  by (induction r s rule: seq_re.induct) (auto simp: in_lang_RSeq)

lemma star_Cons:
  "in_lang q w \<Longrightarrow> q = RStar r \<Longrightarrow> w = c # u \<Longrightarrow>
     \<exists>v1 v2. u = v1 @ v2 \<and> in_lang r (c # v1) \<and> in_lang (RStar r) v2"
proof (induction arbitrary: u rule: in_lang.induct)
  case (star1 r' v w)
  show ?case
  proof (cases v)
    case Nil
    with star1 show ?thesis by simp
  next
    case (Cons c' v')
    with star1 show ?thesis by auto
  qed
qed simp_all

lemma deriv_re_iff: "in_lang (deriv_re c r) w \<longleftrightarrow> in_lang r (c # w)"
proof (induction r arbitrary: w)
  case (RSeq r s)
  have split: "in_lang (RSeq r s) (c # w) \<longleftrightarrow>
    (in_lang r [] \<and> in_lang s (c # w)) \<or> (\<exists>u v. w = u @ v \<and> in_lang r (c # u) \<and> in_lang s v)"
    by (auto simp: in_lang_RSeq Cons_eq_append_conv)
  show ?case
    unfolding split
    by (auto simp: in_lang_alt_re in_lang_seq_re in_lang_RSeq RSeq.IH nullable_iff)
next
  case (RStar r)
  have "in_lang (RStar r) (c # w) \<longleftrightarrow> (\<exists>u v. w = u @ v \<and> in_lang r (c # u) \<and> in_lang (RStar r) v)"
    using star_Cons in_lang.star1 by (metis append_Cons)
  then show ?case by (auto simp: in_lang_seq_re in_lang_RSeq RStar.IH)
qed (auto simp: in_lang_alt_re)

theorem match_string_iff: "match_string r w \<longleftrightarrow> in_lang r w"
  by (induction r w rule: match_string.induct) (auto simp: nullable_iff deriv_re_iff)

section \<open>Derived forms\<close>

definition is_lower :: "char \<Rightarrow> bool" where
  "is_lower c \<longleftrightarrow> CHR ''a'' \<le> c \<and> c \<le> CHR ''z''"
definition is_upper :: "char \<Rightarrow> bool" where
  "is_upper c \<longleftrightarrow> CHR ''A'' \<le> c \<and> c \<le> CHR ''Z''"
definition is_digit :: "char \<Rightarrow> bool" where
  "is_digit c \<longleftrightarrow> CHR ''0'' \<le> c \<and> c \<le> CHR ''9''"
definition is_alnum :: "char \<Rightarrow> bool" where
  "is_alnum c \<longleftrightarrow> is_lower c \<or> is_upper c \<or> is_digit c"

definition RChr :: "char \<Rightarrow> re" where "RChr c = RCls (\<lambda>x. x = c)"
definition RPlus :: "re \<Rightarrow> re" where "RPlus r = RSeq r (RStar r)"

fun RSeqs :: "re list \<Rightarrow> re" where
  "RSeqs [] = ROne"
| "RSeqs [r] = r"
| "RSeqs (r # rs) = RSeq r (RSeqs rs)"

text \<open>Bounded repetition of a class, \<open>[...]{m,n}\<close>, decided by length and content.\<close>

definition match_class :: "(char \<Rightarrow> bool) \<Rightarrow> nat \<Rightarrow> nat \<Rightarrow> string \<Rightarrow> bool" where
  "match_class p m n s \<longleftrightarrow> m \<le> length s \<and> length s \<le> n \<and> list_all p s"

lemma in_lang_star_cls: "in_lang (RStar (RCls p)) w \<longleftrightarrow> list_all p w"
proof
  show "list_all p w \<Longrightarrow> in_lang (RStar (RCls p)) w"
  proof (induction w)
    case (Cons c w)
    then have "in_lang (RStar (RCls p)) ([c] @ w)"
      by (intro in_lang.star1 in_lang.cls) auto
    then show ?case by simp
  qed (simp add: in_lang.star0)
  have "in_lang q w \<Longrightarrow> q = RStar (RCls p) \<Longrightarrow> list_all p w" for q
    by (induction rule: in_lang.induct) auto
  then show "in_lang (RStar (RCls p)) w \<Longrightarrow> list_all p w" by blast
qed

end
