(* ===== verification/ConfigTypes.thy ===== *)
theory ConfigTypes
  imports Regex
begin

text \<open>
  The data of the configuration (\<open>internal/config/config.go\<close>): the validated configuration, the raw
  file structures before validation, validation errors, and the library functions validation calls
  (\<open>conf_env\<close>): the YAML decoder, \<open>time.ParseDuration\<close>, \<open>url.Parse\<close>, \<open>regexp.Compile\<close>, and the case
  tables. Pointers of the raw structures are options; Go maps are association lists.
\<close>

section \<open>The validated configuration\<close>

record limits =
  li_default_window :: duration
  li_max_incident_window :: duration
  li_max_cron_window :: duration
  li_max_log_lines :: int
  li_max_evidence_items :: int
  li_max_incident_bytes :: int
  li_per_source_timeout :: duration
  li_total_timeout :: duration
  li_max_log_line_bytes :: int
  li_max_body_bytes :: int
  li_evidence_cache_ttl :: duration
  li_evidence_cache_max :: int
  li_evidence_cache_max_bytes :: int
  li_source_cache_ttl :: duration
  li_max_tool_calls_per_minute :: int
  li_max_concurrent_tools :: int
  li_warn_empty_bindings :: bool

record audit_cfg =
  au_file :: string
  au_max_bytes :: int
  au_max_files :: int

record tls_cfg =
  tl_ca_file :: string

record source =
  src_kind :: string
  src_base_url :: string
  src_token_env :: string
  src_token_file :: string
  src_token_header :: string
  src_headers :: "(string, string) gomap"

record gatus_ref =
  gr_source :: string
  gr_endpoint_key :: string

record docker_ref =
  dr_source :: string
  dr_container_name :: string

record loki_ref =
  lr_source :: string
  lr_selector :: string

record healthchecks_ref =
  hr_source :: string
  hr_check_name :: string
  hr_check_tags :: "string list"
  hr_check_uuid :: string
  hr_check_unique_key :: string
  hr_status_filter :: string
  hr_history_mode :: string

record beszel_ref =
  br_source :: string
  br_system_name :: string

record ntfy_ref =
  nr_source :: string
  nr_topic :: string

record service_sources =
  ss_gatus :: "gatus_ref option"
  ss_docker :: "docker_ref option"
  ss_loki :: "loki_ref option"
  ss_healthchecks :: "healthchecks_ref option"
  ss_beszel :: "beszel_ref option"
  ss_ntfy :: "ntfy_ref option"

record service =
  sv_id :: string
  sv_display_name :: string
  sv_sources :: service_sources

record redact_rule =
  rr_exact :: string
  rr_regex :: string

record config =
  cf_version :: int
  cf_limits :: limits
  cf_audit :: audit_cfg
  cf_tls :: tls_cfg
  cf_sources :: "(string, source) gomap"
  cf_services :: "service list"
  cf_redact :: "redact_rule list"

text \<open>
  The raw file structures have the fields of the validated ones, except for durations (strings),
  defaults (pointers) and names; the references have the same fields and share the records above.
\<close>

record file_limits =
  fl_default_window :: string
  fl_max_incident_window :: string
  fl_max_cron_window :: string
  fl_max_log_lines :: int
  fl_max_evidence_items :: int
  fl_max_incident_bytes :: "int option"
  fl_per_source_timeout :: string
  fl_total_timeout :: string
  fl_max_log_line_bytes :: int
  fl_max_body_bytes :: int
  fl_evidence_cache_ttl :: string
  fl_evidence_cache_max :: "int option"
  fl_evidence_cache_max_bytes :: "int option"
  fl_source_cache_ttl :: string
  fl_max_tool_calls_per_minute :: int
  fl_max_concurrent_tools :: int
  fl_warn_empty_bindings :: "bool option"

record file_audit =
  fa_file :: string
  fa_max_bytes :: int
  fa_max_files :: int

record file_tls =
  ft_ca_file :: string

record file_source =
  fs_kind :: string
  fs_base_url :: string
  fs_token_env :: string
  fs_token_file :: string
  fs_token_header :: string
  fs_headers :: "(string, string) gomap"

record file_service =
  fsv_id :: string
  fsv_display_name :: string
  fsv_sources :: service_sources

record file_redact =
  fr_exact :: string
  fr_regex :: string

record file_config =
  fc_version :: int
  fc_limits :: file_limits
  fc_audit :: file_audit
  fc_tls :: file_tls
  fc_sources :: "(string, file_source) gomap"
  fc_services :: "file_service list"
  fc_redact :: "file_redact list"

section \<open>Errors and library functions\<close>

record validation_error =
  ve_path :: string
  ve_message :: string

abbreviation verr :: "string \<Rightarrow> string \<Rightarrow> validation_error" where
  "verr p m \<equiv> \<lparr>ve_path = p, ve_message = m\<rparr>"

type_synonym validation_errors = "validation_error list"

definition validation_error_text :: "validation_error \<Rightarrow> string" where
  "validation_error_text e = ve_path e @ '': '' @ ve_message e"

definition validation_errors_text :: "validation_errors \<Rightarrow> string" where
  "validation_errors_text es =
     (if es = [] then ''validation failed'' else str_join ''; '' (map validation_error_text es))"

text \<open>A parsed URL, as far as the program looks at one.\<close>

record url =
  ur_scheme :: string
  ur_opaque :: string
  ur_user :: bool
  ur_host :: string
  ur_path :: string
  ur_raw_query :: string
  ur_fragment :: string

text \<open>What the second \<open>Decode\<close> of the YAML decoder finds after the configuration document.\<close>

datatype trailing = TrailingEOF | TrailingDocument | TrailingError string

record conf_env =
  ce_unicode :: unicode
  ce_duration :: "string \<Rightarrow> duration option"
  ce_url :: "string \<Rightarrow> url option"
  ce_regexp :: "string \<Rightarrow> bool"
  ce_yaml :: "string \<Rightarrow> (string + file_config) \<times> trailing"
  ce_yaml_error :: "string \<Rightarrow> string"

section \<open>\<open>time.Duration.String\<close>\<close>

text \<open>\<open>fmtFrac\<close>: the last \<open>prec\<close> digits as a fraction without trailing zeros.\<close>

fun frac_digits :: "nat \<Rightarrow> nat \<Rightarrow> string" where
  "frac_digits 0 v = []"
| "frac_digits (Suc prec) v = frac_digits prec (v div 10) @ [byte (48 + v mod 10)]"

definition show_frac :: "nat \<Rightarrow> nat \<Rightarrow> string" where
  "show_frac v prec =
     (let f = trim_right_char (CHR ''0'') (frac_digits prec v) in if f = [] then [] else CHR ''.'' # f)"

definition duration_string :: "duration \<Rightarrow> string" where
  "duration_string d =
     (let u = nat \<bar>d\<bar>;
          body =
            (if u = 0 then ''0s''
             else if u < 1000 then show_nat u @ ''ns''
             else if u < 1000000 then show_nat (u div 1000) @ show_frac u 3 @ encode_rune 181 @ ''s''
             else if u < 1000000000 then show_nat (u div 1000000) @ show_frac u 6 @ ''ms''
             else (let secs = u div 1000000000;
                       tail = show_nat (secs mod 60) @ show_frac u 9 @ ''s'';
                       mins = secs div 60
                   in if mins = 0 then tail
                      else (let tail = show_nat (mins mod 60) @ ''m'' @ tail; hours = mins div 60
                            in if hours = 0 then tail else show_nat hours @ ''h'' @ tail)))
      in (if d < 0 then CHR ''-'' # body else body))"

end
