(* ===== verification/Evidence.thy ===== *)
theory Evidence
  imports GoText "HOL-Library.Word"
begin

text \<open>
  The evidence model (\<open>internal/evidence/evidence.go\<close>, \<open>id.go\<close>): the closed vocabularies, items,
  source outcomes and bundles, the timeline order, the newest-first selection, the freshness
  categories and the opaque identifiers. Lemmas: the timeline sort is the stable sort by the
  lexicographic key of the code's comparison, it does not depend on the arrival order when the
  identifiers differ, and the selection keeps exactly the newest items.
\<close>

section \<open>Vocabularies\<close>

datatype kind = KindEndpointCheck | KindContainer | KindLogLine | KindCronCheck
  | KindMetricSample | KindNotification

datatype severity = SeverityInfo | SeverityWarning | SeverityError | SeverityCritical
  | SeverityUnknown

datatype freshness = FreshnessLive | FreshnessRecent | FreshnessStale | FreshnessUnknown
  | FreshnessCached | FreshnessMissing

datatype source_kind = SourceGatus | SourceDocker | SourceLoki | SourceHealthchecks
  | SourceBeszel | SourceNtfy

fun kind_str :: "kind \<Rightarrow> string" where
  "kind_str KindEndpointCheck = ''endpoint_check''"
| "kind_str KindContainer = ''container_state''"
| "kind_str KindLogLine = ''log_line''"
| "kind_str KindCronCheck = ''cron_check''"
| "kind_str KindMetricSample = ''metric_sample''"
| "kind_str KindNotification = ''notification''"

fun severity_str :: "severity \<Rightarrow> string" where
  "severity_str SeverityInfo = ''info''"
| "severity_str SeverityWarning = ''warning''"
| "severity_str SeverityError = ''error''"
| "severity_str SeverityCritical = ''critical''"
| "severity_str SeverityUnknown = ''unknown''"

fun freshness_str :: "freshness \<Rightarrow> string" where
  "freshness_str FreshnessLive = ''live''"
| "freshness_str FreshnessRecent = ''recent''"
| "freshness_str FreshnessStale = ''stale''"
| "freshness_str FreshnessUnknown = ''unknown''"
| "freshness_str FreshnessCached = ''cached''"
| "freshness_str FreshnessMissing = ''missing''"

fun source_str :: "source_kind \<Rightarrow> string" where
  "source_str SourceGatus = ''gatus''"
| "source_str SourceDocker = ''docker''"
| "source_str SourceLoki = ''loki''"
| "source_str SourceHealthchecks = ''healthchecks''"
| "source_str SourceBeszel = ''beszel''"
| "source_str SourceNtfy = ''ntfy''"

lemma source_str_inj [simp]: "source_str a = source_str b \<longleftrightarrow> a = b"
  by (cases a; cases b) simp_all

text \<open>The Go constants are strings, so the code orders source kinds by their names.\<close>

instantiation source_kind :: linorder
begin

definition less_eq_source_kind :: "source_kind \<Rightarrow> source_kind \<Rightarrow> bool" where
  "less_eq_source_kind a b \<longleftrightarrow> source_str a \<le> source_str b"

definition less_source_kind :: "source_kind \<Rightarrow> source_kind \<Rightarrow> bool" where
  "less_source_kind a b \<longleftrightarrow> source_str a < source_str b"

instance
proof
  fix a b c :: source_kind
  show "a < b \<longleftrightarrow> a \<le> b \<and> \<not> b \<le> a"
    unfolding less_eq_source_kind_def less_source_kind_def by (rule less_le_not_le)
  show "a \<le> a" by (simp add: less_eq_source_kind_def)
  show "a \<le> b \<Longrightarrow> b \<le> c \<Longrightarrow> a \<le> c"
    unfolding less_eq_source_kind_def by (rule order_trans)
  show "a \<le> b \<Longrightarrow> b \<le> a \<Longrightarrow> a = b"
    unfolding less_eq_source_kind_def using antisym source_str_inj by blast
  show "a \<le> b \<or> b \<le> a"
    unfolding less_eq_source_kind_def by (rule linear)
qed

end

text \<open>A value of the \<open>attributes\<close> map (\<open>map[string]any\<close>); a float is kept as its 64 bits.\<close>

datatype attr = AStr string | AInt int | ABool bool | AFloat "64 word" | AStrs "string list"

section \<open>Items, outcomes, bundles\<close>

record item =
  it_id :: string
  it_service_id :: string
  it_source :: source_kind
  it_source_id :: string
  it_kind :: kind
  it_observed_at :: time
  it_retrieved_at :: time
  it_window_start :: "time option"
  it_window_end :: "time option"
  it_summary :: string
  it_severity :: severity
  it_attributes :: "(string, attr) gomap"
  it_truncated :: bool
  it_redactions :: int
  it_freshness :: freshness
  it_order :: int

datatype status = StOk | StError | StSkipped | StTimeout | StAbsent | StCanceled

fun status_str :: "status \<Rightarrow> string" where
  "status_str StOk = ''ok''"
| "status_str StError = ''error''"
| "status_str StSkipped = ''skipped''"
| "status_str StTimeout = ''timeout''"
| "status_str StAbsent = ''absent''"
| "status_str StCanceled = ''canceled''"

record source_outcome =
  so_name :: string
  so_kind :: source_kind
  so_status :: status
  so_reason :: string
  so_error :: string
  so_item_count :: int
  so_complete :: bool
  so_truncated :: bool
  so_upstream_truncated :: bool
  so_local_truncated :: bool
  so_discarded :: int
  so_omitted :: int
  so_cache_state :: string
  so_cache_age :: int
  so_duration_ms :: int

record bundle_t =
  bu_service_id :: string
  bu_requested_start :: time
  bu_requested_end :: time
  bu_effective_start :: time
  bu_effective_end :: time
  bu_items :: "item list"
  bu_sources :: "source_outcome list"
  bu_complete :: bool
  bu_truncated :: bool
  bu_compact :: bool
  bu_byte_budget :: int
  bu_byte_size :: int
  bu_selection_truncated :: bool
  bu_byte_budget_truncated :: bool
  bu_omitted_items :: int
  bu_omitted_sources :: "string list option" \<comment> \<open>\<open>None\<close> is the nil slice\<close>
  bu_warnings :: "string list"
  bu_factual_summary :: string
  bu_retrieved_at :: time

text \<open>A concrete item, for the closed instances of the theorems.\<close>

definition sample_item :: "string \<Rightarrow> time \<Rightarrow> item" where
  "sample_item ident t =
     \<lparr>it_id = ident, it_service_id = ''media'', it_source = SourceLoki, it_source_id = ''stream'',
      it_kind = KindLogLine, it_observed_at = t, it_retrieved_at = t, it_window_start = None,
      it_window_end = None, it_summary = ''line'', it_severity = SeverityInfo, it_attributes = [],
      it_truncated = False, it_redactions = 0, it_freshness = FreshnessLive, it_order = 0\<rparr>"

section \<open>Order and selection\<close>

text \<open>\<open>SortItems\<close>: the \<open>less\<close> function of the source, then the stable sort.\<close>

definition item_less :: "item \<Rightarrow> item \<Rightarrow> bool" where
  "item_less a b =
     (if it_observed_at a \<noteq> it_observed_at b then it_observed_at a < it_observed_at b
      else if it_source a \<noteq> it_source b then it_source a < it_source b
      else if it_source_id a \<noteq> it_source_id b then it_source_id a < it_source_id b
      else if it_order a \<noteq> it_order b then it_order a < it_order b
      else it_id a < it_id b)"

definition sort_items :: "item list \<Rightarrow> item list" where
  "sort_items items = slice_stable item_less items"

definition outcome_less :: "source_outcome \<Rightarrow> source_outcome \<Rightarrow> bool" where
  "outcome_less a b =
     (if so_kind a \<noteq> so_kind b then so_kind a < so_kind b else so_name a < so_name b)"

definition sort_outcomes :: "source_outcome list \<Rightarrow> source_outcome list" where
  "sort_outcomes os = slice_stable outcome_less os"

definition keep_newest :: "item list \<Rightarrow> int \<Rightarrow> item list \<times> bool" where
  "keep_newest items mx =
     (if mx \<le> 0 \<or> int (length items) \<le> mx then (sort_items items, False)
      else (drop (length items - nat mx) (sort_items items), True))"

text \<open>
  \<open>ComputeFreshness\<close>. The age is a saturating difference, and its negation wraps around as the
  Go \<open>int64\<close> negation does.
\<close>

definition compute_freshness :: "time \<Rightarrow> time \<Rightarrow> freshness" where
  "compute_freshness observed now =
     (if observed = 0 then FreshnessUnknown
      else (let age = time_sub now observed in
        if age < 0 then
          (if wrap64 (- age) < 2 * minute then FreshnessLive else FreshnessUnknown)
        else if age \<le> 2 * minute then FreshnessLive
        else if age \<le> 15 * minute then FreshnessRecent
        else FreshnessStale))"

section \<open>Budgets of the cache\<close>

text \<open>The constants of \<open>cache.go\<close>, which the configuration refers to as well.\<close>

definition max_cache_items :: int where "max_cache_items = 1000"
definition default_cache_max_bytes :: int where "default_cache_max_bytes = 8 * 2 ^ 20"
definition max_cache_bytes :: int where "max_cache_bytes = 64 * 2 ^ 20"
definition min_cache_bytes :: int where "min_cache_bytes = 4 * 2 ^ 10"

section \<open>Identifiers\<close>

definition hex_digit :: "nat \<Rightarrow> char" where
  "hex_digit n = (if n < 10 then byte (48 + n) else byte (87 + n))"

definition hex_string :: "char list \<Rightarrow> string" where
  "hex_string bs = concat (map (\<lambda>c. [hex_digit (of_char c div 16), hex_digit (of_char c mod 16)]) bs)"

text \<open>
  \<open>NewOpaqueID\<close>: the process-wide counter (an atomic \<open>uint64\<close>) is the state; the eight random
  bytes are an input.
\<close>

definition new_opaque_id :: "string \<Rightarrow> char list \<Rightarrow> 64 word \<Rightarrow> string \<times> 64 word" where
  "new_opaque_id prfx rnd counter =
     (let n = counter + 1
      in (prfx @ ''_'' @ show_nat (unat n) @ ''_'' @ hex_string rnd, n))"

section \<open>The timeline order\<close>

definition item_key :: "item \<Rightarrow> time \<times> source_kind \<times> string \<times> int \<times> string" where
  "item_key a = (it_observed_at a, it_source a, it_source_id a, it_order a, it_id a)"

definition outcome_key :: "source_outcome \<Rightarrow> source_kind \<times> string" where
  "outcome_key o1 = (so_kind o1, so_name o1)"

lemma item_less_key: "item_less a b \<longleftrightarrow> item_key a < item_key b"
  by (auto simp: item_less_def item_key_def less_prod_def')

lemma outcome_less_key: "outcome_less a b \<longleftrightarrow> outcome_key a < outcome_key b"
  by (auto simp: outcome_less_def outcome_key_def less_prod_def')

lemma sort_items_eq: "sort_items items = sort_key item_key items"
  unfolding sort_items_def by (rule slice_stable_sort_key) (rule item_less_key)

lemma sort_outcomes_eq: "sort_outcomes os = sort_key outcome_key os"
  unfolding sort_outcomes_def by (rule slice_stable_sort_key) (rule outcome_less_key)

lemma mset_sort_items [sorting_simps]: "mset (sort_items xs) = mset xs"
  and set_sort_items [sorting_simps]: "set (sort_items xs) = set xs"
  and length_sort_items [sorting_simps]: "length (sort_items xs) = length xs"
  and sorted_sort_items: "sorted (map item_key (sort_items xs))"
  by (simp_all add: sort_items_eq)

lemma sort_items_eq_Nil [simp]: "sort_items xs = [] \<longleftrightarrow> xs = []"
  using length_sort_items [of xs] by auto

lemma sort_items_idem: "sort_items (sort_items xs) = sort_items xs"
  by (simp add: sort_items_eq sort_key_id_if_sorted)

lemma mset_sort_outcomes [sorting_simps]: "mset (sort_outcomes os) = mset os"
  and set_sort_outcomes [sorting_simps]: "set (sort_outcomes os) = set os"
  by (simp_all add: sort_outcomes_eq)

lemma item_key_inj: "inj_on it_id A \<Longrightarrow> inj_on item_key A"
  by (auto simp: inj_on_def item_key_def)

lemma sort_items_perm:
  assumes "mset xs = mset ys" and "distinct (map it_id xs)"
  shows "sort_items xs = sort_items ys"
proof -
  have "inj_on item_key (set xs)"
    using assms(2) by (intro item_key_inj) (simp add: distinct_map)
  with assms(1) show ?thesis unfolding sort_items_eq by (rule sort_key_perm_eq)
qed

lemma sort_outcomes_perm:
  assumes "mset xs = mset ys" and "distinct (map outcome_key xs)"
  shows "sort_outcomes xs = sort_outcomes ys"
  unfolding sort_outcomes_eq
  by (rule sort_key_perm_eq [OF assms(1)]) (use assms(2) in \<open>simp add: distinct_map\<close>)

section \<open>Selection\<close>

lemma keep_newest_items:
  "fst (keep_newest items mx) =
     drop (if mx \<le> 0 then 0 else length items - nat mx) (sort_items items)"
  by (auto simp: keep_newest_def)

lemma keep_newest_sorted: "sorted (map item_key (fst (keep_newest items mx)))"
  unfolding keep_newest_items by (intro sorted_map_drop sorted_sort_items)

lemma keep_newest_subset: "set (fst (keep_newest items mx)) \<subseteq> set items"
  by (auto simp: keep_newest_items sorting_simps dest: in_set_dropD)

lemma keep_newest_length: "0 < mx \<Longrightarrow> length (fst (keep_newest items mx)) = min (length items) (nat mx)"
  by (auto simp: keep_newest_items sorting_simps)

lemma keep_newest_perm:
  assumes "mset xs = mset ys" and "distinct (map it_id xs)"
  shows "keep_newest xs mx = keep_newest ys mx"
  using sort_items_perm [OF assms] mset_eq_length [OF assms(1)] by (simp add: keep_newest_def)

text \<open>What is kept is newer, in the timeline order, than what is left out.\<close>

lemma keep_newest_split:
  "\<exists>old. sort_items items = old @ fst (keep_newest items mx)
     \<and> (\<forall>a \<in> set old. \<forall>b \<in> set (fst (keep_newest items mx)). item_key a \<le> item_key b)
     \<and> (snd (keep_newest items mx) \<longleftrightarrow> old \<noteq> [])"
proof -
  define n where "n = (if mx \<le> 0 then 0 else length items - nat mx)"
  let ?s = "sort_items items"
  have kept: "fst (keep_newest items mx) = drop n ?s"
    by (simp add: keep_newest_items n_def)
  have "?s = take n ?s @ drop n ?s" by simp
  moreover have "\<forall>a \<in> set (take n ?s). \<forall>b \<in> set (drop n ?s). item_key a \<le> item_key b"
    using sorted_take_le_drop [OF sorted_sort_items] by blast
  moreover have "snd (keep_newest items mx) \<longleftrightarrow> take n ?s \<noteq> []"
    by (auto simp: keep_newest_def n_def sorting_simps)
  ultimately show ?thesis unfolding kept by blast
qed

section \<open>Freshness\<close>

text \<open>
  The freshness categories, as long as the observation is less than about 292 years in the future of the
  clock: within two minutes of it live, up to fifteen minutes old recent, older stale.
\<close>

lemma compute_freshness_exact:
  assumes "observed \<noteq> 0" and "min_int64 < now - observed"
  shows "compute_freshness observed now =
    (if now - observed \<le> - (2 * minute) then FreshnessUnknown
     else if now - observed \<le> 2 * minute then FreshnessLive
     else if now - observed \<le> 15 * minute then FreshnessRecent
     else FreshnessStale)"
proof (cases "now - observed \<le> max_int64")
  case True
  with assms have "time_sub now observed = now - observed" "wrap64 (observed - now) = observed - now"
    by (auto simp: time_sub_def sat64_def wrap64_id min_int64_def max_int64_def)
  with assms(1) show ?thesis by (auto simp: compute_freshness_def Let_def duration_defs)
next
  case False
  then have "time_sub now observed = max_int64"
    by (simp add: time_sub_def sat64_def min_int64_def max_int64_def)
  with assms(1) False show ?thesis
    by (auto simp: compute_freshness_def Let_def max_int64_def duration_defs)
qed

text \<open>
  Further in the future the saturated age is the least \<open>int64\<close>, whose negation is itself: the
  guard against future observations passes and the category is live.
\<close>

lemma far_future_is_live:
  assumes "observed \<noteq> 0" and "now - observed \<le> min_int64"
  shows "compute_freshness observed now = FreshnessLive"
proof -
  have "time_sub now observed = min_int64"
    using assms(2) by (auto simp: time_sub_def sat64_def min_int64_def max_int64_def)
  moreover have "wrap64 (- min_int64) = min_int64" by (simp add: wrap64_def min_int64_def)
  ultimately show ?thesis
    using assms(1) by (simp add: compute_freshness_def min_int64_def duration_defs)
qed

section \<open>Identifiers are distinct\<close>

lemma show_nat_digits: "c \<in> set (show_nat n) \<Longrightarrow> 48 \<le> (of_char c :: nat) \<and> (of_char c :: nat) \<le> 57"
proof (induction n rule: show_nat.induct)
  case (1 n)
  then show ?case by (cases "n < 10") (auto simp: show_nat.simps [of n])
qed

lemma show_nat_no_underscore: "CHR ''_'' \<notin> set (show_nat n)"
proof
  assume "CHR ''_'' \<in> set (show_nat n)"
  then have "(of_char (CHR ''_'') :: nat) \<le> 57" using show_nat_digits by blast
  then show False by simp
qed

lemma show_nat_then_underscore:
  assumes "show_nat m @ CHR ''_'' # xs = show_nat n @ CHR ''_'' # ys"
  shows "m = n"
proof -
  have "takeWhile (\<lambda>c. c \<noteq> CHR ''_'') (show_nat k @ CHR ''_'' # zs) = show_nat k" for k zs
    using show_nat_no_underscore [of k] by (intro takeWhile_tail takeWhile_append2 [THEN trans]) auto
  with assms show ?thesis by (metis show_nat_inj)
qed

text \<open>Identifiers made from different values of the counter differ, whatever the random bytes.\<close>

lemma new_opaque_id_distinct:
  assumes "fst (new_opaque_id p r1 c1) = fst (new_opaque_id p r2 c2)"
  shows "c1 = c2"
proof -
  have "show_nat (unat (c1 + 1)) @ CHR ''_'' # hex_string r1
      = show_nat (unat (c2 + 1)) @ CHR ''_'' # hex_string r2"
    using assms by (simp add: new_opaque_id_def Let_def)
  then have "unat (c1 + 1) = unat (c2 + 1)" by (rule show_nat_then_underscore)
  then have "c1 + 1 = c2 + 1" by (simp only: word_unat_eq_iff)
  then show ?thesis by simp
qed

end
