(* ===== verification/ConfigCheck.thy ===== *)
theory ConfigCheck
  imports ConfigTypes Evidence
begin

text \<open>
  The checks of one configuration value (\<open>internal/config/config.go\<close>): the anchored patterns, header
  and path rules, the secret heuristics, and the validation of the limits, the audit settings and
  the TLS settings. Lemmas: what each accepted value satisfies.
\<close>

section \<open>Patterns\<close>

definition id_char :: "char \<Rightarrow> bool" where
  "id_char c \<longleftrightarrow> is_lower c \<or> is_digit c \<or> c = CHR ''_'' \<or> c = CHR ''-''"

text \<open>\<open>serviceIDRe\<close> and \<open>sourceNameRe\<close> are the same pattern.\<close>

fun service_id_re :: "string \<Rightarrow> bool" where
  "service_id_re [] = False"
| "service_id_re (c # s) = (is_lower c \<and> match_class id_char 0 63 s)"

definition source_name_re :: "string \<Rightarrow> bool" where
  "source_name_re = service_id_re"

definition key_char :: "char \<Rightarrow> bool" where
  "key_char c \<longleftrightarrow> is_alnum c \<or> c = CHR ''_'' \<or> c = CHR ''-''"

definition topic_re :: "string \<Rightarrow> bool" where
  "topic_re = match_class key_char 1 64"

definition healthcheck_key_re :: "string \<Rightarrow> bool" where
  "healthcheck_key_re = match_class key_char 1 256"

fun env_name_re :: "string \<Rightarrow> bool" where
  "env_name_re [] = False"
| "env_name_re (c # s) =
     ((is_lower c \<or> is_upper c \<or> c = CHR ''_'')
      \<and> list_all (\<lambda>x. is_alnum x \<or> x = CHR ''_'') s)"

definition header_char :: "char \<Rightarrow> bool" where
  "header_char c \<longleftrightarrow> is_alnum c \<or> c \<in> set (''!#$%&*+.^_|~-'' @ [CHR 0x27, CHR 0x60])"

definition header_name_re :: "string \<Rightarrow> bool" where
  "header_name_re = match_class header_char 1 128"

definition service_id_pattern :: string where "service_id_pattern = ''^[a-z][a-z0-9_-]{0,63}$''"
definition topic_pattern :: string where "topic_pattern = ''^[A-Za-z0-9_-]{1,64}$''"
definition healthcheck_key_pattern :: string where
  "healthcheck_key_pattern = ''^[A-Za-z0-9_-]{1,256}$''"

text \<open>The byte of a double quote, and the class \<open>\s\<close>.\<close>

abbreviation dquote :: char where "dquote \<equiv> CHR 0x22"

definition re_space :: "char \<Rightarrow> bool" where
  "re_space c \<longleftrightarrow> c \<in> {CHR 0x09, CHR 0x0A, CHR 0x0C, CHR 0x0D, CHR '' ''}"

definition label_re :: re where
  "label_re = RSeqs
     [RCls (\<lambda>c. is_lower c \<or> is_upper c \<or> c = CHR ''_''),
      RStar (RCls (\<lambda>c. is_alnum c \<or> c = CHR ''_'')),
      RChr (CHR ''=''), RChr dquote, RStar (RCls (\<lambda>c. c \<noteq> dquote)), RChr dquote]"

definition loki_selector_re :: re where
  "loki_selector_re = RSeqs
     [RChr (CHR ''{''), label_re,
      RStar (RSeqs [RStar (RCls re_space), RChr (CHR '',''), RStar (RCls re_space), label_re]),
      RChr (CHR ''}''),
      RStar (RSeqs [RStar (RCls re_space), RChr (CHR ''|''), RStar (RCls re_space),
                    RCls (\<lambda>c. c = CHR ''='' \<or> c = CHR ''~''), RStar (RCls re_space),
                    RChr dquote, RStar (RCls (\<lambda>c. c \<noteq> dquote)), RChr dquote])]"

definition valid_loki_selector :: "string \<Rightarrow> bool" where
  "valid_loki_selector sel =
     (if length sel > 512 then False
      else if has_control sel \<or> CHR 0x60 \<in> set sel \<or> str_contains sel ''{{'' then False
      else match_string loki_selector_re sel)"

definition looks_like_secret :: "unicode \<Rightarrow> string \<Rightarrow> bool" where
  "looks_like_secret uc v =
     (if length v \<ge> 20 \<and> list_all (\<lambda>c. is_alnum c \<or> c \<in> set ''_-+/='') v then True
      else (let lv = to_lower uc v in has_prefix lv ''bearer '' \<or> has_prefix lv ''basic ''))"

definition invalid_locked_path :: "string \<Rightarrow> bool" where
  "invalid_locked_path path =
     (if CHR 0x5C \<in> set path \<or> has_control path then True
      else list_ex (\<lambda>segment. segment = ''.'' \<or> segment = ''..'') (split_on (CHR ''/'') path))"

definition is_sensitive_header_name :: "unicode \<Rightarrow> string \<Rightarrow> bool" where
  "is_sensitive_header_name uc name =
     (let lower = to_lower uc (trim_space name)
      in if lower \<in> set [''authorization'', ''proxy-authorization'', ''x-api-key'', ''api-key'',
                          ''cookie'', ''set-cookie''] then True
         else list_ex (str_contains lower)
           [''token'', ''secret'', ''password'', ''passwd'', ''credential'', ''apikey''])"

definition is_reserved_header_name :: "unicode \<Rightarrow> string \<Rightarrow> bool" where
  "is_reserved_header_name uc name \<longleftrightarrow>
     to_lower uc (trim_space name) \<in> set
       [''host'', ''content-length'', ''user-agent'', ''accept'', ''connection'',
        ''transfer-encoding'', ''trailer'', ''upgrade'', ''proxy-connection'', ''keep-alive'', ''te'']"

section \<open>Limits\<close>

text \<open>\<open>setDur\<close>: the destination stays zero when the value is rejected.\<close>

definition set_dur ::
  "(string \<Rightarrow> duration option) \<Rightarrow> string \<Rightarrow> string \<Rightarrow> duration \<Rightarrow> duration \<Rightarrow> duration
     \<Rightarrow> duration \<times> validation_errors" where
  "set_dur parse_duration field raw def mn mx =
     (if raw = [] then (def, [])
      else (case parse_duration raw of
              None \<Rightarrow> (0, [verr (''limits.'' @ field) ''invalid duration''])
            | Some d \<Rightarrow>
                if d < mn \<or> d > mx
                then (0, [verr (''limits.'' @ field)
                        (''must be between '' @ duration_string mn @ '' and '' @ duration_string mx)])
                else (d, [])))"

text \<open>The repeated check of an integer: non-positive means the default, negative is an error.\<close>

definition set_int :: "string \<Rightarrow> int \<Rightarrow> int \<Rightarrow> int \<Rightarrow> string \<Rightarrow> int \<times> validation_errors" where
  "set_int field v def mx msg =
     (let (v, e1) = (if v \<le> 0
            then (def, if v < 0 then [verr field ''must be positive''] else [])
            else (v, []))
      in (v, e1 @ (if v > mx then [verr field msg] else [])))"

text \<open>The repeated check of an optional integer; a rejected value leaves zero.\<close>

definition set_opt ::
  "string \<Rightarrow> int option \<Rightarrow> int \<Rightarrow> int \<Rightarrow> int \<Rightarrow> string \<Rightarrow> string \<Rightarrow> int \<times> validation_errors" where
  "set_opt field v def mn mx low high =
     (case v of
        None \<Rightarrow> (def, [])
      | Some x \<Rightarrow>
          if x < mn then (0, [verr field low])
          else if x > mx then (0, [verr field high]) else (x, []))"


definition parse_limits ::
  "(string \<Rightarrow> duration option) \<Rightarrow> file_limits \<Rightarrow> limits \<times> validation_errors" where
  "parse_limits pd f =
     (let (dw, e1) = set_dur pd ''default_window'' (fl_default_window f) hour minute (168 * hour);
          (iw, e2) = set_dur pd ''max_incident_window'' (fl_max_incident_window f)
                       (24 * hour) minute (168 * hour);
          (cw, e3) = set_dur pd ''max_cron_window'' (fl_max_cron_window f)
                       (168 * hour) hour (720 * hour);
          (pt, e4) = set_dur pd ''per_source_timeout'' (fl_per_source_timeout f)
                       (3 * second) (200 * millisecond) (30 * second);
          (tt, e5) = set_dur pd ''total_timeout'' (fl_total_timeout f)
                       (10 * second) second (60 * second);
          (et, e6) = set_dur pd ''evidence_cache_ttl'' (fl_evidence_cache_ttl f)
                       (5 * minute) (30 * second) hour;
          (st, e7) = set_dur pd ''source_cache_ttl'' (fl_source_cache_ttl f)
                       (15 * second) 0 (5 * minute);
          (ll, e8) = set_int ''limits.max_log_lines'' (fl_max_log_lines f) 100 500
                       ''must be <= 500'';
          (ei, e9) = set_int ''limits.max_evidence_items'' (fl_max_evidence_items f) 200 1000
                       ''must be <= 1000'';
          (ib, e10) = set_opt ''limits.max_incident_response_bytes'' (fl_max_incident_bytes f)
                       (256 * 2 ^ 10) (8 * 2 ^ 10) (4 * 2 ^ 20)
                       ''must be >= 8192'' ''must be <= 4194304'';
          (lb, e11) = set_int ''limits.max_log_line_bytes'' (fl_max_log_line_bytes f) 2048
                       (16 * 2 ^ 10) ''must be <= 16KiB'';
          (mb, e12) = set_int ''limits.max_body_bytes'' (fl_max_body_bytes f) (2 * 2 ^ 20)
                       (8 * 2 ^ 20) ''must be <= 8MiB'';
          (em, e13) = set_opt ''limits.evidence_cache_max'' (fl_evidence_cache_max f) 256 0 1000
                       ''must be >= 0'' ''must be <= 1000'';
          (eb, e14) = set_opt ''limits.evidence_cache_max_bytes'' (fl_evidence_cache_max_bytes f)
                       default_cache_max_bytes min_cache_bytes max_cache_bytes
                       (''must be >= '' @ show_int min_cache_bytes)
                       (''must be <= '' @ show_int max_cache_bytes);
          (tc, e15) = set_int ''limits.max_tool_calls_per_minute'' (fl_max_tool_calls_per_minute f)
                       120 1000 ''must be <= 1000'';
          (ct, e16) = set_int ''limits.max_concurrent_tools'' (fl_max_concurrent_tools f) 8 64
                       ''must be <= 64'';
          e17 = (if tt < pt
                 then [verr ''limits.total_timeout'' ''must be >= per_source_timeout''] else []);
          e18 = (if dw > iw
                 then [verr ''limits.default_window'' ''must be <= max_incident_window''] else [])
      in (\<lparr>li_default_window = dw, li_max_incident_window = iw, li_max_cron_window = cw,
           li_max_log_lines = ll, li_max_evidence_items = ei, li_max_incident_bytes = ib,
           li_per_source_timeout = pt, li_total_timeout = tt, li_max_log_line_bytes = lb,
           li_max_body_bytes = mb, li_evidence_cache_ttl = et, li_evidence_cache_max = em,
           li_evidence_cache_max_bytes = eb, li_source_cache_ttl = st,
           li_max_tool_calls_per_minute = tc, li_max_concurrent_tools = ct,
           li_warn_empty_bindings =
             (case fl_warn_empty_bindings f of None \<Rightarrow> True | Some b \<Rightarrow> b)\<rparr>,
          e1 @ e2 @ e3 @ e4 @ e5 @ e6 @ e7 @ e8 @ e9 @ e10 @ e11 @ e12 @ e13 @ e14 @ e15 @ e16
            @ e17 @ e18))"

text \<open>The bounds that every accepted configuration satisfies.\<close>

definition limits_ok :: "limits \<Rightarrow> bool" where
  "limits_ok l \<longleftrightarrow>
     minute \<le> li_default_window l \<and> li_default_window l \<le> li_max_incident_window l
     \<and> li_max_incident_window l \<le> 168 * hour
     \<and> hour \<le> li_max_cron_window l \<and> li_max_cron_window l \<le> 720 * hour
     \<and> 200 * millisecond \<le> li_per_source_timeout l \<and> li_per_source_timeout l \<le> 30 * second
     \<and> li_per_source_timeout l \<le> li_total_timeout l
     \<and> second \<le> li_total_timeout l \<and> li_total_timeout l \<le> 60 * second
     \<and> 30 * second \<le> li_evidence_cache_ttl l \<and> li_evidence_cache_ttl l \<le> hour
     \<and> 0 \<le> li_source_cache_ttl l \<and> li_source_cache_ttl l \<le> 5 * minute
     \<and> 1 \<le> li_max_log_lines l \<and> li_max_log_lines l \<le> 500
     \<and> 1 \<le> li_max_evidence_items l \<and> li_max_evidence_items l \<le> 1000
     \<and> 8192 \<le> li_max_incident_bytes l \<and> li_max_incident_bytes l \<le> 4194304
     \<and> 1 \<le> li_max_log_line_bytes l \<and> li_max_log_line_bytes l \<le> 16384
     \<and> 1 \<le> li_max_body_bytes l \<and> li_max_body_bytes l \<le> 8388608
     \<and> 0 \<le> li_evidence_cache_max l \<and> li_evidence_cache_max l \<le> 1000
     \<and> 4096 \<le> li_evidence_cache_max_bytes l \<and> li_evidence_cache_max_bytes l \<le> 67108864
     \<and> 1 \<le> li_max_tool_calls_per_minute l \<and> li_max_tool_calls_per_minute l \<le> 1000
     \<and> 1 \<le> li_max_concurrent_tools l \<and> li_max_concurrent_tools l \<le> 64"

lemma set_dur_ok:
  "set_dur pd field raw def mn mx = (v, e) \<Longrightarrow>
     e = [] \<longrightarrow> mn \<le> def \<and> def \<le> mx \<longrightarrow> mn \<le> v \<and> v \<le> mx"
  by (auto simp: set_dur_def split: if_splits option.splits)

lemma set_int_ok:
  "set_int field v def mx msg = (w, e) \<Longrightarrow> e = [] \<longrightarrow> 1 \<le> def \<longrightarrow> 1 \<le> w \<and> w \<le> mx"
  by (auto simp: set_int_def split: if_splits)

lemma set_opt_ok:
  "set_opt field v def mn mx low high = (w, e) \<Longrightarrow>
     e = [] \<longrightarrow> mn \<le> def \<and> def \<le> mx \<longrightarrow> mn \<le> w \<and> w \<le> mx"
  by (auto simp: set_opt_def split: if_splits option.splits)

lemma parse_limits_ok:
  assumes "parse_limits pd f = (l, [])"
  shows "limits_ok l"
proof -
  obtain dw e1 where s1:
    "set_dur pd ''default_window'' (fl_default_window f) hour minute (168 * hour) = (dw, e1)"
    by fastforce
  obtain iw e2 where s2:
    "set_dur pd ''max_incident_window'' (fl_max_incident_window f) (24 * hour) minute (168 *
      hour) = (iw, e2)"
    by fastforce
  obtain cw e3 where s3:
    "set_dur pd ''max_cron_window'' (fl_max_cron_window f) (168 * hour) hour (720 * hour) =
      (cw, e3)"
    by fastforce
  obtain pt e4 where s4:
    "set_dur pd ''per_source_timeout'' (fl_per_source_timeout f) (3 * second) (200 *
      millisecond) (30 * second) = (pt, e4)"
    by fastforce
  obtain tt e5 where s5:
    "set_dur pd ''total_timeout'' (fl_total_timeout f) (10 * second) second (60 * second) =
      (tt, e5)"
    by fastforce
  obtain et e6 where s6:
    "set_dur pd ''evidence_cache_ttl'' (fl_evidence_cache_ttl f) (5 * minute) (30 * second)
      hour = (et, e6)"
    by fastforce
  obtain st e7 where s7:
    "set_dur pd ''source_cache_ttl'' (fl_source_cache_ttl f) (15 * second) 0 (5 * minute) =
      (st, e7)"
    by fastforce
  obtain ll e8 where s8:
    "set_int ''limits.max_log_lines'' (fl_max_log_lines f) 100 500 ''must be <= 500'' = (ll,
      e8)"
    by fastforce
  obtain ei e9 where s9:
    "set_int ''limits.max_evidence_items'' (fl_max_evidence_items f) 200 1000 ''must be <= 1000'' = (ei, e9)"
    by fastforce
  obtain ib e10 where s10:
    "set_opt ''limits.max_incident_response_bytes'' (fl_max_incident_bytes f) (256 * 2 ^ 10) (8
      * 2 ^ 10) (4 * 2 ^ 20) ''must be >= 8192'' ''must be <= 4194304'' = (ib, e10)"
    by fastforce
  obtain lb e11 where s11:
    "set_int ''limits.max_log_line_bytes'' (fl_max_log_line_bytes f) 2048
      (16 * 2 ^ 10) ''must be <= 16KiB'' = (lb, e11)"
    by fastforce
  obtain mb e12 where s12:
    "set_int ''limits.max_body_bytes'' (fl_max_body_bytes f) (2 * 2 ^ 20)
      (8 * 2 ^ 20) ''must be <= 8MiB'' = (mb, e12)"
    by fastforce
  obtain em e13 where s13:
    "set_opt ''limits.evidence_cache_max'' (fl_evidence_cache_max f) 256 0 1000
      ''must be >= 0'' ''must be <= 1000'' = (em, e13)"
    by fastforce
  obtain eb e14 where s14:
    "set_opt ''limits.evidence_cache_max_bytes'' (fl_evidence_cache_max_bytes f)
      default_cache_max_bytes min_cache_bytes max_cache_bytes (''must be >= '' @ show_int
      min_cache_bytes) (''must be <= '' @ show_int max_cache_bytes) = (eb, e14)"
    by fastforce
  obtain tc e15 where s15:
    "set_int ''limits.max_tool_calls_per_minute'' (fl_max_tool_calls_per_minute f) 120 1000
      ''must be <= 1000'' = (tc, e15)"
    by fastforce
  obtain ct e16 where s16:
    "set_int ''limits.max_concurrent_tools'' (fl_max_concurrent_tools f) 8 64 ''must be <= 64''
      = (ct, e16)"
    by fastforce
  note bounds = set_dur_ok [OF s1] set_dur_ok [OF s2] set_dur_ok [OF s3] set_dur_ok [OF s4] set_dur_ok
    [OF s5] set_dur_ok [OF s6] set_dur_ok [OF s7] set_int_ok [OF s8] set_int_ok [OF s9]
    set_opt_ok [OF s10] set_int_ok [OF s11] set_int_ok [OF s12] set_opt_ok [OF s13]
    set_opt_ok [OF s14] set_int_ok [OF s15] set_int_ok [OF s16]
  note parsed = assms [unfolded parse_limits_def Let_def s1 s2 s3 s4 s5 s6 s7 s8 s9 s10 s11 s12
    s13 s14 s15 s16 prod.case prod.inject append_is_Nil_conv]
  have e: "e1 = []" "e2 = []" "e3 = []" "e4 = []" "e5 = []" "e6 = []" "e7 = []"
    "e8 = []" "e9 = []" "e10 = []" "e11 = []" "e12 = []" "e13 = []" "e14 = []" "e15 = []" "e16 = []"
    and order: "\<not> tt < pt" "\<not> dw > iw"
    using parsed [THEN conjunct2] by (simp_all split: if_splits)
  have l: "li_default_window l = dw" "li_max_incident_window l = iw"
    "li_max_cron_window l = cw" "li_max_log_lines l = ll" "li_max_evidence_items l = ei"
    "li_max_incident_bytes l = ib" "li_per_source_timeout l = pt" "li_total_timeout l = tt"
    "li_max_log_line_bytes l = lb" "li_max_body_bytes l = mb" "li_evidence_cache_ttl l = et"
    "li_evidence_cache_max l = em" "li_evidence_cache_max_bytes l = eb"
    "li_source_cache_ttl l = st" "li_max_tool_calls_per_minute l = tc"
    "li_max_concurrent_tools l = ct"
    by (simp_all only: parsed [THEN conjunct1, symmetric] limits.select_convs)
  show ?thesis
    using bounds order unfolding e limits_ok_def l duration_defs default_cache_max_bytes_def
      min_cache_bytes_def max_cache_bytes_def
    by simp
qed

definition empty_limits :: file_limits where
  "empty_limits =
     \<lparr>fl_default_window = [], fl_max_incident_window = [], fl_max_cron_window = [],
      fl_max_log_lines = 0, fl_max_evidence_items = 0, fl_max_incident_bytes = None,
      fl_per_source_timeout = [], fl_total_timeout = [], fl_max_log_line_bytes = 0,
      fl_max_body_bytes = 0, fl_evidence_cache_ttl = [], fl_evidence_cache_max = None,
      fl_evidence_cache_max_bytes = None, fl_source_cache_ttl = [],
      fl_max_tool_calls_per_minute = 0, fl_max_concurrent_tools = 0,
      fl_warn_empty_bindings = None\<rparr>"

lemma empty_limits_accepted: "snd (parse_limits pd empty_limits) = []"
  by (simp add: parse_limits_def empty_limits_def set_dur_def set_int_def set_opt_def
      duration_defs)

section \<open>Audit and TLS\<close>

definition parse_tls :: "file_tls \<Rightarrow> tls_cfg \<times> validation_errors" where
  "parse_tls f =
     (let path = trim_space (ft_ca_file f)
      in if path = [] then (\<lparr>tl_ca_file = []\<rparr>, [])
         else (\<lparr>tl_ca_file = path\<rparr>,
               if rune_count path > 4096 \<or> has_control path
               then [verr ''tls.ca_file'' ''must be a valid path of at most 4096 characters'']
               else []))"

definition parse_audit :: "file_audit \<Rightarrow> audit_cfg \<times> validation_errors" where
  "parse_audit f =
     (let file = trim_space (fa_file f)
      in if file = []
         then (\<lparr>au_file = [], au_max_bytes = fa_max_bytes f, au_max_files = fa_max_files f\<rparr>, [])
         else (let e1 = (if rune_count file > 4096 \<or> has_control file
                 then [verr ''audit.file'' ''must be a valid path of at most 4096 characters'']
                 else []);
                 (mb, e2) = set_int ''audit.max_bytes'' (fa_max_bytes f) (10 * 2 ^ 20)
                   (100 * 2 ^ 20) ''must be <= 100MiB'';
                 (mf, e3) = set_int ''audit.max_files'' (fa_max_files f) 3 20 ''must be <= 20''
               in (\<lparr>au_file = file, au_max_bytes = mb, au_max_files = mf\<rparr>, e1 @ e2 @ e3)))"

definition audit_ok :: "audit_cfg \<Rightarrow> bool" where
  "audit_ok a \<longleftrightarrow> au_file a = [] \<or>
     (rune_count (au_file a) \<le> 4096 \<and> \<not> has_control (au_file a)
      \<and> 1 \<le> au_max_bytes a \<and> au_max_bytes a \<le> 104857600
      \<and> 1 \<le> au_max_files a \<and> au_max_files a \<le> 20)"

lemma parse_audit_ok: "parse_audit f = (a, []) \<Longrightarrow> audit_ok a"
  by (auto simp: parse_audit_def audit_ok_def Let_def split: if_splits prod.splits
      dest!: set_int_ok)

end
