(* ===== verification/Redaction.thy ===== *)
theory Redaction
  imports GoText
begin

text \<open>
  The redaction engine (\<open>internal/redaction/redact.go\<close>). Regular expressions are compiled and run
  by Go's \<open>regexp\<close> package: a compiled expression is the function that gives the index pairs of
  \<open>FindAllStringIndex(s, -1)\<close>, and \<open>regexp.Compile\<close> is the argument \<open>compile\<close> of \<open>new_engine\<close>.
  All statements hold for every such function. Lemmas: no kept piece of the text contains an exact
  secret, no byte of a regex match is kept, the output is valid UTF-8 without control characters,
  and the size limits hold without splitting a character.
\<close>

type_synonym matcher = "string \<Rightarrow> (nat \<times> nat) list"

record engine =
  en_exact :: "string list"
  en_regexps :: "matcher list"

record rule =
  ru_exact :: string
  ru_regex :: string

definition replacement :: string where "replacement = ''[REDACTED]''"

definition builtin_patterns :: "string list" where
  "builtin_patterns =
   [''(?i)'' @ [CHR 0x22]
        @ ''(password|passwd|pwd|secret|token|api[_-]?key|authorization|cookie|set-cookie)''
        @ [CHR 0x22] @ [CHR 0x5C] @ ''s*:'' @ [CHR 0x5C] @ ''s*'' @ [CHR 0x22] @ ''(?:''
        @ [CHR 0x5C] @ [CHR 0x5C] @ ''.|[^'' @ [CHR 0x22] @ [CHR 0x5C] @ [CHR 0x5C] @ ''])*''
        @ [CHR 0x22],
    ''(?i)(((proxy-)?authorization)'' @ [CHR 0x5C] @ ''s*[:=]'' @ [CHR 0x5C]
        @ ''s*)?(bearer|basic)'' @ [CHR 0x5C] @ ''s+[a-z0-9'' @ [CHR 0x5C] @ ''-._~+/]+=*'',
    ''(?i)(password|passwd|pwd|secret|token|api[_-]?key|authorization|bearer)'' @ [CHR 0x5C]
        @ ''s*[=:]'' @ [CHR 0x5C] @ ''s*('' @ [CHR 0x22] @ ''(?:'' @ [CHR 0x5C] @ [CHR 0x5C]
        @ ''.|[^'' @ [CHR 0x22] @ [CHR 0x5C] @ [CHR 0x5C] @ ''])*'' @ [CHR 0x22] @ ''|''
        @ [CHR 0x27] @ ''(?:'' @ [CHR 0x5C] @ [CHR 0x5C] @ ''.|[^'' @ [CHR 0x27] @ [CHR 0x5C]
        @ [CHR 0x5C] @ ''])*'' @ [CHR 0x27] @ ''|'' @ [CHR 0x5C] @ ''S+)'',
    ''(?i)(ghp|gho|ghu|ghs|ghr)_[A-Za-z0-9]{20,}'',
    ''(?i)sk-[A-Za-z0-9]{20,}'',
    ''(?i)AKIA[0-9A-Z]{16}'',
    ''(?is)-----BEGIN (?:RSA |EC |OPENSSH )?PRIVATE KEY-----.*?-----END (?:RSA |EC |OPENSSH )?PRIVATE KEY-----'',
    ''[a-zA-Z0-9._%+'' @ [CHR 0x5C] @ ''-]+@[a-zA-Z0-9.'' @ [CHR 0x5C] @ ''-]+'' @ [CHR 0x5C]
        @ ''.[a-zA-Z]{2,}'',
    ''(?i)'' @ [CHR 0x5C] @ ''b(set-cookie|cookie)'' @ [CHR 0x5C] @ ''s*[:=][ '' @ [CHR 0x5C]
        @ ''t]*[^='' @ [CHR 0x5C] @ ''s;'' @ [CHR 0x5C] @ ''r'' @ [CHR 0x5C] @ ''n]+=[^''
        @ [CHR 0x5C] @ ''r'' @ [CHR 0x5C] @ ''n]*'']"

section \<open>Cleaning and truncation\<close>

text \<open>\<open>strings.ToValidUTF8(s, repl)\<close>: a run of invalid bytes becomes one replacement.\<close>

fun valid_chunks :: "string \<Rightarrow> bool \<Rightarrow> (rune \<times> string) list \<Rightarrow> string" where
  "valid_chunks repl bad [] = []"
| "valid_chunks repl bad (p # ps) =
     (if bad_chunk p then (if bad then valid_chunks repl True ps else repl @ valid_chunks repl True ps)
      else snd p @ valid_chunks repl False ps)"

definition to_valid_utf8 :: "string \<Rightarrow> string \<Rightarrow> string" where
  "to_valid_utf8 s repl = valid_chunks repl False (chunks s)"

definition clean_rune :: "rune \<Rightarrow> rune" where
  "clean_rune r = (if r = 9 \<or> r = 10 \<or> r = 13 then r else if is_control r then 32 else r)"

definition sanitize_control :: "string \<Rightarrow> string" where
  "sanitize_control s =
     (if s = [] then s
      else encode_runes (map clean_rune (runes (to_valid_utf8 s '' ''))))"

text \<open>\<open>Truncate\<close> counts runes, \<open>TruncateBytes\<close> bytes.\<close>

definition truncate_runes :: "string \<Rightarrow> int \<Rightarrow> string \<times> bool" where
  "truncate_runes s mx =
     (if mx \<le> 0 then ([], True)
      else if int (rune_count s) \<le> mx then (s, False)
      else if mx < 3 then (encode_runes (take (nat mx) (runes s)), True)
      else (encode_runes (take (nat (mx - 3)) (runes s)) @ ''...'', True))"

text \<open>The byte index at which each rune of the string starts.\<close>

fun rune_starts :: "nat \<Rightarrow> (rune \<times> string) list \<Rightarrow> nat list" where
  "rune_starts i [] = []"
| "rune_starts i (p # ps) = i # rune_starts (i + length (snd p)) ps"

fun last_start_le :: "int \<Rightarrow> nat \<Rightarrow> nat list \<Rightarrow> nat" where
  "last_start_le target fin [] = fin"
| "last_start_le target fin (i # is) =
     (if int i > target then fin else last_start_le target i is)"

definition truncate_bytes :: "string \<Rightarrow> int \<Rightarrow> string \<times> bool" where
  "truncate_bytes s mx =
     (if mx \<le> 0 then ([], True)
      else if int (length s) \<le> mx then (s, False)
      else (let (target, sfx) = (if mx - 3 < 0 then (mx, []) else (mx - 3, ''...''));
                fin = last_start_le target 0 (rune_starts 0 (chunks s));
                fin = (if fin = 0 \<and> target \<ge> int (length s) then length s else fin)
            in (take fin s @ sfx, True)))"

section \<open>Redaction\<close>

text \<open>The mask of redacted bytes with the number of set bits, as \<open>Apply\<close> keeps them.\<close>

type_synonym mask = "bool list \<times> nat"

definition mark_byte :: "mask \<Rightarrow> nat \<Rightarrow> mask" where
  "mark_byte m i = (if fst m ! i then m else ((fst m)[i := True], snd m + 1))"

definition mark :: "nat \<Rightarrow> nat \<Rightarrow> mask \<Rightarrow> mask" where
  "mark start fin m =
     (if fin > length (fst m) \<or> start \<ge> fin then m else foldl mark_byte m [start ..< fin])"

function mark_exact :: "string \<Rightarrow> string \<Rightarrow> nat \<Rightarrow> mask \<Rightarrow> mask" where
  "mark_exact s ex offset m =
     (if ex \<noteq> [] \<and> offset + length ex \<le> length s then
        (case str_index (drop offset s) ex of
           None \<Rightarrow> m
         | Some index \<Rightarrow>
             (let start = offset + index; fin = start + length ex
              in mark_exact s ex fin (mark start fin m)))
      else m)"
  by pat_completeness auto
termination
proof (relation "measure (\<lambda>(s, ex, offset, m). length s - offset)")
  fix s ex :: string and offset index start fin :: nat and m :: mask
  assume a: "ex \<noteq> [] \<and> offset + length ex \<le> length s"
    and b: "start = offset + index" "fin = start + length ex"
  from a have "0 < length ex" by simp
  with a b have "length s - fin < length s - offset" by linarith
  then show "((s, ex, fin, mark start fin m), s, ex, offset, m)
      \<in> measure (\<lambda>(s, ex, offset, m). length s - offset)" by simp
qed simp

declare mark_exact.simps [simp del]

fun mark_exacts :: "string \<Rightarrow> string list \<Rightarrow> mask \<Rightarrow> mask" where
  "mark_exacts s [] m = m"
| "mark_exacts s (ex # exs) m =
     (if ex = [] then mark_exacts s exs m
      else (let m = mark_exact s ex 0 m
            in if snd m = length s then m else mark_exacts s exs m))"

definition mark_matches :: "(nat \<times> nat) list \<Rightarrow> mask \<Rightarrow> mask" where
  "mark_matches locs m = foldl (\<lambda>m (a, b). if b > a then mark a b m else m) m locs"

fun mark_regexps :: "string \<Rightarrow> matcher list \<Rightarrow> mask \<Rightarrow> mask" where
  "mark_regexps s [] m = m"
| "mark_regexps s (re # res) m =
     (if snd m = length s then m else mark_regexps s res (mark_matches (re s) m))"

definition redact_mask :: "engine \<Rightarrow> string \<Rightarrow> mask" where
  "redact_mask e s =
     mark_regexps s (en_regexps e)
       (mark_exacts s (en_exact e) (replicate (length s) False, 0))"

text \<open>The output loop: each maximal run of masked bytes becomes one marker.\<close>

function emit_regions :: "(char \<times> bool) list \<Rightarrow> string \<times> int" where
  "emit_regions [] = ([], 0)"
| "emit_regions ((c, False) # ps) = (let (rest, n) = emit_regions ps in (c # rest, n))"
| "emit_regions ((c, True) # ps) =
     (let (rest, n) = emit_regions (dropWhile snd ps) in (replacement @ rest, n + 1))"
  by pat_completeness auto
termination
  by (relation "measure length") (auto simp: le_imp_less_Suc length_dropWhile_le)

definition redact_apply :: "engine option \<Rightarrow> string \<Rightarrow> string \<times> int" where
  "redact_apply eng s = (case eng of
     None \<Rightarrow> (s, 0)
   | Some e \<Rightarrow>
       if s = [] then (s, 0)
       else (let (out, regions) = emit_regions (zip s (fst (redact_mask e s)))
             in if regions = 0 then (sanitize_control s, 0) else (sanitize_control out, regions)))"

definition apply_and_truncate :: "engine option \<Rightarrow> string \<Rightarrow> int \<Rightarrow> string \<times> int \<times> bool" where
  "apply_and_truncate e s mx =
     (let s = sanitize_control s;
          (s, redactions) = (case e of None \<Rightarrow> (s, 0) | Some _ \<Rightarrow> redact_apply e s);
          (s, truncated) = truncate_runes s mx
      in (s, redactions, truncated))"

text \<open>\<open>New\<close>: the rules of the configuration in order, then the built-in patterns.\<close>

datatype redaction_error = BadRule nat | BadBuiltin

fun compile_rules ::
  "(string \<Rightarrow> matcher option) \<Rightarrow> nat \<Rightarrow> rule list \<Rightarrow> engine \<Rightarrow> redaction_error + engine" where
  "compile_rules compile i [] e = Inr e"
| "compile_rules compile i (r # rs) e =
     (let e = (if ru_exact r \<noteq> [] then e\<lparr>en_exact := en_exact e @ [ru_exact r]\<rparr> else e)
      in if ru_regex r \<noteq> [] then
           (case compile (ru_regex r) of
              None \<Rightarrow> Inl (BadRule i)
            | Some re \<Rightarrow> compile_rules compile (i + 1) rs (e\<lparr>en_regexps := en_regexps e @ [re]\<rparr>))
         else compile_rules compile (i + 1) rs e)"

fun compile_builtins ::
  "(string \<Rightarrow> matcher option) \<Rightarrow> string list \<Rightarrow> engine \<Rightarrow> redaction_error + engine" where
  "compile_builtins compile [] e = Inr e"
| "compile_builtins compile (p # ps) e =
     (case compile p of
        None \<Rightarrow> Inl BadBuiltin
      | Some re \<Rightarrow> compile_builtins compile ps (e\<lparr>en_regexps := en_regexps e @ [re]\<rparr>))"

definition new_engine :: "(string \<Rightarrow> matcher option) \<Rightarrow> rule list \<Rightarrow> redaction_error + engine" where
  "new_engine compile rules =
     (case compile_rules compile 0 rules \<lparr>en_exact = [], en_regexps = []\<rparr> of
        Inl err \<Rightarrow> Inl err
      | Inr e \<Rightarrow> compile_builtins compile builtin_patterns e)"

definition untrusted_data_marker :: string where
  "untrusted_data_marker = ''[UNTRUSTED_LOG_DATA]''"

definition instruction_markers :: "string list" where
  "instruction_markers =
     [''ignore previous instructions'', ''ignore all instructions'', ''you are now'',
      ''execute the following'', ''run this command'']"

definition neutralize_instruction_like :: "unicode \<Rightarrow> string \<Rightarrow> string" where
  "neutralize_instruction_like uc s =
     (if s = [] then s
      else if has_prefix s untrusted_data_marker then s
      else if list_ex (str_contains (to_lower uc s)) instruction_markers
      then untrusted_data_marker @ '' '' @ s else s)"

section \<open>The mask\<close>

text \<open>
  \<open>mask_for n m\<close>: the mask has \<open>n\<close> bytes and its counter is the number of set bytes, which is what
  lets \<open>Apply\<close> stop early when everything is covered.
\<close>

definition mask_for :: "nat \<Rightarrow> mask \<Rightarrow> bool" where
  "mask_for n m \<longleftrightarrow> length (fst m) = n \<and> snd m = card {i. i < n \<and> fst m ! i}"

definition covers :: "mask \<Rightarrow> mask \<Rightarrow> bool" where
  "covers m m' \<longleftrightarrow> (\<forall>i < length (fst m). fst m ! i \<longrightarrow> fst m' ! i)"

lemma covers_refl [simp]: "covers m m"
  by (simp add: covers_def)

lemma covers_trans:
  "mask_for n m \<Longrightarrow> mask_for n m' \<Longrightarrow> covers m m' \<Longrightarrow> covers m' m'' \<Longrightarrow> covers m m''"
  by (simp add: covers_def mask_for_def)

lemma covers_nth: "mask_for n m \<Longrightarrow> covers m m' \<Longrightarrow> j < n \<Longrightarrow> fst m ! j \<Longrightarrow> fst m' ! j"
  by (simp add: covers_def mask_for_def)

lemma mask_for_init: "mask_for n (replicate n False, 0)"
  by (simp add: mask_for_def)

lemma mark_byte_ok:
  assumes "mask_for n m" and "i < n"
  shows "mask_for n (mark_byte m i)"
    and "\<And>j. j < n \<Longrightarrow> fst (mark_byte m i) ! j = (fst m ! j \<or> j = i)"
proof -
  show nth: "fst (mark_byte m i) ! j = (fst m ! j \<or> j = i)" if "j < n" for j
    using that assms by (auto simp: mark_byte_def mask_for_def nth_list_update)
  have len: "length (fst (mark_byte m i)) = n"
    using assms by (simp add: mark_byte_def mask_for_def)
  have set_eq: "{j. j < n \<and> fst (mark_byte m i) ! j} = insert i {j. j < n \<and> fst m ! j}"
    using nth assms(2) by auto
  have cnt: "snd (mark_byte m i) = card (insert i {j. j < n \<and> fst m ! j})"
    using assms by (auto simp: mark_byte_def mask_for_def insert_absorb)
  then show "mask_for n (mark_byte m i)"
    by (simp add: mask_for_def len set_eq)
qed

lemma mark_bytes_ok:
  assumes "mask_for n m" and "\<forall>i \<in> set is. i < n"
  shows "mask_for n (foldl mark_byte m is)
    \<and> (\<forall>j < n. fst (foldl mark_byte m is) ! j = (fst m ! j \<or> j \<in> set is))"
  using assms
proof (induction "is" arbitrary: m)
  case (Cons i "is")
  then have "mask_for n (mark_byte m i)"
    and "\<And>j. j < n \<Longrightarrow> fst (mark_byte m i) ! j = (fst m ! j \<or> j = i)"
    using mark_byte_ok [of n m i] by simp_all
  with Cons.IH [of "mark_byte m i"] Cons.prems(2) show ?case by auto
qed simp

lemma mark_ok:
  assumes "mask_for n m"
  shows "mask_for n (mark a b m)"
    and "j < n \<Longrightarrow> fst (mark a b m) ! j = (fst m ! j \<or> (a \<le> j \<and> j < b \<and> b \<le> n))"
  using assms mark_bytes_ok [OF assms, of "[a ..< b]"]
  by (auto simp: mark_def mask_for_def)

lemma mark_covers: "mask_for n m \<Longrightarrow> covers m (mark a b m)"
  using mark_ok(2) [of n m] by (simp add: covers_def mask_for_def)

lemma full_mask:
  assumes "mask_for n m" and "snd m = n" and "i < n"
  shows "fst m ! i"
proof -
  have "card {i. i < n \<and> fst m ! i} = card {i. i < n}"
    using assms by (simp add: mask_for_def)
  then have "{i. i < n \<and> fst m ! i} = {i. i < n}"
    by (intro card_subset_eq) auto
  with assms(3) show ?thesis by blast
qed

section \<open>Exact rules and regular expressions\<close>

definition occurs_at :: "string \<Rightarrow> string \<Rightarrow> nat \<Rightarrow> bool" where
  "occurs_at s sub i \<longleftrightarrow> i + length sub \<le> length s \<and> take (length sub) (drop i s) = sub"

lemma mark_exact_ok:
  assumes "mask_for (length s) m" and "ex \<noteq> []"
  shows "mask_for (length s) (mark_exact s ex offset m) \<and> covers m (mark_exact s ex offset m)
    \<and> (\<forall>i \<ge> offset. occurs_at s ex i \<longrightarrow> fst (mark_exact s ex offset m) ! i)"
  using assms
proof (induction s ex offset m rule: mark_exact.induct)
  case (1 s ex offset m)
  note step = mark_exact.simps [of s ex offset m]
  show ?case
  proof (cases "offset + length ex \<le> length s")
    case False
    with 1(2,3) show ?thesis by (auto simp: step occurs_at_def)
  next
    case le: True
    show ?thesis
    proof (cases "str_index (drop offset s) ex")
      case None
      have "\<not> occurs_at s ex i" if "offset \<le> i" for i
      proof
        assume "occurs_at s ex i"
        with that have "take (length ex) (drop (i - offset) (drop offset s)) = ex"
          by (simp add: occurs_at_def)
        with str_index_first [OF 1(3) this] None show False by auto
      qed
      with None le 1(2,3) show ?thesis by (simp add: step)
    next
      case (Some index)
      define start where "start = offset + index"
      define fin where "fin = start + length ex"
      let ?m = "mark start fin m"
      have fin: "fin \<le> length s"
        using str_index_Some [OF Some] le unfolding fin_def start_def length_drop by linarith
      have eq: "mark_exact s ex offset m = mark_exact s ex fin ?m"
        using Some le 1(3) by (simp add: step start_def fin_def Let_def)
      have ok: "mask_for (length s) ?m" and cov: "covers m ?m"
        using 1(2) by (simp_all add: mark_ok(1) mark_covers)
      have ih: "mask_for (length s) (mark_exact s ex fin ?m)" "covers ?m (mark_exact s ex fin ?m)"
        "\<forall>i \<ge> fin. occurs_at s ex i \<longrightarrow> fst (mark_exact s ex fin ?m) ! i"
        using 1(1) [OF _ Some start_def fin_def ok 1(3)] le 1(3) by blast+
      have "fst (mark_exact s ex fin ?m) ! i" if i: "offset \<le> i" "occurs_at s ex i" for i
      proof (cases "fin \<le> i")
        case False
        have "take (length ex) (drop (i - offset) (drop offset s)) = ex"
          using i by (simp add: occurs_at_def)
        with str_index_first [OF 1(3) this] Some have "start \<le> i"
          using i(1) by (auto simp: start_def)
        moreover have "i < length s"
          using i(2) 1(3) by (cases ex) (auto simp: occurs_at_def)
        ultimately have "fst ?m ! i" using mark_ok(2) [OF 1(2), of i start fin] False fin by simp
        then show ?thesis
          using ih(2) \<open>i < length s\<close> ok by (simp add: covers_def mask_for_def)
      qed (use i ih(3) in blast)
      moreover have "covers m (mark_exact s ex fin ?m)"
        by (rule covers_trans [OF 1(2) ok cov ih(2)])
      ultimately show ?thesis using ih(1) by (simp add: eq)
    qed
  qed
qed


lemma mark_exacts_ok:
  assumes "mask_for (length s) m"
  shows "mask_for (length s) (mark_exacts s exs m) \<and> covers m (mark_exacts s exs m)
    \<and> (\<forall>ex \<in> set exs. \<forall>i. ex \<noteq> [] \<and> occurs_at s ex i \<longrightarrow> fst (mark_exacts s exs m) ! i)"
  using assms
proof (induction s exs m rule: mark_exacts.induct)
  case (2 s ex exs m)
  have inside: "i < length s" if "e \<noteq> []" "occurs_at s e i" for e i
    using that by (cases e) (auto simp: occurs_at_def)
  show ?case
  proof (cases "ex = []")
    case True
    with 2(1) 2(3) show ?thesis by simp
  next
    case ne: False
    let ?m = "mark_exact s ex 0 m"
    have m: "mask_for (length s) ?m" "covers m ?m" "\<forall>i. occurs_at s ex i \<longrightarrow> fst ?m ! i"
      using mark_exact_ok [OF 2(3) ne, of 0] by simp_all
    show ?thesis
    proof (cases "snd ?m = length s")
      case True
      then have "mark_exacts s (ex # exs) m = ?m" using ne by simp
      with m full_mask [OF m(1) True] inside show ?thesis by metis
    next
      case False
      note ih = 2(2) [OF ne refl False m(1)]
      have eq: "mark_exacts s (ex # exs) m = mark_exacts s exs ?m" using ne False by simp
      have hit: "fst (mark_exacts s exs ?m) ! i" if "occurs_at s ex i" for i
        using covers_nth [OF m(1) _ inside [OF ne that]] ih m(3) that by blast
      have cov: "covers m (mark_exacts s exs ?m)"
        using covers_trans [OF 2(3) m(1,2)] ih by blast
      show ?thesis unfolding eq using hit cov ih by simp
    qed
  qed
qed simp

lemma mark_matches_ok:
  assumes "mask_for n m"
  shows "mask_for n (mark_matches locs m) \<and> covers m (mark_matches locs m)
    \<and> (\<forall>(a, b) \<in> set locs. b \<le> n \<longrightarrow> (\<forall>j. a \<le> j \<and> j < b \<longrightarrow> fst (mark_matches locs m) ! j))"
  using assms
proof (induction locs arbitrary: m)
  case (Cons loc locs)
  obtain a b where loc: "loc = (a, b)" by fastforce
  let ?m = "if b > a then mark a b m else m"
  have m: "mask_for n ?m" "covers m ?m"
    using Cons.prems by (simp_all add: mark_ok(1) mark_covers)
  have hit: "fst ?m ! j" if "b \<le> n" "a \<le> j" "j < b" for j
    using that mark_ok(2) [OF Cons.prems, of j a b] by simp
  note ih = Cons.IH [OF m(1)]
  have step: "mark_matches (loc # locs) m = mark_matches locs ?m"
    by (simp add: mark_matches_def loc)
  have "fst (mark_matches locs ?m) ! j" if "b \<le> n" "a \<le> j" "j < b" for j
    by (rule covers_nth [OF m(1) ih [THEN conjunct2, THEN conjunct1] _ hit [OF that]])
      (use that in linarith)
  moreover have "covers m (mark_matches locs ?m)"
    using covers_trans [OF Cons.prems m] ih by blast
  ultimately show ?case unfolding step using ih by (simp add: loc)
qed (simp add: mark_matches_def)

lemma mark_regexps_ok:
  assumes "mask_for (length s) m"
  shows "mask_for (length s) (mark_regexps s res m) \<and> covers m (mark_regexps s res m)
    \<and> (\<forall>re \<in> set res. \<forall>(a, b) \<in> set (re s). b \<le> length s \<longrightarrow>
         (\<forall>j. a \<le> j \<and> j < b \<longrightarrow> fst (mark_regexps s res m) ! j))"
  using assms
proof (induction s res m rule: mark_regexps.induct)
  case (2 s re res m)
  show ?case
  proof (cases "snd m = length s")
    case True
    then show ?thesis using 2(2) full_mask [OF 2(2) True] by auto
  next
    case False
    let ?m = "mark_matches (re s) m"
    note mm = mark_matches_ok [OF 2(2), of "re s"]
    note ih = 2(1) [OF False mm [THEN conjunct1]]
    have eq: "mark_regexps s (re # res) m = mark_regexps s res ?m" using False by simp
    have hit: "fst (mark_regexps s res ?m) ! j"
      if "(a, b) \<in> set (re s)" "b \<le> length s" "a \<le> j" "j < b" for a b j
    proof (rule covers_nth [OF mm [THEN conjunct1] ih [THEN conjunct2, THEN conjunct1]])
      show "j < length s" using that by linarith
      show "fst ?m ! j" using that mm by blast
    qed
    have "covers m (mark_regexps s res ?m)"
      using covers_trans [OF 2(2) mm [THEN conjunct1]] mm ih by blast
    then show ?thesis unfolding eq using hit ih by fastforce
  qed
qed simp

text \<open>The mask \<open>Apply\<close> computes covers every secret of either kind.\<close>

lemma redact_mask_ok:
  "mask_for (length s) (redact_mask e s)"
  "\<lbrakk>ex \<in> set (en_exact e); ex \<noteq> []; occurs_at s ex i\<rbrakk> \<Longrightarrow> fst (redact_mask e s) ! i"
  "\<lbrakk>re \<in> set (en_regexps e); (a, b) \<in> set (re s); b \<le> length s; a \<le> j; j < b\<rbrakk>
     \<Longrightarrow> fst (redact_mask e s) ! j"
proof -
  let ?m = "mark_exacts s (en_exact e) (replicate (length s) False, 0)"
  note ex = mark_exacts_ok [OF mask_for_init, of s "en_exact e"]
  note re = mark_regexps_ok [OF ex [THEN conjunct1], of "en_regexps e"]
  show "mask_for (length s) (redact_mask e s)" using re by (simp add: redact_mask_def)
  show "\<lbrakk>re \<in> set (en_regexps e); (a, b) \<in> set (re s); b \<le> length s; a \<le> j; j < b\<rbrakk>
     \<Longrightarrow> fst (redact_mask e s) ! j"
    using re by (fastforce simp: redact_mask_def)
  assume a: "ex \<in> set (en_exact e)" "ex \<noteq> []" "occurs_at s ex i"
  then have "fst ?m ! i" using ex by blast
  moreover have "i < length s"
    using a(2,3) by (cases ex) (auto simp: occurs_at_def)
  ultimately show "fst (redact_mask e s) ! i"
    using covers_nth [OF ex [THEN conjunct1]] re unfolding redact_mask_def by blast
qed

section \<open>The output\<close>

text \<open>
  \<open>weave segs gaps\<close> puts the gaps between the segments. The output loop keeps the segments, which
  are runs of clear bytes, and writes one marker per gap.
\<close>

fun weave :: "string list \<Rightarrow> string list \<Rightarrow> string" where
  "weave [g] [] = g"
| "weave (g # gs) (h # hs) = g @ h @ weave gs hs"
| "weave _ _ = []"

fun gap_mask :: "string list \<Rightarrow> string list \<Rightarrow> bool list" where
  "gap_mask [g] [] = replicate (length g) False"
| "gap_mask (g # gs) (h # hs) =
     replicate (length g) False @ replicate (length h) True @ gap_mask gs hs"
| "gap_mask _ _ = []"

definition clear_run :: "(char \<times> bool) list \<Rightarrow> string \<Rightarrow> bool" where
  "clear_run ps g \<longleftrightarrow> (\<exists>pre post. ps = pre @ map (\<lambda>c. (c, False)) g @ post)"

lemma clear_run_append: "clear_run qs g \<Longrightarrow> clear_run (ps @ qs) g"
  unfolding clear_run_def by (metis append.assoc)

lemma str_join_Cons: "gs \<noteq> [] \<Longrightarrow> str_join sep (g # gs) = g @ sep @ str_join sep gs"
  by (cases gs) auto

lemma emit_regions_weave:
  "emit_regions ps = (out, n) \<Longrightarrow>
   \<exists>g gs gaps. out = str_join replacement (g # gs) \<and> length gs = length gaps
     \<and> n = int (length gaps) \<and> map fst ps = weave (g # gs) gaps
     \<and> map snd ps = gap_mask (g # gs) gaps
     \<and> (\<forall>h \<in> set gaps. h \<noteq> []) \<and> (\<forall>g \<in> set gs. clear_run ps g)
     \<and> (\<exists>post. ps = map (\<lambda>c. (c, False)) g @ post)"
proof (induction ps arbitrary: out n rule: emit_regions.induct)
  case 1
  then show ?case by (intro exI [of _ "[]"]) simp
next
  case (2 c ps)
  obtain out' n' where r: "emit_regions ps = (out', n')" by fastforce
  obtain g gs gaps post where ih: "out' = str_join replacement (g # gs)" "length gs = length gaps"
    "n' = int (length gaps)" "map fst ps = weave (g # gs) gaps"
    "map snd ps = gap_mask (g # gs) gaps" "\<forall>h \<in> set gaps. h \<noteq> []"
    "\<forall>g \<in> set gs. clear_run ps g" "ps = map (\<lambda>c. (c, False)) g @ post"
    using 2(1) [OF r] by blast
  have "clear_run ((c, False) # ps) g'" if "g' \<in> set gs" for g'
    using clear_run_append [of ps g' "[(c, False)]"] that ih(7) by simp
  moreover have "str_join replacement ((c # g) # gs) = c # str_join replacement (g # gs)"
    by (cases gs) auto
  moreover have "weave ((c # g) # gs) gaps = c # weave (g # gs) gaps"
    using ih(2) by (cases gs; cases gaps) auto
  moreover have "gap_mask ((c # g) # gs) gaps = False # gap_mask (g # gs) gaps"
    using ih(2) by (cases gs; cases gaps) auto
  moreover have "(c, False) # ps = map (\<lambda>c. (c, False)) (c # g) @ post" using ih(8) by simp
  ultimately show ?case
    using 2(2) r ih by (intro exI [of _ "c # g"] exI [of _ gs] exI [of _ gaps]) auto
next
  case (3 c ps)
  let ?rest = "dropWhile snd ps" and ?gap = "c # map fst (takeWhile snd ps)"
  obtain out' n' where r: "emit_regions ?rest = (out', n')" by fastforce
  obtain g gs gaps post where ih: "out' = str_join replacement (g # gs)" "length gs = length gaps"
    "n' = int (length gaps)" "map fst ?rest = weave (g # gs) gaps"
    "map snd ?rest = gap_mask (g # gs) gaps" "\<forall>h \<in> set gaps. h \<noteq> []"
    "\<forall>g \<in> set gs. clear_run ?rest g" "?rest = map (\<lambda>c. (c, False)) g @ post"
    using 3(1) [OF r] by blast
  have split: "(c, True) # ps = ((c, True) # takeWhile snd ps) @ ?rest" by simp
  have "map fst ((c, True) # ps) = ?gap @ map fst ?rest"
    by (subst split) (simp only: map_append list.map fst_conv append_Cons)
  then have "map fst ((c, True) # ps) = weave ([] # g # gs) (?gap # gaps)"
    using ih(4) by simp
  moreover have "map snd ((c, True) # ps) = gap_mask ([] # g # gs) (?gap # gaps)"
  proof -
    have "map snd (takeWhile snd ps) = replicate (length (takeWhile snd ps)) True"
      by (induction ps) auto
    then have "map snd ((c, True) # ps)
        = replicate (length ?gap) True @ map snd ?rest"
      by (subst split) (simp only: map_append list.map snd_conv append_Cons length_map list.size
          replicate_Suc add_0_right add_Suc_right)
    then show ?thesis using ih(5) by simp
  qed
  moreover have "clear_run ((c, True) # ps) g'" if "g' \<in> set (g # gs)" for g'
  proof -
    have "clear_run ?rest g'"
      using that ih(7,8) by (auto simp: clear_run_def intro: exI [of _ "[]"])
    then show ?thesis using clear_run_append split by metis
  qed
  ultimately show ?case
    using 3(2) r ih
    by (intro exI [of _ "[]"] exI [of _ "g # gs"] exI [of _ "?gap # gaps"]) (auto simp: str_join_Cons)
qed

lemma clear_run_unmasked:
  assumes "clear_run (zip s mk) g" and "length mk = length s" and "str_contains g sub" and "sub \<noteq> []"
  shows "\<exists>i. occurs_at s sub i \<and> \<not> mk ! i"
proof -
  from assms(3) obtain a b where g: "g = a @ sub @ b" by (auto simp: str_contains_iff)
  from assms(1) obtain pre post where z: "zip s mk = pre @ map (\<lambda>c. (c, False)) g @ post"
    by (auto simp: clear_run_def)
  let ?i = "length pre + length a"
  have s: "s = map fst pre @ g @ map fst post"
  proof -
    have "s = map fst (zip s mk)" using assms(2) by simp
    then show ?thesis by (simp add: z o_def)
  qed
  have "occurs_at s sub ?i" by (simp add: occurs_at_def s g)
  moreover have "zip s mk ! ?i = (sub ! 0, False)"
    using assms(4) by (cases sub) (auto simp: z g nth_append)
  moreover have "?i < length (zip s mk)" using assms(4) by (simp add: z g)
  ultimately show ?thesis using assms(2) by auto
qed


definition printable_rune :: "rune \<Rightarrow> bool" where
  "printable_rune r \<longleftrightarrow> (if is_control r then r = 9 \<or> r = 10 \<or> r = 13 else True)"

lemma clean_rune_ok: "is_scalar r \<Longrightarrow> is_scalar (clean_rune r) \<and> printable_rune (clean_rune r)"
  by (auto simp: clean_rune_def is_scalar_def printable_rune_def is_control_def)

lemma clean_rune_id: "printable_rune r \<Longrightarrow> clean_rune r = r"
  by (auto simp: clean_rune_def printable_rune_def)

lemma valid_chunks_runes:
  assumes "\<forall>p \<in> set ps. bad_chunk p \<or> (is_scalar (fst p) \<and> snd p = encode_rune (fst p))"
  shows "\<exists>rs. list_all is_scalar rs \<and> valid_chunks '' '' bad ps = encode_runes rs"
  using assms
proof (induction ps arbitrary: bad)
  case (Cons p ps)
  have space: "'' '' = encode_rune 32" by code_simp
  obtain rs where rs: "list_all is_scalar rs" "valid_chunks '' '' (bad_chunk p) ps = encode_runes rs"
    using Cons by (metis list.set_intros(2))
  show ?case
  proof (cases "bad_chunk p")
    case True
    show ?thesis
    proof (cases bad)
      case False
      then have "valid_chunks '' '' bad (p # ps) = encode_runes (32 # rs)"
        using True rs(2) space by simp
      moreover have "list_all is_scalar (32 # rs)" using rs(1) by (simp add: is_scalar_def)
      ultimately show ?thesis by blast
    qed (use True rs in auto)
  next
    case False
    then have "valid_chunks '' '' bad (p # ps) = encode_runes (fst p # rs)"
      using Cons.prems rs(2) by auto
    moreover have "list_all is_scalar (fst p # rs)" using Cons.prems False rs(1) by auto
    ultimately show ?thesis by blast
  qed
qed (auto intro: exI [of _ "[]"])

lemma to_valid_utf8_runes:
  "\<exists>rs. list_all is_scalar rs \<and> to_valid_utf8 s '' '' = encode_runes rs"
  unfolding to_valid_utf8_def by (rule valid_chunks_runes) (use good_chunk in blast)

lemma to_valid_utf8_id: "valid_utf8 s \<Longrightarrow> to_valid_utf8 s repl = s"
proof -
  assume v: "valid_utf8 s"
  have "valid_chunks repl bad ps = concat (map snd ps)" if "list_all (\<lambda>p. \<not> bad_chunk p) ps" for bad ps
    using that by (induction ps arbitrary: bad) auto
  with v show ?thesis by (simp add: to_valid_utf8_def valid_utf8_def concat_chunks)
qed

lemma sanitize_runes:
  "\<exists>rs. list_all is_scalar rs \<and> list_all printable_rune rs \<and> sanitize_control s = encode_runes rs"
proof (cases "s = []")
  case False
  obtain rs where "list_all is_scalar rs" "to_valid_utf8 s '' '' = encode_runes rs"
    using to_valid_utf8_runes by blast
  then show ?thesis
    using False clean_rune_ok
    by (intro exI [of _ "map clean_rune rs"])
      (auto simp: sanitize_control_def runes_encode_runes list_all_iff)
qed (auto simp: sanitize_control_def intro: exI [of _ "[]"])

lemma sanitize_printable_id:
  assumes "valid_utf8 s" and "list_all printable_rune (runes s)"
  shows "sanitize_control s = s"
proof -
  have "map clean_rune (runes s) = runes s"
    using assms(2) clean_rune_id by (simp add: list_all_iff map_idI)
  with assms(1) show ?thesis
    by (simp add: sanitize_control_def to_valid_utf8_id encode_runes_of_valid)
qed

lemma sanitize_ok:
  "valid_utf8 (sanitize_control s) \<and> list_all printable_rune (runes (sanitize_control s))"
  using sanitize_runes [of s] by (auto simp: valid_encode_runes runes_encode_runes)


lemma dots: "''...'' = encode_runes [46, 46, 46]"
  by code_simp

lemma truncate_runes_ok:
  assumes "truncate_runes s mx = (out, tr)" and "0 < mx"
  shows "int (rune_count out) \<le> mx"
    and "\<lbrakk>valid_utf8 s; list_all printable_rune (runes s)\<rbrakk>
           \<Longrightarrow> valid_utf8 out \<and> list_all printable_rune (runes out)"
    and "tr \<longleftrightarrow> mx < int (rune_count s)"
proof -
  have sc: "list_all is_scalar (take n (runes s))" for n
    using runes_scalar [of s] by (auto simp: list_all_iff dest: in_set_takeD)
  have sc3: "list_all is_scalar (take n (runes s) @ [46, 46, 46])" for n
    using sc [of n] by (simp add: is_scalar_def)
  have pr: "list_all printable_rune (take n (runes s))" if "list_all printable_rune (runes s)" for n
    using that by (auto simp: list_all_iff dest: in_set_takeD)
  have pr3: "list_all printable_rune (take n (runes s) @ [46, 46, 46])"
    if "list_all printable_rune (runes s)" for n
    using pr [OF that, of n] by (simp add: printable_rune_def is_control_def)
  consider "int (rune_count s) \<le> mx" "out = s" "\<not> tr"
    | "mx < int (rune_count s)" "mx < 3" "out = encode_runes (take (nat mx) (runes s))" tr
    | "mx < int (rune_count s)" "3 \<le> mx"
      "out = encode_runes (take (nat (mx - 3)) (runes s) @ [46, 46, 46])" tr
    using assms unfolding truncate_runes_def dots by (auto split: if_splits)
  note cs = this
  from cs show "int (rune_count out) \<le> mx"
  proof cases
    case 2
    then show ?thesis using sc [of "nat mx"] assms(2) by simp
  next
    case 3
    then show ?thesis using sc3 [of "nat (mx - 3)"] by (simp del: encode_runes_simps)
  qed simp
  from cs show "valid_utf8 out \<and> list_all printable_rune (runes out)"
    if "valid_utf8 s" "list_all printable_rune (runes s)"
  proof cases
    case 2
    then show ?thesis using sc pr [OF that(2)] by (simp add: valid_encode_runes runes_encode_runes)
  next
    case 3
    then show ?thesis unfolding 3(3)
      using valid_encode_runes [OF sc3] runes_encode_runes [OF sc3] pr3 [OF that(2)] by metis
  qed (use that in simp)
  from cs show "tr \<longleftrightarrow> mx < int (rune_count s)" by cases auto
qed

text \<open>The byte limit: the cut is the last chunk boundary that is at most the target.\<close>

lemma last_start_le_boundary:
  assumes "fin \<le> i" and "int fin \<le> target"
  shows "\<exists>k \<le> length cs. last_start_le target fin (rune_starts i cs)
           = (if k = 0 then fin else i + length (concat (map snd (take (k - 1) cs))))
         \<and> int (last_start_le target fin (rune_starts i cs)) \<le> target"
  using assms
proof (induction cs arbitrary: fin i)
  case (Cons p cs)
  show ?case
  proof (cases "int i > target")
    case True
    then show ?thesis using Cons.prems by (intro exI [of _ 0]) simp
  next
    case False
    obtain k where k: "k \<le> length cs"
      "last_start_le target i (rune_starts (i + length (snd p)) cs)
         = (if k = 0 then i else i + length (snd p) + length (concat (map snd (take (k - 1) cs))))"
      "int (last_start_le target i (rune_starts (i + length (snd p)) cs)) \<le> target"
      using Cons.IH [of i "i + length (snd p)"] False by auto
    show ?thesis
      by (rule exI [of _ "Suc k"]) (use k False in \<open>cases k; auto\<close>)
  qed
qed simp

lemma truncate_bytes_ok:
  assumes "0 < mx" and "truncate_bytes s mx = (out, tr)"
  shows "int (length out) \<le> mx
    \<and> (tr \<longleftrightarrow> mx < int (length s))
    \<and> (\<exists>k sfx. out = concat (map snd (take k (chunks s))) @ sfx \<and> sfx \<in> {[], ''...''})"
proof (cases "int (length s) \<le> mx")
  case True
  have "out = s" "\<not> tr" using True assms by (auto simp: truncate_bytes_def)
  moreover have "\<exists>k sfx. s = concat (map snd (take k (chunks s))) @ sfx \<and> sfx \<in> {[], ''...''}"
    by (rule exI [of _ "length (chunks s)"], rule exI [of _ "[]"]) (simp add: concat_chunks)
  ultimately show ?thesis using True by simp
next
  case False
  define target where "target = (if mx - 3 < 0 then mx else mx - 3)"
  define sfx where "sfx = (if mx - 3 < 0 then [] else ''...'')"
  let ?fin = "last_start_le target 0 (rune_starts 0 (chunks s))"
  have t0: "0 \<le> target" "target < int (length s)" "target + int (length sfx) \<le> mx"
    using assms(1) False by (auto simp: target_def sfx_def)
  have "truncate_bytes s mx = (take ?fin s @ sfx, True)"
    using assms(1) False t0(2)
    unfolding truncate_bytes_def target_def sfx_def by (cases "mx - 3 < 0") (simp_all add: Let_def)
  with assms(2) have out: "out = take ?fin s @ sfx" "tr" by simp_all
  obtain k where k: "?fin = (if k = 0 then 0 else length (concat (map snd (take (k - 1) (chunks s)))))"
    "int ?fin \<le> target"
    using last_start_le_boundary [of 0 0 target "chunks s"] t0(1)
    unfolding add_0 of_nat_0 by blast
  have "take (length (concat (map snd (take j cs)))) (concat (map snd cs))
          = concat (map snd (take j cs))" for j and cs :: "(rune \<times> string) list"
  proof -
    have "concat (map snd cs) = concat (map snd (take j cs)) @ concat (map snd (drop j cs))"
      by (simp flip: concat_append map_append)
    then show ?thesis by simp
  qed
  from this [of "k - 1" "chunks s"]
  have "take ?fin s = concat (map snd (take (if k = 0 then 0 else k - 1) (chunks s)))"
    using k(1) by (simp add: concat_chunks)
  moreover have "int (length out) \<le> mx" using k(2) t0(3) by (simp add: out(1))
  moreover have "sfx \<in> {[], ''...''}" by (simp add: sfx_def)
  ultimately show ?thesis using out False by (metis not_le)
qed


section \<open>Properties\<close>

lemma redact_apply_weave:
  "\<exists>g gs gaps. redact_apply (Some e) s
       = (sanitize_control (str_join replacement (g # gs)), int (length gaps))
     \<and> length gs = length gaps \<and> s = weave (g # gs) gaps
     \<and> fst (redact_mask e s) = gap_mask (g # gs) gaps \<and> (\<forall>h \<in> set gaps. h \<noteq> [])
     \<and> (\<forall>k \<in> set (g # gs). clear_run (zip s (fst (redact_mask e s))) k)"
proof -
  let ?ps = "zip s (fst (redact_mask e s))"
  have len: "length (fst (redact_mask e s)) = length s"
    using redact_mask_ok(1) [of s e] by (simp add: mask_for_def)
  obtain out n where r: "emit_regions ?ps = (out, n)" by fastforce
  obtain g gs gaps post where w: "out = str_join replacement (g # gs)" "length gs = length gaps"
    "n = int (length gaps)" "s = weave (g # gs) gaps"
    "fst (redact_mask e s) = gap_mask (g # gs) gaps" "\<forall>h \<in> set gaps. h \<noteq> []"
    "\<forall>g \<in> set gs. clear_run ?ps g" "?ps = map (\<lambda>c. (c, False)) g @ post"
    using emit_regions_weave [OF r] len by (metis map_fst_zip map_snd_zip)
  have "clear_run ?ps g" using w(8) by (auto simp: clear_run_def intro: exI [of _ "[]"])
  moreover have "redact_apply (Some e) s
       = (sanitize_control (str_join replacement (g # gs)), int (length gaps))"
  proof (cases "s = []")
    case True
    with r w(1,3) show ?thesis by (simp add: redact_apply_def sanitize_control_def)
  next
    case False
    show ?thesis
    proof (cases "n = 0")
      case True
      then have "gaps = []" "gs = []" using w(2,3) by simp_all
      then have "out = s" using w(1,4) by simp
      then show ?thesis using False True r w(1,3) by (simp add: redact_apply_def)
    qed (use False r w(1,3) in \<open>simp add: redact_apply_def\<close>)
  qed
  ultimately show ?thesis using w by (intro exI [of _ g] exI [of _ gs] exI [of _ gaps]) auto
qed

lemma redact_hides_exact:
  "\<exists>g gs gaps. redact_apply (Some e) s
       = (sanitize_control (str_join replacement (g # gs)), int (length gaps))
     \<and> length gs = length gaps \<and> s = weave (g # gs) gaps \<and> [] \<notin> set gaps
     \<and> (\<forall>k \<in> set (g # gs). \<forall>ex \<in> set (en_exact e). ex \<noteq> [] \<longrightarrow> \<not> str_contains k ex)"
proof -
  obtain g gs gaps where w: "redact_apply (Some e) s
       = (sanitize_control (str_join replacement (g # gs)), int (length gaps))"
     "length gs = length gaps" "s = weave (g # gs) gaps" "\<forall>h \<in> set gaps. h \<noteq> []"
     "\<forall>k \<in> set (g # gs). clear_run (zip s (fst (redact_mask e s))) k"
    using redact_apply_weave [of e s] by blast
  have "\<not> str_contains k ex" if "k \<in> set (g # gs)" "ex \<in> set (en_exact e)" "ex \<noteq> []" for k ex
  proof
    assume c: "str_contains k ex"
    have "length (fst (redact_mask e s)) = length s"
      using redact_mask_ok(1) [of s e] by (simp add: mask_for_def)
    from clear_run_unmasked [OF _ this c that(3)] w(5) that(1) obtain i
      where "occurs_at s ex i" "\<not> fst (redact_mask e s) ! i" by blast
    with redact_mask_ok(2) [OF that(2,3)] show False by blast
  qed
  with w(4) have "\<forall>k \<in> set (g # gs). \<forall>ex \<in> set (en_exact e). ex \<noteq> [] \<longrightarrow> \<not> str_contains k ex"
    and "[] \<notin> set gaps" by blast+
  with w(1-3) show ?thesis by blast
qed

text \<open>
  Property C1: \<open>Apply\<close> cuts the text into kept segments and non-empty gaps, returns the sanitized
  segments joined by the marker with the number of gaps, and no kept segment contains an exact
  secret of the engine.
\<close>
theorem apply_hides_exact_secrets:
  "\<exists>g gs gaps. redact_apply (Some e) s
       = (sanitize_control (str_join replacement (g # gs)), int (length gaps))
     \<and> length gs = length gaps \<and> s = weave (g # gs) gaps \<and> [] \<notin> set gaps
     \<and> (\<forall>k \<in> set (g # gs). \<forall>ex \<in> set (en_exact e). ex \<noteq> [] \<longrightarrow> \<not> str_contains k ex)"
  by (rule redact_hides_exact)

definition example_engine :: engine where
  "example_engine = \<lparr>en_exact = [''s3cr3t''], en_regexps = [\<lambda>s. [(0, 2)]]\<rparr>"

lemma apply_hides_exact_secrets_witness:
  "\<exists>g gs gaps. redact_apply (Some example_engine) ''a s3cr3t b''
       = (sanitize_control (str_join replacement (g # gs)), int (length gaps))
     \<and> length gs = length gaps \<and> ''a s3cr3t b'' = weave (g # gs) gaps
     \<and> \<not> str_contains g ''s3cr3t''"
proof -
  have k: "''s3cr3t'' \<in> set (en_exact example_engine)" by (simp add: example_engine_def)
  obtain g gs gaps where w: "redact_apply (Some example_engine) ''a s3cr3t b''
       = (sanitize_control (str_join replacement (g # gs)), int (length gaps))"
     "length gs = length gaps" "''a s3cr3t b'' = weave (g # gs) gaps"
     "\<forall>k \<in> set (g # gs). \<forall>ex \<in> set (en_exact example_engine). ex \<noteq> [] \<longrightarrow> \<not> str_contains k ex"
    using apply_hides_exact_secrets [of example_engine "''a s3cr3t b''"] by blast
  have "\<not> str_contains g ''s3cr3t''" using w(4) k by (metis list.set_intros(1) list.discI)
  with w(1-3) show ?thesis by blast
qed

text \<open>
  Property C12: every byte of a non-empty match of one of the engine's regular expressions on the
  original text lies in a gap, whatever the expressions are and also when \<open>Apply\<close> stops early.
\<close>
theorem apply_hides_regexp_matches:
  assumes "re \<in> set (en_regexps e)" and "(a, b) \<in> set (re s)" and "b \<le> length s"
    and "a \<le> j" and "j < b"
  shows "\<exists>g gs gaps. redact_apply (Some e) s
       = (sanitize_control (str_join replacement (g # gs)), int (length gaps))
     \<and> s = weave (g # gs) gaps \<and> length (gap_mask (g # gs) gaps) = length s
     \<and> gap_mask (g # gs) gaps ! j"
proof -
  obtain g gs gaps where w: "redact_apply (Some e) s
       = (sanitize_control (str_join replacement (g # gs)), int (length gaps))"
     "s = weave (g # gs) gaps" "fst (redact_mask e s) = gap_mask (g # gs) gaps"
    using redact_apply_weave [of e s] by blast
  then show ?thesis
    using redact_mask_ok(1) [of s e] redact_mask_ok(3) [OF assms] unfolding mask_for_def by metis
qed

lemma apply_hides_regexp_matches_witness:
  "\<exists>g gs gaps. redact_apply (Some example_engine) ''a s3cr3t b''
       = (sanitize_control (str_join replacement (g # gs)), int (length gaps))
     \<and> ''a s3cr3t b'' = weave (g # gs) gaps
     \<and> length (gap_mask (g # gs) gaps) = length ''a s3cr3t b'' \<and> gap_mask (g # gs) gaps ! 1"
  by (rule apply_hides_regexp_matches [of "\<lambda>s. [(0, 2)]" example_engine 0 2])
    (simp_all add: example_engine_def)

text \<open>
  The output of \<open>SanitizeControl\<close> is valid UTF-8 without control characters except
  tab, newline and carriage return, text that is already so is unchanged, and the operation is
  idempotent.
\<close>
lemma sanitize_control_safe:
  "valid_utf8 (sanitize_control s) \<and> list_all printable_rune (runes (sanitize_control s))
   \<and> sanitize_control (sanitize_control s) = sanitize_control s"
  using sanitize_ok sanitize_printable_id by blast

text \<open>
  Property C23: text that leaves \<open>ApplyAndTruncate\<close> has at most the allowed number of runes, is
  valid UTF-8 and has no control characters, with or without an engine.
\<close>
theorem apply_and_truncate_bounded:
  assumes "0 < mx" and "apply_and_truncate e s mx = (out, n, tr)"
  shows "int (rune_count out) \<le> mx \<and> valid_utf8 out \<and> list_all printable_rune (runes out) \<and> 0 \<le> n"
proof -
  obtain t where t: "valid_utf8 t" "list_all printable_rune (runes t)"
    "truncate_runes t mx = (out, tr)" "0 \<le> n"
  proof (cases e)
    case None
    then have "truncate_runes (sanitize_control s) mx = (out, tr)" "n = 0"
      using assms(2)
      by (cases "truncate_runes (sanitize_control s) mx"; simp add: apply_and_truncate_def)+
    then show ?thesis using sanitize_ok [of s] that by blast
  next
    case (Some eng)
    obtain u k where r: "redact_apply (Some eng) (sanitize_control s) = (sanitize_control u, int k)"
      using redact_apply_weave by blast
    then have "truncate_runes (sanitize_control u) mx = (out, tr)" "n = int k"
      using assms(2) Some
      by (cases "truncate_runes (sanitize_control u) mx"; simp add: apply_and_truncate_def)+
    then show ?thesis using sanitize_ok [of u] that of_nat_0_le_iff by blast
  qed
  then show ?thesis using truncate_runes_ok(1,2) [OF t(3) assms(1)] by blast
qed

lemma apply_and_truncate_bounded_witness:
  "\<exists>out n tr. apply_and_truncate (Some example_engine) ''a s3cr3t b'' 5 = (out, n, tr)
     \<and> int (rune_count out) \<le> 5 \<and> valid_utf8 out"
proof -
  obtain out n tr where e: "apply_and_truncate (Some example_engine) ''a s3cr3t b'' 5 = (out, n, tr)"
    by (metis prod_cases3)
  show ?thesis
    by (intro exI conjI) (rule e, use apply_and_truncate_bounded [OF _ e] in simp_all)
qed

text \<open>
  Property C19: \<open>TruncateBytes\<close> returns at most the allowed number of bytes, reports a cut exactly
  when the text was longer, and cuts only between characters: the kept part is a number of whole
  decoded characters of the text, followed by the ellipsis or nothing.
\<close>
lemma truncate_bytes_bounded:
  assumes "0 < mx"
  shows "\<exists>out tr. truncate_bytes s mx = (out, tr) \<and> int (length out) \<le> mx
    \<and> tr = (mx < int (length s))
    \<and> (\<exists>k sfx. out = concat (map snd (take k (chunks s))) @ sfx \<and> sfx \<in> {[], ''...''})"
proof -
  obtain out tr where e: "truncate_bytes s mx = (out, tr)" by fastforce
  show ?thesis by (intro exI) (rule conjI [OF e truncate_bytes_ok [OF assms e]])
qed

text \<open>
  Neutralizing text keeps it as a suffix, marks it exactly when a listed phrase occurs
  in its lower-cased form and it has no mark yet, and doing it twice adds one mark.
\<close>
lemma neutralize_marks_once:
  "neutralize_instruction_like uc s =
     (if list_ex (str_contains (to_lower uc s)) instruction_markers \<and> s \<noteq> []
         \<and> \<not> prefix untrusted_data_marker s
      then untrusted_data_marker @ '' '' @ s else s)
   \<and> neutralize_instruction_like uc (neutralize_instruction_like uc s)
      = neutralize_instruction_like uc s"
proof -
  have "prefix untrusted_data_marker (untrusted_data_marker @ t)" for t by simp
  moreover have "untrusted_data_marker @ t \<noteq> []" for t by (simp add: untrusted_data_marker_def)
  ultimately show ?thesis
    unfolding neutralize_instruction_like_def has_prefix_def
    by (cases "s = []"; cases "prefix untrusted_data_marker s";
        cases "list_ex (str_contains (to_lower uc s)) instruction_markers")
      (simp_all only: simp_thms if_True if_False)
qed

lemma compile_rules_exact:
  "compile_rules compile i rs e = Inr e' \<Longrightarrow>
     en_exact e' = en_exact e @ filter (\<lambda>x. x \<noteq> []) (map ru_exact rs)"
  by (induction compile i rs e rule: compile_rules.induct)
    (auto simp: Let_def split: if_splits option.splits)

lemma compile_builtins_all:
  "compile_builtins compile ps e = Inr e' \<Longrightarrow>
     en_exact e' = en_exact e \<and> (\<exists>res. map Some res = map compile ps \<and> en_regexps e' = en_regexps e @ res)"
proof (induction compile ps e rule: compile_builtins.induct)
  case (2 compile p ps e)
  then obtain re where re: "compile p = Some re" by (cases "compile p") auto
  with 2 obtain res where "map Some res = map compile ps" "en_exact e' = en_exact e"
    "en_regexps e' = en_regexps e @ [re] @ res" by auto
  with re show ?case by (intro conjI exI [of _ "re # res"]) simp_all
qed simp


text \<open>
  An engine that \<open>New\<close> returns has exactly the non-empty exact rules of the
  configuration, in order, and its expressions end with all compiled built-in patterns.
\<close>
lemma new_engine_keeps_builtins:
  assumes "new_engine compile rules = Inr e"
  shows "en_exact e = filter (\<lambda>x. x \<noteq> []) (map ru_exact rules)
    \<and> (\<exists>cs res. en_regexps e = cs @ res \<and> map Some res = map compile builtin_patterns)"
proof -
  obtain e0 where e0: "compile_rules compile 0 rules \<lparr>en_exact = [], en_regexps = []\<rparr> = Inr e0"
    "compile_builtins compile builtin_patterns e0 = Inr e"
    using assms by (auto simp: new_engine_def split: sum.splits)
  from compile_rules_exact [OF e0(1)] compile_builtins_all [OF e0(2)] show ?thesis by auto
qed

end
