(* ===== verification/Config.thy ===== *)
theory Config
  imports ConfigCheck Redaction
begin

text \<open>
  Validation of a configuration (\<open>internal/config/config.go\<close>): \<open>parseSource\<close>, \<open>parseService\<close>,
  \<open>checkSourceRef\<close> and \<open>Parse\<close>. Every error list is the one the code builds, in its order. Lemmas:
  a configuration that \<open>Parse\<close> returns satisfies \<open>config_ok\<close>, which the rest of the program
  relies on, and \<open>Parse\<close> fails only with at least one error.
\<close>

section \<open>Sources\<close>

definition max_sources :: nat where "max_sources = 64"
definition max_services :: nat where "max_services = 1000"
definition max_headers_per_source :: nat where "max_headers_per_source = 64"
definition max_redact_rules :: nat where "max_redact_rules = 128"
definition max_config_bytes :: nat where "max_config_bytes = 2 ^ 20"

definition source_kinds :: "string list" where
  "source_kinds = [''gatus'', ''docker'', ''loki'', ''healthchecks'', ''beszel'', ''ntfy'']"

definition check_base_url ::
  "(string \<Rightarrow> url option) \<Rightarrow> string \<Rightarrow> string \<Rightarrow> validation_errors" where
  "check_base_url url_parse p base =
     (if base = [] then [verr p ''required'']
      else if rune_count base > 4096 \<or> has_control base
      then [verr p ''must be a valid URL of at most 4096 characters'']
      else (let u = url_parse base;
                e1 = (case u of
                    None \<Rightarrow> [verr p ''must be absolute http(s) URL with host'']
                  | Some v \<Rightarrow>
                      if (ur_scheme v \<noteq> ''http'' \<and> ur_scheme v \<noteq> ''https'') \<or> ur_host v = []
                      then [verr p ''must be absolute http(s) URL with host'']
                      else if ur_user v
                      then [verr p ''userinfo is not allowed. Use token_env or token_file'']
                      else []);
                e2 = (case u of None \<Rightarrow> [] | Some v \<Rightarrow>
                    (if ur_raw_query v \<noteq> [] then [verr p
                       ''query strings are not allowed. Use headers or token_env/token_file''] else [])
                    @ (if ur_fragment v \<noteq> [] then [verr p ''fragments are not allowed''] else [])
                    @ (if invalid_locked_path (ur_path v) then [verr p
                       ''path contains a control character, backslash, or dot segment''] else []))
            in e1 @ e2))"

text \<open>The loop over the sorted header names with the set of lower-cased names seen.\<close>

fun check_headers ::
  "unicode \<Rightarrow> string \<Rightarrow> (string, string) gomap \<Rightarrow> string list \<Rightarrow> string list \<Rightarrow> validation_errors" where
  "check_headers uc p hs seen [] = []"
| "check_headers uc p hs seen (hk # hks) =
     (let hv = (case map_of hs hk of None \<Rightarrow> [] | Some v \<Rightarrow> v);
          canonical = to_lower uc (trim_space hk)
      in if canonical \<in> set seen
         then verr p ''duplicate header name (case-insensitive)'' # check_headers uc p hs seen hks
         else if \<not> header_name_re hk
         then verr p ''invalid header name'' # check_headers uc p hs (canonical # seen) hks
         else (let q = p @ ''.'' @ hk in
             (if is_sensitive_header_name uc hk then [verr q
                ''authentication headers must use token_env/token_file with token_header''] else [])
             @ (if is_reserved_header_name uc hk then [verr q ''reserved header name''] else [])
             @ (if length hv > 4096 \<or> has_control hv then [verr q ''invalid header value''] else [])
             @ (if looks_like_secret uc hv
                then [verr q ''value looks like a literal secret''] else [])
             @ check_headers uc p hs (canonical # seen) hks))"

definition default_auth_header :: "string \<Rightarrow> string" where
  "default_auth_header k = (if k = ''healthchecks'' then ''X-Api-Key'' else ''Authorization'')"

text \<open>The errors \<open>parseSource\<close> collects, in order, and its result.\<close>

definition source_errors :: "conf_env \<Rightarrow> string \<Rightarrow> file_source \<Rightarrow> validation_errors" where
  "source_errors env name fs =
     (let uc = ce_unicode env;
          p = ''sources.'' @ name;
          k = to_lower uc (trim_space (fs_kind fs));
          token_file = trim_space (fs_token_file fs);
          base = trim_space (fs_base_url fs);
          names = sort (map fst (fs_headers fs));
          th = trim_space (fs_token_header fs);
          has_token = (fs_token_env fs \<noteq> [] \<or> token_file \<noteq> []);
          e1 = (if k \<in> set source_kinds then []
                else [verr (p @ ''.kind'')
                       ''must be gatus, docker, loki, healthchecks, beszel, or ntfy'']);
          e2 = check_base_url (ce_url env) (p @ ''.base_url'') base;
          e3 = (if fs_token_env fs \<noteq> [] \<and> fs_token_file fs \<noteq> []
                then [verr p ''set only one of token_env or token_file''] else []);
          e4 = (if fs_token_env fs \<noteq> [] \<and> \<not> env_name_re (fs_token_env fs)
                then [verr (p @ ''.token_env'') ''invalid environment variable name''] else []);
          e5 = (if fs_token_file fs \<noteq> [] \<and> token_file = []
                then [verr (p @ ''.token_file'') ''must not be blank''] else []);
          e6 = (if rune_count token_file > 4096 \<or> has_control token_file
                then [verr (p @ ''.token_file'') ''must be a valid path of at most 4096 characters'']
                else []);
          e7 = (if k = ''healthchecks'' \<and> fs_token_env fs = [] \<and> token_file = []
                then [verr p ''healthchecks requires token_env or token_file''] else []);
          e8 = (if length names > max_headers_per_source
                then [verr (p @ ''.headers'') ''must contain at most 64 headers''] else []);
          e9 = check_headers uc (p @ ''.headers'') (fs_headers fs) []
                 (take max_headers_per_source names);
          e10 = (if fs_token_header fs \<noteq> [] \<and> th = []
                 then [verr (p @ ''.token_header'') ''must not be blank''] else []);
          e11 = (if th \<noteq> [] then
                   (if \<not> header_name_re th
                    then [verr (p @ ''.token_header'') ''invalid header name''] else [])
                   @ (if is_reserved_header_name uc th
                      then [verr (p @ ''.token_header'') ''reserved header name''] else [])
                   @ (if \<not> has_token
                      then [verr (p @ ''.token_header'') ''requires token_env or token_file'']
                      else [])
                 else []);
          e12 = (if has_token then
                   (let auth = (if th = [] then default_auth_header k else th)
                    in case find (\<lambda>hk. equal_fold uc (trim_space hk) auth) (map fst (fs_headers fs)) of
                         None \<Rightarrow> []
                       | Some collision \<Rightarrow> if collision \<noteq> [] then [verr (p @ ''.headers.'' @ collision)
                           (''conflicts with the effective authentication header '' @ auth)] else [])
                 else [])
      in e1 @ e2 @ e3 @ e4 @ e5 @ e6 @ e7 @ e8 @ e9 @ e10 @ e11 @ e12)"

definition parse_source ::
  "conf_env \<Rightarrow> string \<Rightarrow> file_source \<Rightarrow> validation_errors + source" where
  "parse_source env name fs =
     (let errs = source_errors env name fs
      in if errs \<noteq> [] then Inl errs
         else Inr \<lparr>src_kind = to_lower (ce_unicode env) (trim_space (fs_kind fs)),
                   src_base_url = trim_right_char (CHR ''/'') (trim_space (fs_base_url fs)),
                   src_token_env = fs_token_env fs,
                   src_token_file = trim_space (fs_token_file fs),
                   src_token_header = trim_space (fs_token_header fs),
                   src_headers = fs_headers fs\<rparr>)"

section \<open>Services\<close>

definition check_source_ref ::
  "string \<Rightarrow> string \<Rightarrow> string \<Rightarrow> (string, source) gomap \<Rightarrow> validation_errors" where
  "check_source_ref path name want sources =
     (if \<not> source_name_re name then [verr (path @ ''.source'') ''invalid source reference'']
      else (case map_of sources name of
              None \<Rightarrow> [verr (path @ ''.source'') (''unknown source '' @ name)]
            | Some s \<Rightarrow>
                if src_kind s \<noteq> want
                then [verr (path @ ''.source'')
                       (''source '' @ name @ '' is kind '' @ src_kind s @ '', want '' @ want)]
                else []))"

text \<open>The check of an optional text (at most 256 characters, no control characters), and of a
  required one.\<close>

definition check_text :: "string \<Rightarrow> string \<Rightarrow> validation_errors" where
  "check_text p v =
     (if rune_count v > 256 then [verr p ''must be <= 256 characters'']
      else if has_control v then [verr p ''must not contain control characters''] else [])"

definition check_binding :: "string \<Rightarrow> string \<Rightarrow> validation_errors" where
  "check_binding p v = (if v = [] then [verr p ''required''] else check_text p v)"

definition check_tag :: "string \<Rightarrow> string \<Rightarrow> validation_errors" where
  "check_tag p tag =
     (if tag = [] then [verr p ''must not be empty'']
      else if rune_count tag > 128 then [verr p ''must be <= 128 characters'']
      else if has_control tag then [verr p ''must not contain control characters''] else [])"

fun check_tags :: "string \<Rightarrow> nat \<Rightarrow> string list \<Rightarrow> string list \<times> validation_errors" where
  "check_tags p i [] = ([], [])"
| "check_tags p i (t # ts) =
     (let tag = trim_space t;
          e = check_tag (p @ ''.check_tags['' @ show_nat i @ '']'') tag;
          (tags, es) = check_tags p (i + 1) ts
      in (if e = [] then (tag # tags, es) else (tags, e @ es)))"

definition parse_gatus where
  "parse_gatus p sources r =
     (let key = trim_space (gr_endpoint_key r)
      in (\<lparr>gr_source = gr_source r, gr_endpoint_key = key\<rparr>,
          check_source_ref p (gr_source r) ''gatus'' sources
          @ check_binding (p @ ''.endpoint_key'') key))"

definition parse_docker where
  "parse_docker p sources r =
     (let cname = trim_space (dr_container_name r)
      in (\<lparr>dr_source = dr_source r, dr_container_name = cname\<rparr>,
          check_source_ref p (dr_source r) ''docker'' sources
          @ check_binding (p @ ''.container_name'') cname))"

definition parse_loki where
  "parse_loki p sources r =
     (let sel = trim_space (lr_selector r)
      in (\<lparr>lr_source = lr_source r, lr_selector = sel\<rparr>,
          check_source_ref p (lr_source r) ''loki'' sources
          @ (if sel = [] then [verr (p @ ''.selector'') ''required'']
             else if \<not> valid_loki_selector sel then [verr (p @ ''.selector'')
               (''must be a simple label selector {k='' @ [dquote] @ ''v'' @ [dquote]
                  @ ''} with optional |= filters'')]
             else [])))"

definition parse_healthchecks ::
  "unicode \<Rightarrow> string \<Rightarrow> (string, source) gomap \<Rightarrow> healthchecks_ref \<Rightarrow> healthchecks_ref \<times> validation_errors"
where
  "parse_healthchecks uc p sources r =
     (let cname = trim_space (hr_check_name r);
          uuid = trim_space (hr_check_uuid r);
          ukey = trim_space (hr_check_unique_key r);
          (tags, et) = check_tags p 0 (hr_check_tags r);
          sf = to_lower uc (trim_space (hr_status_filter r));
          hm0 = to_lower uc (trim_space (hr_history_mode r));
          hm = (if hm0 = [] then ''snapshot'' else hm0);
          e0 = check_source_ref p (hr_source r) ''healthchecks'' sources;
          e1 = (if length (hr_check_tags r) > 32
                then [verr (p @ ''.check_tags'') ''must contain at most 32 tags''] else []);
          e2 = (if cname = [] \<and> uuid = [] \<and> ukey = [] \<and> tags = []
                then [verr p ''check_name, check_uuid, check_unique_key, or check_tags required'']
                else []);
          e3 = (if uuid \<noteq> [] \<and> ukey \<noteq> []
                then [verr p ''set only one of check_uuid or check_unique_key''] else []);
          e4 = check_text (p @ ''.check_name'') cname;
          e5 = check_text (p @ ''.check_uuid'') uuid;
          e6 = (if ukey \<noteq> [] \<and> \<not> healthcheck_key_re ukey
                then [verr (p @ ''.check_unique_key'') (''must match '' @ healthcheck_key_pattern)]
                else []);
          e7 = (if sf \<noteq> [] \<and> sf \<notin> set [''up'', ''down'', ''grace'', ''paused'', ''new'']
                then [verr (p @ ''.status_filter'') ''must be up, down, grace, paused, or new'']
                else []);
          e8 = (if hm \<notin> set [''snapshot'', ''transitions'']
                then [verr (p @ ''.history_mode'') ''must be snapshot or transitions''] else [])
      in (\<lparr>hr_source = hr_source r, hr_check_name = cname, hr_check_tags = tags,
           hr_check_uuid = uuid, hr_check_unique_key = ukey, hr_status_filter = sf,
           hr_history_mode = hm\<rparr>,
          e0 @ e1 @ et @ e2 @ e3 @ e4 @ e5 @ e6 @ e7 @ e8))"

definition parse_beszel where
  "parse_beszel p sources r =
     (let sname = trim_space (br_system_name r)
      in (\<lparr>br_source = br_source r, br_system_name = sname\<rparr>,
          check_source_ref p (br_source r) ''beszel'' sources
          @ check_binding (p @ ''.system_name'') sname))"

definition parse_ntfy where
  "parse_ntfy p sources r =
     (let topic = trim_space (nr_topic r)
      in (\<lparr>nr_source = nr_source r, nr_topic = topic\<rparr>,
          check_source_ref p (nr_source r) ''ntfy'' sources
          @ (if topic_re topic then [] else [verr (p @ ''.topic'') (''must match '' @ topic_pattern)])))"

definition opt_ref :: "('a \<Rightarrow> 'b \<times> validation_errors) \<Rightarrow> 'a option \<Rightarrow> 'b option \<times> validation_errors" where
  "opt_ref f r = (case r of None \<Rightarrow> (None, []) | Some x \<Rightarrow> (let (y, e) = f x in (Some y, e)))"

definition parse_service ::
  "unicode \<Rightarrow> string \<Rightarrow> file_service \<Rightarrow> (string, source) gomap \<Rightarrow> validation_errors + service" where
  "parse_service uc path f sources =
     (let ident = trim_space (fsv_id f);
          e1 = (if service_id_re ident then []
                else [verr (path @ ''.id'') (''must match '' @ service_id_pattern)]);
          dn0 = trim_space (fsv_display_name f);
          dn = (if dn0 = [] then ident else dn0);
          e2 = check_text (path @ ''.display_name'') dn;
          s = fsv_sources f;
          q = path @ ''.sources'';
          (g, eg) = opt_ref (parse_gatus (q @ ''.gatus'') sources) (ss_gatus s);
          (d, ed) = opt_ref (parse_docker (q @ ''.docker'') sources) (ss_docker s);
          (l, el) = opt_ref (parse_loki (q @ ''.loki'') sources) (ss_loki s);
          (h, eh) = opt_ref (parse_healthchecks uc (q @ ''.healthchecks'') sources)
                      (ss_healthchecks s);
          (b, eb) = opt_ref (parse_beszel (q @ ''.beszel'') sources) (ss_beszel s);
          (n, en) = opt_ref (parse_ntfy (q @ ''.ntfy'') sources) (ss_ntfy s);
          errs = e1 @ e2 @ eg @ ed @ el @ eh @ eb @ en
      in if errs \<noteq> [] then Inl errs
         else Inr \<lparr>sv_id = ident, sv_display_name = dn,
                   sv_sources = \<lparr>ss_gatus = g, ss_docker = d, ss_loki = l, ss_healthchecks = h,
                                 ss_beszel = b, ss_ntfy = n\<rparr>\<rparr>)"

section \<open>Parse\<close>

definition disallowed_syntax :: "string list" where
  "disallowed_syntax = [''{{'', ''}}'', ''!!python'', ''!!js'', ''${'', CHR 0x60 # ''$('',
     ''include:'', ''!include'']"

text \<open>\<open>sanitizeYAMLErr\<close>: the replacement of tagged scalars is a regular expression of Go
  (\<open>ce_yaml_error\<close>); redaction, control characters and the size limit are the program's own.\<close>

definition sanitize_yaml_err ::
  "(string \<Rightarrow> matcher option) \<Rightarrow> conf_env \<Rightarrow> string \<Rightarrow> string" where
  "sanitize_yaml_err compile env msg =
     (let msg = ce_yaml_error env msg;
          msg = (case new_engine compile [] of Inl e \<Rightarrow> msg | Inr eng \<Rightarrow> fst (redact_apply (Some eng) msg));
          msg = sanitize_control msg
      in fst (truncate_runes msg 200))"

fun parse_sources ::
  "conf_env \<Rightarrow> (string, file_source) gomap \<Rightarrow> string list \<Rightarrow> (string, source) gomap
     \<Rightarrow> (string, source) gomap \<times> validation_errors" where
  "parse_sources env fss [] m = (m, [])"
| "parse_sources env fss (name # names) m =
     (if \<not> source_name_re name
      then (let (m, es) = parse_sources env fss names m
            in (m, verr (''sources.'' @ name) ''invalid source name'' # es))
      else (case map_of fss name of
              None \<Rightarrow> parse_sources env fss names m
            | Some fs \<Rightarrow>
               (case parse_source env name fs of
                  Inl e \<Rightarrow> (let (m, es) = parse_sources env fss names m in (m, e @ es))
                | Inr src \<Rightarrow> parse_sources env fss names (AList.update name src m))))"

fun parse_services ::
  "unicode \<Rightarrow> (string, source) gomap \<Rightarrow> nat \<Rightarrow> string list \<Rightarrow> file_service list
     \<Rightarrow> service list \<times> validation_errors" where
  "parse_services uc sources i seen [] = ([], [])"
| "parse_services uc sources i seen (f # fs) =
     (let p = ''services['' @ show_nat i @ '']''
      in (case parse_service uc p f sources of
            Inl e \<Rightarrow> (let (svs, es) = parse_services uc sources (i + 1) seen fs in (svs, e @ es))
          | Inr svc \<Rightarrow>
              if sv_id svc \<in> set seen
              then (let (svs, es) = parse_services uc sources (i + 1) seen fs
                    in (svs, verr (p @ ''.id'') ''duplicate service id'' # es))
              else (let (svs, es) = parse_services uc sources (i + 1) (sv_id svc # seen) fs
                    in (svc # svs, es))))"

fun parse_redact ::
  "(string \<Rightarrow> bool) \<Rightarrow> nat \<Rightarrow> file_redact list \<Rightarrow> redact_rule list \<times> validation_errors" where
  "parse_redact regexp_ok i [] = ([], [])"
| "parse_redact regexp_ok i (f # fs) =
     (let p = ''redact['' @ show_nat i @ '']'';
          (rs, es) = parse_redact regexp_ok (i + 1) fs
      in if fr_exact f = [] \<and> fr_regex f = []
         then (rs, verr p ''exact or regex required'' # es)
         else if rune_count (fr_exact f) > 4096
         then (rs, verr (p @ ''.exact'') ''must be <= 4096 characters'' # es)
         else if rune_count (fr_regex f) > 4096
         then (rs, verr (p @ ''.regex'') ''must be <= 4096 characters'' # es)
         else if fr_regex f \<noteq> [] \<and> \<not> regexp_ok (fr_regex f)
         then (rs, verr (p @ ''.regex'') ''invalid regex'' # es)
         else (\<lparr>rr_exact = fr_exact f, rr_regex = fr_regex f\<rparr> # rs, es))"

text \<open>The part of \<open>Parse\<close> after decoding.\<close>

definition validate_config :: "conf_env \<Rightarrow> file_config \<Rightarrow> validation_errors + config" where
  "validate_config env fc =
     (let uc = ce_unicode env;
          e1 = (if fc_version fc = 1 then [] else [verr ''version'' ''must be 1'']);
          (lim, e2) = parse_limits (ce_duration env) (fc_limits fc);
          (aud, e3) = parse_audit (fc_audit fc);
          (tls, e4) = parse_tls (fc_tls fc);
          names = sort (map fst (fc_sources fc));
          e5 = (if fc_sources fc = [] then [verr ''sources'' ''at least one source is required'']
                else []);
          e6 = (if length names > max_sources
                then [verr ''sources'' ''must contain at most 64 sources''] else []);
          (srcs, e7) = parse_sources env (fc_sources fc) (take max_sources names) [];
          e8 = (if length (fc_services fc) > max_services
                then [verr ''services'' ''must contain at most 1000 services''] else []);
          (svs, e9) = parse_services uc srcs 0 [] (take max_services (fc_services fc));
          e10 = (if length (fc_redact fc) > max_redact_rules
                 then [verr ''redact'' ''must contain at most 128 rules''] else []);
          (red, e11) = parse_redact (ce_regexp env) 0 (take max_redact_rules (fc_redact fc));
          errs = e1 @ e2 @ e3 @ e4 @ e5 @ e6 @ e7 @ e8 @ e9 @ e10 @ e11
      in if errs \<noteq> [] then Inl errs
         else Inr \<lparr>cf_version = fc_version fc, cf_limits = lim, cf_audit = aud, cf_tls = tls,
                   cf_sources = srcs, cf_services = svs, cf_redact = red\<rparr>)"

definition parse_config ::
  "(string \<Rightarrow> matcher option) \<Rightarrow> conf_env \<Rightarrow> string \<Rightarrow> validation_errors + config" where
  "parse_config compile env raw =
     (if raw = [] then Inl [verr ''version'' ''empty configuration'']
      else if length raw > max_config_bytes
      then Inl [verr ''.'' (''configuration exceeds '' @ show_nat max_config_bytes @ '' bytes'')]
      else (case find (str_contains raw) disallowed_syntax of
         Some bad \<Rightarrow> Inl [verr ''.'' (''disallowed template or include syntax: '' @ bad)]
       | None \<Rightarrow>
          (case ce_yaml env raw of
             (Inl err, _) \<Rightarrow> Inl [verr ''.'' (''yaml parse error: '' @ sanitize_yaml_err compile env err)]
           | (Inr fc, TrailingDocument) \<Rightarrow>
               Inl [verr ''.'' ''multiple YAML documents are not allowed'']
           | (Inr fc, TrailingError err) \<Rightarrow>
               Inl [verr ''.'' (''yaml parse error: '' @ sanitize_yaml_err compile env err)]
           | (Inr fc, TrailingEOF) \<Rightarrow> validate_config env fc)))"

section \<open>What a validated configuration satisfies\<close>

definition source_ok :: "source \<Rightarrow> bool" where
  "source_ok s \<longleftrightarrow> src_kind s \<in> set source_kinds
     \<and> (src_base_url s \<noteq> [] \<longrightarrow> last (src_base_url s) \<noteq> CHR ''/'')
     \<and> \<not> (src_token_env s \<noteq> [] \<and> src_token_file s \<noteq> [])
     \<and> (src_kind s = ''healthchecks'' \<longrightarrow> src_token_env s \<noteq> [] \<or> src_token_file s \<noteq> [])
     \<and> length (src_headers s) \<le> max_headers_per_source"

definition ref_ok :: "(string, source) gomap \<Rightarrow> string \<Rightarrow> string \<Rightarrow> bool" where
  "ref_ok sources name want \<longleftrightarrow> (\<exists>s. map_of sources name = Some s \<and> src_kind s = want)"

definition text_ok :: "nat \<Rightarrow> string \<Rightarrow> bool" where
  "text_ok n s \<longleftrightarrow> rune_count s \<le> n \<and> \<not> has_control s"

definition service_ok :: "(string, source) gomap \<Rightarrow> service \<Rightarrow> bool" where
  "service_ok sources v \<longleftrightarrow>
     service_id_re (sv_id v) \<and> text_ok 256 (sv_display_name v) \<and> sv_display_name v \<noteq> []
     \<and> pred_option (\<lambda>r. ref_ok sources (gr_source r) ''gatus''
          \<and> gr_endpoint_key r \<noteq> [] \<and> text_ok 256 (gr_endpoint_key r)) (ss_gatus (sv_sources v))
     \<and> pred_option (\<lambda>r. ref_ok sources (dr_source r) ''docker''
          \<and> dr_container_name r \<noteq> [] \<and> text_ok 256 (dr_container_name r)) (ss_docker (sv_sources v))
     \<and> pred_option (\<lambda>r. ref_ok sources (lr_source r) ''loki''
          \<and> valid_loki_selector (lr_selector r)) (ss_loki (sv_sources v))
     \<and> pred_option (\<lambda>r. ref_ok sources (hr_source r) ''healthchecks''
          \<and> (hr_check_name r \<noteq> [] \<or> hr_check_uuid r \<noteq> [] \<or> hr_check_unique_key r \<noteq> []
             \<or> hr_check_tags r \<noteq> [])
          \<and> \<not> (hr_check_uuid r \<noteq> [] \<and> hr_check_unique_key r \<noteq> [])
          \<and> length (hr_check_tags r) \<le> 32 \<and> list_all (text_ok 128) (hr_check_tags r)
          \<and> hr_history_mode r \<in> set [''snapshot'', ''transitions'']
          \<and> hr_status_filter r \<in> set [[], ''up'', ''down'', ''grace'', ''paused'', ''new''])
          (ss_healthchecks (sv_sources v))
     \<and> pred_option (\<lambda>r. ref_ok sources (br_source r) ''beszel''
          \<and> br_system_name r \<noteq> [] \<and> text_ok 256 (br_system_name r)) (ss_beszel (sv_sources v))
     \<and> pred_option (\<lambda>r. ref_ok sources (nr_source r) ''ntfy'' \<and> topic_re (nr_topic r))
          (ss_ntfy (sv_sources v))"

definition config_ok :: "config \<Rightarrow> bool" where
  "config_ok c \<longleftrightarrow>
     cf_version c = 1 \<and> limits_ok (cf_limits c) \<and> audit_ok (cf_audit c)
     \<and> gm_ok (cf_sources c) \<and> length (cf_sources c) \<le> max_sources
     \<and> (\<forall>(name, s) \<in> set (cf_sources c). source_name_re name \<and> source_ok s)
     \<and> length (cf_services c) \<le> max_services \<and> distinct (map sv_id (cf_services c))
     \<and> (\<forall>v \<in> set (cf_services c). service_ok (cf_sources c) v)
     \<and> length (cf_redact c) \<le> max_redact_rules
     \<and> (\<forall>r \<in> set (cf_redact c). rr_exact r \<noteq> [] \<or> rr_regex r \<noteq> [])"

lemma source_errors_Nil:
  assumes "source_errors env name fs = []"
  shows "to_lower (ce_unicode env) (trim_space (fs_kind fs)) \<in> set source_kinds"
    and "\<not> (fs_token_env fs \<noteq> [] \<and> fs_token_file fs \<noteq> [])"
    and "\<not> (to_lower (ce_unicode env) (trim_space (fs_kind fs)) = ''healthchecks''
        \<and> fs_token_env fs = [] \<and> trim_space (fs_token_file fs) = [])"
    and "length (fs_headers fs) \<le> max_headers_per_source"
  using assms unfolding source_errors_def Let_def append_is_Nil_conv length_map length_sort
  by (metis list.discI not_le)+

lemma parse_source_ok:
  assumes "parse_source env name fs = Inr s"
  shows "source_ok s" and "src_headers s = fs_headers fs"
proof -
  have e: "source_errors env name fs = []"
    and s: "s = \<lparr>src_kind = to_lower (ce_unicode env) (trim_space (fs_kind fs)),
                   src_base_url = trim_right_char (CHR ''/'') (trim_space (fs_base_url fs)),
                   src_token_env = fs_token_env fs,
                   src_token_file = trim_space (fs_token_file fs),
                   src_token_header = trim_space (fs_token_header fs),
                   src_headers = fs_headers fs\<rparr>"
    using assms by (simp_all add: parse_source_def Let_def split: if_split_asm)
  have "trim_space (fs_token_file fs) \<noteq> [] \<Longrightarrow> fs_token_file fs \<noteq> []"
    by (auto simp: trim_space_def)
  then show "source_ok s"
    using source_errors_Nil [OF e] trim_right_char_last by (auto simp: source_ok_def s)
  show "src_headers s = fs_headers fs" by (simp add: s)
qed

lemma check_source_ref_ok: "check_source_ref p name want sources = [] \<Longrightarrow> ref_ok sources name want"
  by (auto simp: check_source_ref_def ref_ok_def split: if_splits option.splits)

lemma check_text_ok: "check_text p v = [] \<Longrightarrow> text_ok 256 v"
  by (simp add: check_text_def text_ok_def split: if_splits)

lemma check_binding_ok: "check_binding p v = [] \<Longrightarrow> v \<noteq> [] \<and> text_ok 256 v"
  by (auto simp: check_binding_def check_text_ok split: if_splits)

lemma check_tags_ok:
  "check_tags p i ts = (tags, es) \<Longrightarrow>
     list_all (text_ok 128) tags \<and> length tags \<le> length ts"
proof (induction p i ts arbitrary: tags es rule: check_tags.induct)
  case (2 p i t ts)
  obtain tags' es' where r: "check_tags p (i + 1) ts = (tags', es')" by fastforce
  let ?e = "check_tag (p @ ''.check_tags['' @ show_nat i @ '']'') (trim_space t)"
  have "?e = [] \<Longrightarrow> text_ok 128 (trim_space t)"
    by (simp add: check_tag_def text_ok_def split: if_splits)
  then show ?case using 2(2) 2(1) [OF refl refl r] r by (auto simp: Let_def split: if_splits)
qed simp

lemma opt_ref_ok:
  "opt_ref f r = (y, []) \<Longrightarrow> (\<And>x z. f x = (z, []) \<Longrightarrow> P z) \<Longrightarrow> pred_option P y"
  by (auto simp: opt_ref_def split: option.splits prod.splits)

lemma parse_gatus_ok: "parse_gatus p sources r = (z, []) \<Longrightarrow>
    ref_ok sources (gr_source z) ''gatus'' \<and> gr_endpoint_key z \<noteq> [] \<and> text_ok 256 (gr_endpoint_key z)"
  by (auto simp: parse_gatus_def Let_def check_source_ref_ok dest: check_binding_ok)

lemma parse_docker_ok: "parse_docker p sources r = (z, []) \<Longrightarrow>
    ref_ok sources (dr_source z) ''docker'' \<and> dr_container_name z \<noteq> []
    \<and> text_ok 256 (dr_container_name z)"
  by (auto simp: parse_docker_def Let_def check_source_ref_ok dest: check_binding_ok)

lemma parse_loki_ok: "parse_loki p sources r = (z, []) \<Longrightarrow>
    ref_ok sources (lr_source z) ''loki'' \<and> valid_loki_selector (lr_selector z)"
  by (auto simp: parse_loki_def Let_def check_source_ref_ok split: if_splits)

lemma parse_beszel_ok: "parse_beszel p sources r = (z, []) \<Longrightarrow>
    ref_ok sources (br_source z) ''beszel'' \<and> br_system_name z \<noteq> [] \<and> text_ok 256 (br_system_name z)"
  by (auto simp: parse_beszel_def Let_def check_source_ref_ok dest: check_binding_ok)

lemma parse_ntfy_ok: "parse_ntfy p sources r = (z, []) \<Longrightarrow>
    ref_ok sources (nr_source z) ''ntfy'' \<and> topic_re (nr_topic z)"
  by (auto simp: parse_ntfy_def Let_def check_source_ref_ok split: if_splits)

lemma parse_healthchecks_ok:
  assumes "parse_healthchecks uc p sources r = (z, [])"
  shows "ref_ok sources (hr_source z) ''healthchecks''
    \<and> (hr_check_name z \<noteq> [] \<or> hr_check_uuid z \<noteq> [] \<or> hr_check_unique_key z \<noteq> []
       \<or> hr_check_tags z \<noteq> [])
    \<and> \<not> (hr_check_uuid z \<noteq> [] \<and> hr_check_unique_key z \<noteq> [])
    \<and> length (hr_check_tags z) \<le> 32 \<and> list_all (text_ok 128) (hr_check_tags z)
    \<and> hr_history_mode z \<in> set [''snapshot'', ''transitions'']
    \<and> hr_status_filter z \<in> set [[], ''up'', ''down'', ''grace'', ''paused'', ''new'']"
proof -
  obtain tags et where t: "check_tags p 0 (hr_check_tags r) = (tags, et)" by fastforce
  define sf where "sf = to_lower uc (trim_space (hr_status_filter r))"
  define hm0 where "hm0 = to_lower uc (trim_space (hr_history_mode r))"
  note parsed = assms [unfolded parse_healthchecks_def Let_def t prod.case, folded sf_def hm0_def,
      unfolded prod.inject append_is_Nil_conv]
  have z: "hr_source z = hr_source r" "hr_check_name z = trim_space (hr_check_name r)"
    "hr_check_tags z = tags" "hr_check_uuid z = trim_space (hr_check_uuid r)"
    "hr_check_unique_key z = trim_space (hr_check_unique_key r)" "hr_status_filter z = sf"
    "hr_history_mode z = (if hm0 = [] then ''snapshot'' else hm0)"
    by (simp_all only: parsed [THEN conjunct1, symmetric] healthchecks_ref.select_convs)
  have ref: "ref_ok sources (hr_source r) ''healthchecks''"
    using parsed check_source_ref_ok by blast
  have len: "length (hr_check_tags r) \<le> 32" using parsed by (auto split: if_splits)
  have some: "\<not> (trim_space (hr_check_name r) = [] \<and> trim_space (hr_check_uuid r) = []
      \<and> trim_space (hr_check_unique_key r) = [] \<and> tags = [])"
    and one: "\<not> (trim_space (hr_check_uuid r) \<noteq> [] \<and> trim_space (hr_check_unique_key r) \<noteq> [])"
    and sf: "\<not> (sf \<noteq> [] \<and> sf \<notin> set [''up'', ''down'', ''grace'', ''paused'', ''new''])"
    and hm: "\<not> (if hm0 = [] then ''snapshot'' else hm0) \<notin> set [''snapshot'', ''transitions'']"
    using parsed by (metis list.discI)+
  show ?thesis
    unfolding z using ref len some one sf hm check_tags_ok [OF t] by auto
qed

lemma parse_service_ok:
  assumes "parse_service uc p f sources = Inr v"
  shows "service_ok sources v"
proof -
  define s where "s = fsv_sources f"
  define q where "q = p @ ''.sources''"
  define dn where "dn = (if trim_space (fsv_display_name f) = [] then trim_space (fsv_id f)
    else trim_space (fsv_display_name f))"
  obtain g eg where g: "opt_ref (parse_gatus (q @ ''.gatus'') sources) (ss_gatus s) = (g, eg)"
    by fastforce
  obtain d ed where d: "opt_ref (parse_docker (q @ ''.docker'') sources) (ss_docker s) = (d, ed)"
    by fastforce
  obtain l el where l: "opt_ref (parse_loki (q @ ''.loki'') sources) (ss_loki s) = (l, el)"
    by fastforce
  obtain h eh where h: "opt_ref (parse_healthchecks uc (q @ ''.healthchecks'') sources)
    (ss_healthchecks s) = (h, eh)" by fastforce
  obtain b eb where b: "opt_ref (parse_beszel (q @ ''.beszel'') sources) (ss_beszel s) = (b, eb)"
    by fastforce
  obtain n en where n: "opt_ref (parse_ntfy (q @ ''.ntfy'') sources) (ss_ntfy s) = (n, en)"
    by fastforce
  note parsed = assms [unfolded parse_service_def Let_def, folded s_def q_def dn_def,
      unfolded g d l h b n prod.case]
  have e: "eg = []" "ed = []" "el = []" "eh = []" "eb = []" "en = []"
    and ident: "service_id_re (trim_space (fsv_id f))" and dn: "check_text (p @ ''.display_name'') dn = []"
    and v: "v = \<lparr>sv_id = trim_space (fsv_id f), sv_display_name = dn,
       sv_sources = \<lparr>ss_gatus = g, ss_docker = d, ss_loki = l, ss_healthchecks = h,
         ss_beszel = b, ss_ntfy = n\<rparr>\<rparr>"
    using parsed by (simp_all split: if_split_asm)
  have ne: "dn \<noteq> []" using ident by (auto simp: dn_def)
  show ?thesis
    unfolding service_ok_def v service.select_convs service_sources.select_convs
    by (intro conjI; (rule ident check_text_ok [OF dn] ne
        | (rule opt_ref_ok [OF g [unfolded e]], erule parse_gatus_ok)
        | (rule opt_ref_ok [OF d [unfolded e]], erule parse_docker_ok)
        | (rule opt_ref_ok [OF l [unfolded e]], erule parse_loki_ok)
        | (rule opt_ref_ok [OF h [unfolded e]], erule parse_healthchecks_ok)
        | (rule opt_ref_ok [OF b [unfolded e]], erule parse_beszel_ok)
        | (rule opt_ref_ok [OF n [unfolded e]], erule parse_ntfy_ok)))
qed

lemma parse_sources_ok:
  assumes "gm_ok m" and "\<forall>(n, s) \<in> set m. source_name_re n \<and> source_ok s"
    and "parse_sources env fss names m = (m', es)"
  shows "gm_ok m' \<and> (\<forall>(n, s) \<in> set m'. source_name_re n \<and> source_ok s)
    \<and> length m' \<le> length m + length names"
  using assms
proof (induction env fss names m arbitrary: m' es rule: parse_sources.induct)
  case (2 env fss name names m)
  show ?case
  proof (cases "source_name_re name")
    case False
    obtain m1 es1 where r: "parse_sources env fss names m = (m1, es1)" by fastforce
    with 2(7) False have "m' = m1" by simp
    then show ?thesis using 2(1) [OF False 2(5,6) r] by auto
  next
    case True
    show ?thesis
    proof (cases "map_of fss name")
      case None
      then show ?thesis using 2(2) [of m' es] 2(5-) True by auto
    next
      case (Some fs)
      show ?thesis
      proof (cases "parse_source env name fs")
        case (Inl e)
        obtain m1 es1 where r: "parse_sources env fss names m = (m1, es1)" by fastforce
        with 2(7) True Some Inl have "m' = m1" by simp
        then show ?thesis using 2(3) [OF _ Some Inl 2(5,6) r] True by auto
      next
        case (Inr src)
        have all: "\<forall>(n, s) \<in> set (AList.update name src m). source_name_re n \<and> source_ok s"
          using 2(6) True parse_source_ok(1) [OF Inr] by (auto dest!: set_update_cases)
        have r: "parse_sources env fss names (AList.update name src m) = (m', es)"
          using 2(7) True Some Inr by simp
        have ok: "gm_ok (AList.update name src m)" using 2(5) by simp
        have "\<not> \<not> source_name_re name" using True by simp
        from 2(4) [OF this Some Inr ok all r] length_update_le [of name src m]
        show ?thesis by simp
      qed
    qed
  qed
qed auto

lemma parse_services_ok:
  assumes "parse_services uc sources i seen fs = (svs, es)"
  shows "(\<forall>v \<in> set svs. service_ok sources v) \<and> distinct (map sv_id svs)
    \<and> (\<forall>v \<in> set svs. sv_id v \<notin> set seen) \<and> length svs \<le> length fs"
  using assms
proof (induction uc sources i seen fs arbitrary: svs es rule: parse_services.induct)
  case (2 uc sources i seen f fs)
  let ?p = "''services['' @ show_nat i @ '']''"
  show ?case
  proof (cases "parse_service uc ?p f sources")
    case (Inl e)
    obtain svs' es' where r: "parse_services uc sources (i + 1) seen fs = (svs', es')" by fastforce
    with 2(1) [OF refl Inl r] 2(4) Inl show ?thesis by auto
  next
    case (Inr svc)
    show ?thesis
    proof (cases "sv_id svc \<in> set seen")
      case True
      obtain svs' es' where r: "parse_services uc sources (i + 1) seen fs = (svs', es')" by fastforce
      with 2(2) [OF refl Inr True r] 2(4) Inr True show ?thesis by auto
    next
      case False
      obtain svs' es' where r: "parse_services uc sources (i + 1) (sv_id svc # seen) fs = (svs', es')"
        by fastforce
      note ih = 2(3) [OF refl Inr False r]
      from ih have "sv_id svc \<notin> sv_id ` set svs'" by auto
      moreover have "svs = svc # svs'" using r 2(4) Inr False by simp
      ultimately show ?thesis using ih False parse_service_ok [OF Inr] by auto
    qed
  qed
qed simp

lemma parse_redact_ok:
  "parse_redact ok i fs = (rs, es) \<Longrightarrow>
     (\<forall>r \<in> set rs. rr_exact r \<noteq> [] \<or> rr_regex r \<noteq> []) \<and> length rs \<le> length fs"
proof (induction ok i fs arbitrary: rs es rule: parse_redact.induct)
  case (2 ok i f fs)
  obtain rs' es' where r: "parse_redact ok (i + 1) fs = (rs', es')" by fastforce
  have "rs = rs' \<or> ((fr_exact f \<noteq> [] \<or> fr_regex f \<noteq> [])
      \<and> rs = \<lparr>rr_exact = fr_exact f, rr_regex = fr_regex f\<rparr> # rs')"
    using 2(2) r by (simp add: Let_def split: if_splits)
  then show ?case using 2(1) [OF refl r] by auto
qed simp

lemma validate_config_ok:
  assumes "validate_config env fc = Inr c"
  shows "config_ok c"
proof -
  define names where "names = sort (map fst (fc_sources fc))"
  obtain lim e2 where lim: "parse_limits (ce_duration env) (fc_limits fc) = (lim, e2)" by fastforce
  obtain aud e3 where aud: "parse_audit (fc_audit fc) = (aud, e3)" by fastforce
  obtain tls e4 where tls: "parse_tls (fc_tls fc) = (tls, e4)" by fastforce
  obtain srcs e7 where srcs: "parse_sources env (fc_sources fc) (take max_sources names) [] = (srcs, e7)"
    by fastforce
  obtain svs e9 where svs: "parse_services (ce_unicode env) srcs 0 []
    (take max_services (fc_services fc)) = (svs, e9)" by fastforce
  obtain red e11 where red: "parse_redact (ce_regexp env) 0 (take max_redact_rules (fc_redact fc))
    = (red, e11)" by fastforce
  note parsed = assms [unfolded validate_config_def Let_def, folded names_def,
      unfolded lim aud tls srcs svs red prod.case]
  have e: "e2 = []" "e3 = []" and version: "fc_version fc = 1"
    and c: "c = \<lparr>cf_version = fc_version fc, cf_limits = lim, cf_audit = aud, cf_tls = tls,
                   cf_sources = srcs, cf_services = svs, cf_redact = red\<rparr>"
    using parsed by (simp_all split: if_split_asm)
  show ?thesis
    unfolding config_ok_def c config.select_convs
    using version parse_limits_ok [OF lim [unfolded e]] parse_audit_ok [OF aud [unfolded e]]
      parse_sources_ok [OF _ _ srcs] parse_services_ok [OF svs] parse_redact_ok [OF red]
    by (simp add: min_def split: if_split_asm)
qed

text \<open>
  Property C5: a configuration that \<open>Parse\<close> returns satisfies \<open>config_ok\<close>: limits and audit
  settings in bounds, at most 64 valid sources and 1000 services with distinct valid identifiers,
  and every reference of a service names a configured source of the right kind with a valid value.
\<close>
theorem parse_config_accepts_only_ok:
  assumes "parse_config compile env raw = Inr c"
  shows "config_ok c"
proof -
  obtain fc where "validate_config env fc = Inr c"
    using assms unfolding parse_config_def
    by (auto split: if_splits option.splits prod.splits sum.splits trailing.splits)
  then show ?thesis by (rule validate_config_ok)
qed

definition example_file :: file_config where
  "example_file =
     \<lparr>fc_version = 1, fc_limits = empty_limits,
      fc_audit = \<lparr>fa_file = [], fa_max_bytes = 0, fa_max_files = 0\<rparr>,
      fc_tls = \<lparr>ft_ca_file = []\<rparr>,
      fc_sources = [(''g'', \<lparr>fs_kind = ''gatus'', fs_base_url = ''http://h'', fs_token_env = [],
         fs_token_file = [], fs_token_header = [], fs_headers = []\<rparr>)],
      fc_services = [\<lparr>fsv_id = ''web'', fsv_display_name = [],
         fsv_sources = \<lparr>ss_gatus = Some \<lparr>gr_source = ''g'', gr_endpoint_key = ''k''\<rparr>,
           ss_docker = None, ss_loki = None, ss_healthchecks = None, ss_beszel = None,
           ss_ntfy = None\<rparr>\<rparr>],
      fc_redact = []\<rparr>"

definition example_env :: conf_env where
  "example_env =
     \<lparr>ce_unicode = ascii_tables, ce_duration = (\<lambda>s. None),
      ce_url = (\<lambda>s. Some \<lparr>ur_scheme = ''http'', ur_opaque = [], ur_user = False, ur_host = ''h'',
         ur_path = [], ur_raw_query = [], ur_fragment = []\<rparr>),
      ce_regexp = (\<lambda>s. True), ce_yaml = (\<lambda>s. (Inr example_file, TrailingEOF)),
      ce_yaml_error = (\<lambda>s. s)\<rparr>"

lemma example_text:
  "trim_space ''gatus'' = ''gatus''" "trim_space ''http://h'' = ''http://h''"
  "trim_space ''web'' = ''web''" "trim_space ''k'' = ''k''" "trim_space [] = []"
  "has_control ''http://h'' = False" "has_control ''web'' = False" "has_control ''k'' = False"
  "has_control [] = False"
  "rune_count ''http://h'' = 8" "rune_count ''web'' = 3" "rune_count ''k'' = 1"
  "runes ''gatus'' = [103, 97, 116, 117, 115]"
  by (simp_all add: trim_space_def ascii_eval space_chunk_def is_space_def has_control_def is_control_def)

lemma example_names:
  "to_lower ascii_tables ''gatus'' = ''gatus''" "service_id_re ''web''" "service_id_re ''g''"
  "show_nat 0 = ''0''" "find (str_contains ''version: 1'') disallowed_syntax = None"
proof -
  show "to_lower ascii_tables ''gatus'' = ''gatus''"
    unfolding to_lower_def example_text by code_simp
qed code_simp+

definition example_source :: source where
  "example_source = \<lparr>src_kind = ''gatus'', src_base_url = ''http://h'', src_token_env = [],
     src_token_file = [], src_token_header = [], src_headers = []\<rparr>"

lemma example_source_parsed:
  "parse_source example_env ''g'' (snd (hd (fc_sources example_file))) = Inr example_source"
  by (simp add: parse_source_def source_errors_def example_env_def example_file_def example_text
      example_names source_kinds_def check_base_url_def invalid_locked_path_def Let_def
      max_headers_per_source_def trim_right_char_def example_source_def)

lemma example_sources_parsed:
  "parse_sources example_env (fc_sources example_file)
     (take max_sources (sort (map fst (fc_sources example_file)))) [] = ([(''g'', example_source)], [])"
proof -
  have "map_of (fc_sources example_file) ''g'' = Some (snd (hd (fc_sources example_file)))"
    and "sort (map fst (fc_sources example_file)) = [''g'']"
    by (simp_all add: example_file_def)
  then show ?thesis
    by (simp add: max_sources_def source_name_re_def example_names example_source_parsed
        del: service_id_re.simps)
qed

lemma example_services_parsed:
  "\<exists>v. parse_services uc [(''g'', example_source)] 0 [] (take max_services (fc_services example_file))
     = ([v], [])"
  by (simp add: example_file_def max_services_def parse_service_def example_text example_names
      check_text_def opt_ref_def parse_gatus_def check_source_ref_def source_name_re_def
      check_binding_def example_source_def Let_def del: service_id_re.simps)

lemma example_validated:
  "\<exists>c. validate_config example_env example_file = Inr c \<and> length (cf_services c) = 1"
proof -
  let ?fc = example_file
  obtain l where lim: "parse_limits (ce_duration example_env) (fc_limits ?fc) = (l, [])"
    using empty_limits_accepted [of "ce_duration example_env"]
    by (cases "parse_limits (ce_duration example_env) empty_limits") (simp add: example_file_def)
  have other: "fc_version ?fc = 1"
    "parse_audit (fc_audit ?fc) = (\<lparr>au_file = [], au_max_bytes = 0, au_max_files = 0\<rparr>, [])"
    "parse_tls (fc_tls ?fc) = (\<lparr>tl_ca_file = []\<rparr>, [])" "fc_redact ?fc = []"
    "length (fc_sources ?fc) = 1" "length (fc_services ?fc) = 1" "fc_sources ?fc \<noteq> []"
    by (simp_all add: example_file_def parse_audit_def parse_tls_def example_text)
  obtain v where v: "parse_services (ce_unicode example_env) [(''g'', example_source)] 0 []
       (take max_services (fc_services ?fc)) = ([v], [])"
    using example_services_parsed by blast
  show ?thesis
    unfolding validate_config_def Let_def example_sources_parsed v lim other prod.case length_sort
      length_map
    by (simp add: other max_redact_rules_def max_sources_def max_services_def)
qed

lemma parse_config_accepts_only_ok_witness:
  "\<exists>c. parse_config (\<lambda>p. None) example_env ''version: 1'' = Inr c \<and> config_ok c
     \<and> length (cf_services c) = 1"
proof -
  obtain c where c: "parse_config (\<lambda>p. None) example_env ''version: 1'' = Inr c"
    "length (cf_services c) = 1"
    using example_validated example_names by (auto simp: parse_config_def max_config_bytes_def example_env_def)
  from c parse_config_accepts_only_ok [OF c(1)] show ?thesis by blast
qed

end
