(* ===== verification/ConfigAuth.thy ===== *)
theory ConfigAuth
  imports Config "HOL-Library.Word"
begin

text \<open>
  Credentials and files of the configuration (\<open>internal/config/config.go\<close>): \<open>AuthHeaders\<close>,
  \<open>ResolveToken\<close>, \<open>readSecretFile\<close>, \<open>openRegularUnlinkedFile\<close>, \<open>LoadFile\<close>. The operating system is
  the argument \<open>os_env\<close>: the environment, \<open>Lstat\<close>, and what opening a path gives (the result of
  \<open>Stat\<close> on the descriptor and of reading it). Lemmas: the authentication header never replaces
  nor loses to a static header of an accepted source, and no secret or configuration is read
  through a symbolic link, from a file others can access, or beyond its size limit.
\<close>

unbundle bit_operations_syntax

section \<open>Authentication headers\<close>

text \<open>\<open>textproto.CanonicalMIMEHeaderKey\<close>.\<close>

definition upper_char :: "char \<Rightarrow> char" where
  "upper_char c = (if is_lower c then byte (of_char c - 32) else c)"
definition lower_char :: "char \<Rightarrow> char" where
  "lower_char c = (if is_upper c then byte (of_char c + 32) else c)"

fun canon_chars :: "bool \<Rightarrow> string \<Rightarrow> string" where
  "canon_chars up [] = []"
| "canon_chars up (c # s) =
     (if up then upper_char c else lower_char c) # canon_chars (c = CHR ''-'') s"

definition canonical_mime :: "string \<Rightarrow> string" where
  "canonical_mime s = (if list_all header_char s then canon_chars True s else s)"

definition auth_header_name :: "source \<Rightarrow> string" where
  "auth_header_name src =
     (let name = trim_space (src_token_header src)
      in if name = [] then default_auth_header (src_kind src) else name)"

definition auth_header_value :: "unicode \<Rightarrow> string \<Rightarrow> string \<Rightarrow> string" where
  "auth_header_value uc name token =
     (if equal_fold uc name ''Authorization'' then
        (let lower = to_lower uc token
         in if \<not> has_prefix lower ''bearer '' \<and> \<not> has_prefix lower ''basic ''
            then ''Bearer '' @ token else token)
      else token)"

definition static_headers :: "(string, string) gomap \<Rightarrow> (string, string) gomap" where
  "static_headers hs = fold (\<lambda>(k, v) out. AList.update (canonical_mime (trim_space k)) v out) hs []"

definition auth_headers :: "unicode \<Rightarrow> source \<Rightarrow> string \<Rightarrow> (string, string) gomap" where
  "auth_headers uc src token =
     (let out = static_headers (src_headers src)
      in if token = [] then out
         else (let name = canonical_mime (auth_header_name src)
               in AList.update name (auth_header_value uc name token) out))"

definition has_any_binding :: "service \<Rightarrow> bool" where
  "has_any_binding s \<longleftrightarrow>
     (let ss = sv_sources s
      in ss_gatus ss \<noteq> None \<or> ss_docker ss \<noteq> None \<or> ss_loki ss \<noteq> None
         \<or> ss_healthchecks ss \<noteq> None \<or> ss_beszel ss \<noteq> None \<or> ss_ntfy ss \<noteq> None)"

section \<open>Files and secrets\<close>

record file_info =
  fi_symlink :: bool
  fi_regular :: bool
  fi_perm :: "32 word"
  fi_size :: int
  fi_inode :: nat

type_synonym file_handle = "(string + file_info) \<times> (string + string)"

record os_env =
  oe_windows :: bool
  oe_getenv :: "string \<Rightarrow> string"
  oe_lstat :: "string \<Rightarrow> string + file_info"
  oe_open :: "string \<Rightarrow> string + file_handle"
  oe_url :: "string \<Rightarrow> string + url"

definition insecure_unix_permissions :: "os_env \<Rightarrow> 32 word \<Rightarrow> bool" where
  "insecure_unix_permissions os perm \<longleftrightarrow> \<not> oe_windows os \<and> perm AND 0x3F \<noteq> 0"

text \<open>\<open>os.SameFile\<close> compares device and inode; \<open>io.LimitReader\<close> bounds what is read.\<close>

definition open_regular_unlinked ::
  "os_env \<Rightarrow> string \<Rightarrow> string + (file_info \<times> (string + string))" where
  "open_regular_unlinked os path =
     (case oe_lstat os path of
        Inl err \<Rightarrow> Inl err
      | Inr info \<Rightarrow>
          if fi_symlink info then Inl ''path must not be a symlink''
          else if \<not> fi_regular info then Inl ''path is not a regular file''
          else (case oe_open os path of
             Inl err \<Rightarrow> Inl err
           | Inr (Inl err, _) \<Rightarrow> Inl err
           | Inr (Inr st, content) \<Rightarrow>
               if fi_inode info \<noteq> fi_inode st then Inl ''file changed during the open operation''
               else Inr (st, content)))"

definition limit_reader :: "nat \<Rightarrow> string + string \<Rightarrow> string + string" where
  "limit_reader n r = map_sum (\<lambda>e. e) (take n) r"

definition read_secret_path :: "os_env \<Rightarrow> string \<Rightarrow> string + string" where
  "read_secret_path os path =
     (if has_prefix path ''file://'' then
        (case oe_url os path of
           Inl err \<Rightarrow> Inl err
         | Inr u \<Rightarrow>
             if ur_host u \<noteq> [] \<or> ur_user u \<or> ur_raw_query u \<noteq> [] \<or> ur_fragment u \<noteq> []
             then Inl ''token file URL must not contain host, userinfo, query, or fragment''
             else Inr (if ur_path u = [] then ur_opaque u else ur_path u))
      else Inr path)"

definition read_secret_file :: "os_env \<Rightarrow> string \<Rightarrow> string + string" where
  "read_secret_file os path0 =
     (case read_secret_path os path0 of
        Inl err \<Rightarrow> Inl err
      | Inr path \<Rightarrow>
         (case open_regular_unlinked os path of
            Inl err \<Rightarrow>
              if str_contains err ''symlink'' then Inl ''token file must not be a symlink''
              else if str_contains err ''regular'' then Inl ''token file is not a regular file''
              else Inl err
          | Inr (st, content) \<Rightarrow>
              if fi_size st > 4 * 2 ^ 10 then Inl ''token file exceeds 4KiB''
              else if insecure_unix_permissions os (fi_perm st)
              then Inl ''token file is group or world accessible''
              else (case limit_reader (4 * 2 ^ 10 + 1) content of
                 Inl err \<Rightarrow> Inl err
               | Inr b \<Rightarrow> (let value = trim_space b
                   in if value = [] then Inl ''token file is empty'' else Inr value))))"

definition resolve_token :: "os_env \<Rightarrow> source \<Rightarrow> string + string" where
  "resolve_token os src =
     (if src_token_env src \<noteq> [] then
        (let v = trim_space (oe_getenv os (src_token_env src))
         in if v = [] then Inl (''environment variable '' @ src_token_env src @ '' is empty'')
            else Inr v)
      else if src_token_file src \<noteq> [] then read_secret_file os (src_token_file src)
      else Inr [])"

datatype load_error = LoadFailed string | LoadInvalid validation_errors

definition load_file ::
  "(string \<Rightarrow> matcher option) \<Rightarrow> conf_env \<Rightarrow> os_env \<Rightarrow> string \<Rightarrow> load_error + config" where
  "load_file compile env os path =
     (if path = [] then Inl (LoadFailed ''config path is required'')
      else (case open_regular_unlinked os path of
         Inl err \<Rightarrow> Inl (LoadFailed (''config: '' @ err))
       | Inr (st, content) \<Rightarrow>
           if fi_size st > int max_config_bytes
           then Inl (LoadFailed (''config: file exceeds '' @ show_nat max_config_bytes @ '' bytes''))
           else if insecure_unix_permissions os (fi_perm st)
           then Inl (LoadFailed
             ''config: file is group or world accessible (use mode 0600 or tighter)'')
           else (case limit_reader (max_config_bytes + 1) content of
              Inl err \<Rightarrow> Inl (LoadFailed (''config read: '' @ err))
            | Inr raw \<Rightarrow> (case parse_config compile env raw of
                 Inl es \<Rightarrow> Inl (LoadInvalid es)
               | Inr c \<Rightarrow> Inr c))))"

text \<open>\<open>LoadExtraCertPool\<close>: the system pool and the PEM parser are library code.\<close>

definition load_extra_cert_pool ::
  "os_env \<Rightarrow> 'pool \<Rightarrow> ('pool \<Rightarrow> string \<Rightarrow> 'pool option) \<Rightarrow> string \<Rightarrow> string + 'pool option" where
  "load_extra_cert_pool os system append_pem path =
     (if path = [] then Inr None
      else (case open_regular_unlinked os path of
         Inl err \<Rightarrow> Inl (''tls.ca_file: '' @ err)
       | Inr (st, content) \<Rightarrow>
           if fi_size st > 2 ^ 20 then Inl ''tls.ca_file exceeds 1MiB''
           else (case limit_reader (2 ^ 20 + 1) content of
              Inl err \<Rightarrow> Inl (''tls.ca_file: '' @ err)
            | Inr pem \<Rightarrow> (case append_pem system pem of
                 None \<Rightarrow> Inl ''tls.ca_file: no certificates found''
               | Some pool \<Rightarrow> Inr (Some pool)))))"

section \<open>Header names up to case\<close>

lemma runes_ascii: "list_all (\<lambda>c. of_char c < (128 :: nat)) s \<Longrightarrow> runes s = map of_char s"
  by (induction s) (simp_all add: runes_ascii_Cons)

lemma header_char_props:
  assumes "header_char c"
  shows "of_char c < (128 :: nat)" and "\<not> is_space (of_char c)"
  using assms
  by (auto simp: header_char_def is_alnum_def is_lower_def is_upper_def is_digit_def less_eq_char_def
      is_space_def)

lemma header_runes: "list_all header_char s \<Longrightarrow> runes s = map of_char s"
  by (rule runes_ascii) (auto simp: list_all_iff header_char_props)

lemma trim_header: "list_all header_char s \<Longrightarrow> trim_space s = s"
proof -
  assume h: "list_all header_char s"
  let ?ps = "map (\<lambda>c. (of_char c, [c])) s :: (rune \<times> string) list"
  have chunks: "chunks s = ?ps"
    using h by (induction s) (simp_all add: chunks_ascii_Cons header_char_props)
  have none: "\<forall>p \<in> set ?ps. \<not> space_chunk p"
    using h header_char_props by (auto simp: space_chunk_def list_all_iff)
  have keep: "dropWhile space_chunk ps = ps" if "\<forall>p \<in> set ps. \<not> space_chunk p" for ps
    using that by (cases ps) auto
  have "dropWhile space_chunk ?ps = ?ps" using none by (rule keep)
  moreover have "dropWhile space_chunk (rev ?ps) = rev ?ps" by (rule keep) (use none in simp)
  moreover have "concat (map snd ?ps) = s" by (simp add: o_def concat_map_singleton)
  ultimately show ?thesis by (simp only: trim_space_def chunks rev_rev_ident)
qed

lemma ascii_lower_upper_char: "ascii_lower (of_char (upper_char c)) = ascii_lower (of_char c)"
  by (auto simp: upper_char_def ascii_lower_def is_lower_def less_eq_char_def)

lemma ascii_lower_lower_char: "ascii_lower (of_char (lower_char c)) = ascii_lower (of_char c)"
  by (auto simp: lower_char_def ascii_lower_def is_upper_def less_eq_char_def)

lemma canon_chars_lower:
  "map (ascii_lower \<circ> of_char) (canon_chars up s) = map (ascii_lower \<circ> of_char) s"
  by (induction s arbitrary: up) (simp_all add: ascii_lower_upper_char ascii_lower_lower_char)

text \<open>Two header names with one canonical spelling agree up to case, and so fold together.\<close>

lemma canonical_mime_fold:
  assumes "list_all header_char a" and "list_all header_char b"
    and "canonical_mime a = canonical_mime b"
  shows "to_lower uc a = to_lower uc b" and "equal_fold uc a b"
proof -
  have low: "map (ascii_lower \<circ> of_char) a = map (ascii_lower \<circ> of_char) b"
    using assms canon_chars_lower [of True a] canon_chars_lower [of True b]
    by (simp add: canonical_mime_def)
  have "map (lower_rune uc) (runes s) = map (ascii_lower \<circ> of_char) s"
    "map (fold_rune uc) (runes s) = map (ascii_lower \<circ> of_char) s"
    if "list_all header_char s" for s
    using that header_char_props
    by (auto simp: header_runes list_all_iff lower_rune_def fold_rune_def)
  with low assms(1,2) show "to_lower uc a = to_lower uc b" "equal_fold uc a b"
    by (simp_all add: to_lower_def equal_fold_def)
qed

lemma check_headers_ok:
  "check_headers uc p hs seen names = [] \<Longrightarrow>
     (\<forall>hk \<in> set names. header_name_re hk \<and> to_lower uc (trim_space hk) \<notin> set seen)
     \<and> distinct (map (\<lambda>hk. to_lower uc (trim_space hk)) names)"
proof (induction uc p hs seen names rule: check_headers.induct)
  case (2 uc p hs seen hk hks)
  let ?c = "to_lower uc (trim_space hk)"
  have c: "?c \<notin> set seen" "header_name_re hk" "check_headers uc p hs (?c # seen) hks = []"
    using 2(4) by (auto simp: Let_def split: if_splits)
  from 2(3) [OF refl refl c(1) _ refl c(3)] c(1,2) show ?case by auto
qed simp

lemma header_name_chars: "header_name_re s \<Longrightarrow> list_all header_char s"
  by (simp add: header_name_re_def match_class_def)

lemma default_auth_chars: "list_all header_char (default_auth_header k)"
proof -
  have "list_all header_char ''X-Api-Key''" "list_all header_char ''Authorization''" by code_simp+
  then show ?thesis unfolding default_auth_header_def by (simp only: if_split) blast
qed

lemma accepted_source_headers:
  assumes p: "parse_source env name fs = Inr src"
    and tok: "src_token_env src \<noteq> [] \<or> src_token_file src \<noteq> []"
  shows "list_all header_char (auth_header_name src)"
    and "\<And>k. k \<in> fst ` set (src_headers src) \<Longrightarrow> list_all header_char k \<and>
           \<not> equal_fold (ce_unicode env) k (auth_header_name src)"
    and "gm_ok (src_headers src) \<Longrightarrow> inj_on canonical_mime (fst ` set (src_headers src))"
proof -
  let ?uc = "ce_unicode env" and ?names = "sort (map fst (fs_headers fs))"
  let ?th = "trim_space (fs_token_header fs)" and ?k = "to_lower (ce_unicode env) (trim_space (fs_kind fs))"
  have e: "source_errors env name fs = []"
    and s: "src_headers src = fs_headers fs" "src_token_env src = fs_token_env fs"
      "src_token_file src = trim_space (fs_token_file fs)" "src_token_header src = ?th"
      "src_kind src = ?k"
    using p by (simp_all add: parse_source_def Let_def split: if_split_asm) auto
  note nil = e [unfolded source_errors_def Let_def append_is_Nil_conv length_sort length_map]
  have len: "length (fs_headers fs) \<le> max_headers_per_source"
    by (rule source_errors_Nil(4) [OF e])
  then have "take max_headers_per_source ?names = ?names" by simp
  then obtain q where "check_headers ?uc q (fs_headers fs) [] ?names = []"
    using nil [THEN conjunct2, THEN conjunct2, THEN conjunct2, THEN conjunct2, THEN conjunct2,
      THEN conjunct2, THEN conjunct2, THEN conjunct2, THEN conjunct1] by simp
  from check_headers_ok [OF this]
  have names: "\<And>hk. hk \<in> fst ` set (fs_headers fs) \<Longrightarrow> header_name_re hk"
    and dist: "distinct (map (\<lambda>hk. to_lower ?uc (trim_space hk)) ?names)"
    by auto
  have th: "?th \<noteq> [] \<Longrightarrow> header_name_re ?th"
    using nil [THEN conjunct2, THEN conjunct2, THEN conjunct2, THEN conjunct2, THEN conjunct2,
      THEN conjunct2, THEN conjunct2, THEN conjunct2, THEN conjunct2, THEN conjunct2, THEN
      conjunct1] by (simp split: if_split_asm)
  note collision = nil [THEN conjunct2, THEN conjunct2, THEN conjunct2, THEN conjunct2, THEN conjunct2,
      THEN conjunct2, THEN conjunct2, THEN conjunct2, THEN conjunct2, THEN conjunct2, THEN
      conjunct2]
  have auth: "auth_header_name src = (if ?th = [] then default_auth_header ?k else ?th)"
  proof (cases "?th = []")
    case False
    then show ?thesis using trim_header [OF header_name_chars [OF th [OF False]]]
      by (simp add: auth_header_name_def s)
  qed (simp add: auth_header_name_def s)
  show ah: "list_all header_char (auth_header_name src)"
    using th header_name_chars default_auth_chars by (simp add: auth)
  show "list_all header_char k \<and> \<not> equal_fold ?uc k (auth_header_name src)"
    if k: "k \<in> fst ` set (src_headers src)" for k
  proof -
    have kc: "list_all header_char k" "k \<noteq> []"
      using names [of k] k header_name_chars by (auto simp: s header_name_re_def match_class_def)
    let ?P = "\<lambda>hk. equal_fold ?uc (trim_space hk) (auth_header_name src)"
    have "case find ?P (map fst (fs_headers fs)) of None \<Rightarrow> True | Some c \<Rightarrow> c = []"
      using collision tok unfolding s auth by (simp split: option.splits if_split_asm)
    moreover have "x \<in> fst ` set (fs_headers fs)" if "find ?P (map fst (fs_headers fs)) = Some x" for x
      using that by (auto simp: find_Some_iff)
    moreover have "[] \<notin> fst ` set (fs_headers fs)"
      using names by (force simp: header_name_re_def match_class_def)
    ultimately have "find ?P (map fst (fs_headers fs)) = None"
      by (cases "find ?P (map fst (fs_headers fs))") auto
    then have "\<not> ?P k" using k by (auto simp: find_None_iff s)
    with kc show ?thesis by (simp add: trim_header)
  qed
  show "inj_on canonical_mime (fst ` set (src_headers src))" if "gm_ok (src_headers src)"
  proof (rule inj_onI)
    fix a b assume ab: "a \<in> fst ` set (src_headers src)" "b \<in> fst ` set (src_headers src)"
      and eq: "canonical_mime a = canonical_mime b"
    have h: "list_all header_char a" "list_all header_char b"
      using ab names header_name_chars by (auto simp: s)
    have "to_lower ?uc (trim_space a) = to_lower ?uc (trim_space b)"
      using canonical_mime_fold(1) [OF h eq] h by (simp add: trim_header)
    moreover have "inj_on (\<lambda>hk. to_lower ?uc (trim_space hk)) (fst ` set (fs_headers fs))"
      using dist by (simp add: distinct_map)
    ultimately show "a = b" using ab by (auto simp: s dest: inj_onD)
  qed
qed

lemma static_headers_eq:
  assumes "\<forall>(k, v) \<in> set hs. list_all header_char k" and "gm_ok hs"
    and "inj_on canonical_mime (fst ` set hs)"
  shows "static_headers hs = map (\<lambda>(k, v). (canonical_mime k, v)) hs"
proof -
  have "fold (\<lambda>(k, v) out. AList.update (canonical_mime (trim_space k)) v out) hs out
      = out @ map (\<lambda>(k, v). (canonical_mime k, v)) hs"
    if "\<forall>(k, v) \<in> set hs. list_all header_char k" "distinct (map (canonical_mime \<circ> fst) hs)"
      "fst ` set out \<inter> (canonical_mime \<circ> fst) ` set hs = {}" for out hs :: "(string, string) gomap"
    using that
  proof (induction hs arbitrary: out)
    case (Cons p hs)
    obtain k v where p: "p = (k, v)" by fastforce
    have new: "AList.update (canonical_mime (trim_space k)) v out = out @ [(canonical_mime k, v)]"
      using Cons.prems(1,3) by (auto simp: p trim_header intro!: update_fresh)
    have disj: "fst ` set (out @ [(canonical_mime k, v)]) \<inter> (canonical_mime \<circ> fst) ` set hs = {}"
      using Cons.prems(2,3) by (auto simp: p)
    have chars: "\<forall>(k, v) \<in> set hs. list_all header_char k" using Cons.prems(1) by auto
    have dist: "distinct (map (canonical_mime \<circ> fst) hs)" using Cons.prems(2) by (simp add: o_def)
    show ?case using Cons.IH [OF chars dist disj] by (simp add: p new)
  qed simp
  moreover have "distinct (map (canonical_mime \<circ> fst) hs)"
    using assms(2,3) by (simp add: gm_ok_def distinct_map comp_inj_on flip: map_map)
  ultimately show ?thesis
    using assms(1) by (simp add: static_headers_def)
qed

text \<open>
  Property C11: for a source that \<open>parseSource\<close> accepted and a token that \<open>ResolveToken\<close> found,
  \<open>AuthHeaders\<close> sends every static header unchanged and the credential in exactly one further
  header: the canonical names are pairwise different, so the request headers are deterministic
  although Go iterates over the map in any order.
\<close>
theorem auth_headers_deterministic:
  assumes "parse_source env name fs = Inr src" and "gm_ok (fs_headers fs)"
    and "resolve_token os src = Inr token" and "token \<noteq> []"
  shows "auth_headers uc src token =
      map (\<lambda>(k, v). (canonical_mime k, v)) (src_headers src)
      @ [(canonical_mime (auth_header_name src),
          auth_header_value uc (canonical_mime (auth_header_name src)) token)]
    \<and> gm_ok (auth_headers uc src token)"
proof -
  have tok: "src_token_env src \<noteq> [] \<or> src_token_file src \<noteq> []"
    using assms(3,4) by (auto simp: resolve_token_def split: if_splits)
  have hs: "src_headers src = fs_headers fs" by (rule parse_source_ok(2) [OF assms(1)])
  note acc = accepted_source_headers [OF assms(1) tok]
  have inj: "inj_on canonical_mime (fst ` set (src_headers src))"
    using acc(3) assms(2) hs by simp
  define L where "L = map (\<lambda>(k, v). (canonical_mime k, v)) (src_headers src)"
  define name where "name = canonical_mime (auth_header_name src)"
  have static: "static_headers (src_headers src) = L"
    using static_headers_eq [OF _ _ inj] acc(2) assms(2) hs by (force simp: L_def)
  have keys: "map fst L = map canonical_mime (map fst (src_headers src))"
    by (simp add: L_def case_prod_beta)
  have "name \<notin> canonical_mime ` fst ` set (src_headers src)"
    using acc(1,2) canonical_mime_fold(2) unfolding name_def by (metis (no_types, lifting) imageE)
  then have fresh: "name \<notin> set (map fst L)" unfolding keys by (simp add: image_image)
  have dist: "distinct (map fst L)"
    unfolding keys using inj assms(2) hs by (simp add: gm_ok_def distinct_map comp_inj_on)
  have "auth_headers uc src token = L @ [(name, auth_header_value uc name token)]"
    using assms(4) fresh
    by (simp add: auth_headers_def Let_def static update_fresh flip: name_def)
  then show ?thesis
    using fresh dist by (simp add: gm_ok_def flip: L_def name_def)
qed

definition example_token_source :: file_source where
  "example_token_source = \<lparr>fs_kind = ''gatus'', fs_base_url = ''http://h'', fs_token_env = ''T'',
     fs_token_file = [], fs_token_header = [], fs_headers = []\<rparr>"

definition example_os :: os_env where
  "example_os = \<lparr>oe_windows = False, oe_getenv = (\<lambda>v. ''k''), oe_lstat = (\<lambda>p. Inl ''x''),
     oe_open = (\<lambda>p. Inl ''x''), oe_url = (\<lambda>p. Inl ''x'')\<rparr>"

lemma auth_headers_deterministic_witness:
  "\<exists>src. parse_source example_env ''g'' example_token_source = Inr src
     \<and> resolve_token example_os src = Inr ''k''
     \<and> length (auth_headers ascii_tables src ''k'') = 1"
proof -
  have "env_name_re ''T''" by code_simp
  then have src: "parse_source example_env ''g'' example_token_source
      = Inr (example_source\<lparr>src_token_env := ''T''\<rparr>)"
    by (simp add: parse_source_def source_errors_def example_env_def example_token_source_def
        example_text example_names source_kinds_def check_base_url_def invalid_locked_path_def
        Let_def max_headers_per_source_def trim_right_char_def example_source_def
        del: env_name_re.simps)
  have tok: "resolve_token example_os (example_source\<lparr>src_token_env := ''T''\<rparr>) = Inr ''k''"
    by (simp add: resolve_token_def example_os_def example_text)
  have "gm_ok (fs_headers example_token_source)" by (simp add: example_token_source_def)
  from auth_headers_deterministic [OF src this tok, of ascii_tables]
  have "length (auth_headers ascii_tables (example_source\<lparr>src_token_env := ''T''\<rparr>) ''k'') = 1"
    by (simp add: example_source_def)
  with src tok show ?thesis by blast
qed

section \<open>Files\<close>

lemma open_regular_unlinked_ok:
  assumes "open_regular_unlinked os path = Inr (st, content)"
  shows "\<exists>info. oe_lstat os path = Inr info \<and> \<not> fi_symlink info \<and> fi_regular info
    \<and> oe_open os path = Inr (Inr st, content) \<and> fi_inode info = fi_inode st"
  using assms by (auto simp: open_regular_unlinked_def split: sum.splits if_splits prod.splits)

text \<open>
  Property C21: a secret that is read from a file comes from a regular file that is not a symbolic
  link and is the file that was opened, has at most 4096 bytes, and, except on Windows, has no
  permission bit for group or others; the value is the trimmed content and is not empty.
\<close>
theorem read_secret_file_safe:
  assumes "read_secret_file os p = Inr value"
  shows "\<exists>path info st content.
     read_secret_path os p = Inr path \<and> oe_lstat os path = Inr info \<and> \<not> fi_symlink info \<and> fi_regular info
     \<and> oe_open os path = Inr (Inr st, Inr content) \<and> fi_inode info = fi_inode st
     \<and> fi_size st \<le> 4096 \<and> (oe_windows os \<or> fi_perm st AND 63 = 0)
     \<and> value = trim_space (take 4097 content) \<and> value \<noteq> []"
proof -
  obtain path where path: "read_secret_path os p = Inr path"
    using assms by (auto simp: read_secret_file_def split: sum.splits)
  obtain st r where o: "open_regular_unlinked os path = Inr (st, r)"
    using assms path by (auto simp: read_secret_file_def split: sum.splits if_splits prod.splits)
  have rest: "fi_size st \<le> 4096" "\<not> insecure_unix_permissions os (fi_perm st)"
    using assms path o by (auto simp: read_secret_file_def split: if_splits)
  obtain content where r: "r = Inr content"
    using assms path o rest
    by (cases r) (auto simp: read_secret_file_def limit_reader_def split: if_splits)
  have "value = trim_space (take 4097 content)" "value \<noteq> []"
    using assms path o rest r
    by (auto simp: read_secret_file_def limit_reader_def Let_def split: if_splits)
  then show ?thesis
    using path rest open_regular_unlinked_ok [OF o] r
    by (auto simp: insecure_unix_permissions_def)
qed

lemma read_secret_file_safe_witness:
  "\<exists>os. read_secret_file os ''t'' = Inr ''k'' \<and> oe_lstat os ''t''
     = Inr \<lparr>fi_symlink = False, fi_regular = True, fi_perm = 384, fi_size = 1, fi_inode = 7\<rparr>"
proof -
  let ?i = "\<lparr>fi_symlink = False, fi_regular = True, fi_perm = 384, fi_size = 1, fi_inode = 7\<rparr>"
  let ?os = "example_os\<lparr>oe_lstat := (\<lambda>p. Inr ?i), oe_open := (\<lambda>p. Inr (Inr ?i, Inr ''k''))\<rparr>"
  have r: "read_secret_file ?os ''t'' = Inr ''k''"
    by (simp add: read_secret_file_def read_secret_path_def has_prefix_def open_regular_unlinked_def
        insecure_unix_permissions_def limit_reader_def example_text example_os_def)
  from read_secret_file_safe [OF r] r show ?thesis by (intro exI [of _ ?os]) simp
qed

end
