(* ===== verification/HttpCache.thy ===== *)
theory HttpCache
  imports ConfigAuth
begin

text \<open>
  The response cache of the locked HTTP client (\<open>internal/httpx/client.go\<close>): a map from request
  keys to snapshots, the keys in insertion order, and the bytes held. The mutex makes each of
  \<open>cacheGet\<close>, \<open>cachePut\<close> and \<open>Stats\<close> one step; their clock readings are arguments. Lemmas: the
  structural invariant and both limits hold after any interleaving of steps, every step returns,
  and a hit gives the last response stored under the key.
\<close>

section \<open>State and operations\<close>

definition default_max_body :: int where "default_max_body = 2 * 2 ^ 20"
definition http_cache_bytes :: int where "http_cache_bytes = 32 * 2 ^ 20"
definition http_cache_entries :: int where "http_cache_entries = 128"

record hcache_entry =
  he_status :: int
  he_body :: string
  he_collected_at :: time
  he_expires :: time
  he_truncated :: bool

record hcache =
  hc_ttl :: duration
  hc_map :: "(string, hcache_entry) gomap"
  hc_order :: "string list"
  hc_bytes :: int

definition new_hcache :: "duration \<Rightarrow> hcache" where
  "new_hcache ttl = \<lparr>hc_ttl = ttl, hc_map = [], hc_order = [], hc_bytes = 0\<rparr>"

definition remove_cache_locked :: "string \<Rightarrow> hcache \<Rightarrow> hcache" where
  "remove_cache_locked key c = (case map_of (hc_map c) key of
     None \<Rightarrow> c
   | Some e \<Rightarrow> c\<lparr>hc_bytes := hc_bytes c - int (length (he_body e)),
                 hc_map := AList.delete key (hc_map c),
                 hc_order := filter (\<lambda>k. k \<noteq> key) (hc_order c)\<rparr>)"

definition expire_cache_step :: "time \<Rightarrow> hcache \<Rightarrow> string \<times> hcache_entry \<Rightarrow> hcache" where
  "expire_cache_step now c p =
     (if \<not> now < he_expires (snd p) then remove_cache_locked (fst p) c else c)"

definition expire_cache_locked :: "time \<Rightarrow> hcache \<Rightarrow> hcache" where
  "expire_cache_locked now c = foldl (expire_cache_step now) c (hc_map c)"

definition hcache_get :: "string \<Rightarrow> time \<Rightarrow> hcache \<Rightarrow> hcache_entry option \<times> hcache" where
  "hcache_get key now c = (case map_of (hc_map c) key of
     None \<Rightarrow> (None, c)
   | Some e \<Rightarrow> if now > he_expires e then (None, remove_cache_locked key c) else (Some e, c))"

definition hcache_full :: "int \<Rightarrow> hcache \<Rightarrow> bool" where
  "hcache_full n c \<longleftrightarrow> gm_len (hc_map c) \<ge> http_cache_entries \<or> hc_bytes c + n > http_cache_bytes"

definition hcache_evict :: "hcache \<Rightarrow> hcache" where
  "hcache_evict c = remove_cache_locked (hd (hc_order c)) c"

definition hcache_store :: "string \<Rightarrow> hcache_entry \<Rightarrow> hcache \<Rightarrow> hcache" where
  "hcache_store key e c = c\<lparr>hc_map := AList.update key e (hc_map c), hc_order := hc_order c @ [key],
     hc_bytes := hc_bytes c + int (length (he_body e))\<rparr>"

text \<open>\<open>cachePut\<close> reads the clock for the expiry of old entries and again for the new one.\<close>

definition hcache_put ::
  "string \<Rightarrow> int \<Rightarrow> string \<Rightarrow> time \<Rightarrow> bool \<Rightarrow> time \<Rightarrow> time \<Rightarrow> hcache \<Rightarrow> hcache option" where
  "hcache_put key status body collected_at truncated now1 now2 c =
     (let n = int (length body)
      in if n > http_cache_bytes then Some c
         else (let c = expire_cache_locked now1 c;
                   c = (if map_of (hc_map c) key \<noteq> None then remove_cache_locked key c else c)
               in map_option (\<lambda>c. hcache_store key
                    \<lparr>he_status = status, he_body = body, he_collected_at = collected_at,
                     he_expires = now2 + hc_ttl c, he_truncated = truncated\<rparr> c)
                  (while_option (\<lambda>c. hcache_full n c \<and> hc_order c \<noteq> []) hcache_evict c)))"

definition hcache_stats :: "time \<Rightarrow> hcache \<Rightarrow> (int \<times> int) \<times> hcache" where
  "hcache_stats now c = (let c = expire_cache_locked now c in ((gm_len (hc_map c), hc_bytes c), c))"

section \<open>Invariant\<close>

definition bodies_size :: "(string, hcache_entry) gomap \<Rightarrow> int" where
  "bodies_size m = sum_list (map (\<lambda>p. int (length (he_body (snd p)))) m)"

definition hc_inv :: "hcache \<Rightarrow> bool" where
  "hc_inv c \<longleftrightarrow> gm_ok (hc_map c) \<and> distinct (hc_order c)
     \<and> set (hc_order c) = fst ` set (hc_map c) \<and> hc_bytes c = bodies_size (hc_map c)"

definition hc_ok :: "hcache \<Rightarrow> bool" where
  "hc_ok c \<longleftrightarrow> hc_inv c \<and> gm_len (hc_map c) \<le> http_cache_entries \<and> hc_bytes c \<le> http_cache_bytes"

lemma bodies_size_simps [simp]:
  "bodies_size [] = 0" "bodies_size (p # m) = int (length (he_body (snd p))) + bodies_size m"
  "bodies_size (m @ m') = bodies_size m + bodies_size m'"
  by (simp_all add: bodies_size_def)

lemma bodies_size_nonneg: "0 \<le> bodies_size m"
  by (induction m) simp_all

lemma remove_cache_map: "map_of (hc_map (remove_cache_locked key c)) = (map_of (hc_map c))(key := None)"
  by (auto simp: remove_cache_locked_def gomap_simps fun_eq_iff split: option.split)

lemma remove_cache_ttl [simp]: "hc_ttl (remove_cache_locked key c) = hc_ttl c"
  by (simp add: remove_cache_locked_def split: option.split)

lemma remove_cache_order:
  assumes "hc_inv c"
  shows "hc_order (remove_cache_locked key c) = filter (\<lambda>k. k \<noteq> key) (hc_order c)"
proof (cases "map_of (hc_map c) key")
  case None
  with assms have "key \<notin> set (hc_order c)" by (simp add: hc_inv_def map_of_eq_None_iff)
  then have "filter (\<lambda>k. k \<noteq> key) (hc_order c) = hc_order c" by (simp add: filter_id_conv) blast
  with None show ?thesis by (simp add: remove_cache_locked_def)
qed (simp add: remove_cache_locked_def)

lemma remove_cache_inv:
  assumes "hc_inv c"
  shows "hc_inv (remove_cache_locked key c)
    \<and> length (hc_map (remove_cache_locked key c)) \<le> length (hc_map c)
    \<and> hc_bytes (remove_cache_locked key c) \<le> hc_bytes c"
proof (cases "map_of (hc_map c) key")
  case None
  with assms show ?thesis by (simp add: remove_cache_locked_def)
next
  case (Some e)
  have g: "gm_ok (hc_map c)" using assms by (simp add: hc_inv_def)
  obtain xs ys where xs: "hc_map c = xs @ (key, e) # ys" "AList.delete key (hc_map c) = xs @ ys"
    using delete_split [OF g Some] by blast
  have m: "hc_map (remove_cache_locked key c) = xs @ ys"
    using Some xs(2) by (simp add: remove_cache_locked_def)
  have f: "key \<notin> fst ` set (xs @ ys)" using g xs(1) by (auto simp: gm_ok_def)
  have "set (hc_order c) = insert key (fst ` set (xs @ ys))"
    using assms xs(1) by (simp add: hc_inv_def image_Un)
  with f have keys: "set (hc_order (remove_cache_locked key c)) = fst ` set (xs @ ys)"
    by (simp only: remove_cache_order [OF assms] set_filter) blast
  have bytes: "hc_bytes (remove_cache_locked key c) = bodies_size (xs @ ys)"
    using assms xs(1) Some by (simp add: remove_cache_locked_def hc_inv_def)
  have "hc_inv (remove_cache_locked key c)"
    unfolding hc_inv_def m keys bytes using assms xs(1)
    by (simp add: hc_inv_def gm_ok_def remove_cache_order [OF assms])
  then show ?thesis using assms xs(1) m bytes by (simp add: hc_inv_def)
qed

lemma expire_cache_inv:
  assumes "hc_inv c"
  shows "hc_inv (expire_cache_locked now c)
    \<and> length (hc_map (expire_cache_locked now c)) \<le> length (hc_map c)
    \<and> hc_bytes (expire_cache_locked now c) \<le> hc_bytes c
    \<and> hc_ttl (expire_cache_locked now c) = hc_ttl c"
proof -
  have "hc_inv (foldl (expire_cache_step now) c ps)
      \<and> length (hc_map (foldl (expire_cache_step now) c ps)) \<le> length (hc_map c)
      \<and> hc_bytes (foldl (expire_cache_step now) c ps) \<le> hc_bytes c
      \<and> hc_ttl (foldl (expire_cache_step now) c ps) = hc_ttl c"
    if "hc_inv c" for ps c
    using that
  proof (induction ps arbitrary: c)
    case (Cons p ps)
    have "hc_inv (expire_cache_step now c p)
        \<and> length (hc_map (expire_cache_step now c p)) \<le> length (hc_map c)
        \<and> hc_bytes (expire_cache_step now c p) \<le> hc_bytes c
        \<and> hc_ttl (expire_cache_step now c p) = hc_ttl c"
      using remove_cache_inv [OF Cons.prems] Cons.prems by (simp add: expire_cache_step_def)
    with Cons.IH [of "expire_cache_step now c p"] show ?case by (simp only: foldl_Cons) (metis order_trans)
  qed simp
  with assms show ?thesis by (simp add: expire_cache_locked_def)
qed

lemma hcache_evict_order:
  assumes "hc_inv c" and "hc_order c \<noteq> []"
  shows "hc_order (hcache_evict c) = tl (hc_order c)"
proof -
  obtain k ks where o: "hc_order c = k # ks" using assms(2) by (cases "hc_order c") auto
  with assms(1) have "k \<notin> set ks" by (auto simp: hc_inv_def)
  then have "filter (\<lambda>j. j \<noteq> k) ks = ks" by (simp add: filter_id_conv) blast
  with o show ?thesis by (simp add: hcache_evict_def remove_cache_order [OF assms(1)])
qed

text \<open>The cache provides the eviction interface.\<close>

interpretation hc: fifo_evict hc_inv hc_order hcache_evict
  by unfold_locales (simp_all add: hcache_evict_def remove_cache_inv hcache_evict_order [unfolded hcache_evict_def])

lemma hcache_evict_ttl: "hc_ttl ((hcache_evict ^^ n) c) = hc_ttl c"
  by (induction n) (simp_all add: hcache_evict_def)

lemma hcache_evict_other:
  "map_of (hc_map c) key = None \<Longrightarrow> map_of (hc_map ((hcache_evict ^^ n) c)) key = None"
  by (induction n) (simp_all add: hcache_evict_def remove_cache_map)

lemma hc_inv_empty: "hc_inv c \<Longrightarrow> hc_order c = [] \<Longrightarrow> hc_map c = [] \<and> hc_bytes c = 0"
  by (auto simp: hc_inv_def)

lemma hcache_store_inv:
  assumes "hc_inv c" and "map_of (hc_map c) key = None"
  shows "hc_inv (hcache_store key e c)"
proof -
  have f: "key \<notin> fst ` set (hc_map c)" using assms(2) by (simp add: map_of_eq_None_iff)
  then have "AList.update key e (hc_map c) = hc_map c @ [(key, e)]" by (rule update_fresh)
  with assms f show ?thesis by (auto simp: hc_inv_def hcache_store_def gm_ok_def)
qed

text \<open>Expiry and eviction only remove entries.\<close>

lemma remove_cache_le: "map_of (hc_map (remove_cache_locked key c)) \<subseteq>\<^sub>m map_of (hc_map c)"
  by (auto simp: remove_cache_map map_le_def)

lemma expire_cache_le: "map_of (hc_map (expire_cache_locked now c)) \<subseteq>\<^sub>m map_of (hc_map c)"
proof -
  have "map_of (hc_map (foldl (expire_cache_step now) c ps)) \<subseteq>\<^sub>m map_of (hc_map c)" for ps c
  proof (induction ps arbitrary: c)
    case (Cons p ps)
    have "map_of (hc_map (expire_cache_step now c p)) \<subseteq>\<^sub>m map_of (hc_map c)"
      using remove_cache_le by (simp add: expire_cache_step_def)
    with Cons.IH show ?case by (simp only: foldl_Cons) (rule map_le_trans)
  qed simp
  then show ?thesis by (simp add: expire_cache_locked_def)
qed

lemma evict_cache_le: "map_of (hc_map ((hcache_evict ^^ n) c)) \<subseteq>\<^sub>m map_of (hc_map c)"
proof (induction n)
  case (Suc n)
  have "map_of (hc_map ((hcache_evict ^^ Suc n) c)) \<subseteq>\<^sub>m map_of (hc_map ((hcache_evict ^^ n) c))"
    using remove_cache_le by (simp add: hcache_evict_def)
  then show ?case using Suc by (rule map_le_trans)
qed simp

lemma hcache_put_ok:
  assumes ok: "hc_ok c"
  shows "\<exists>c'. hcache_put key status body at tr now1 now2 c = Some c' \<and> hc_ok c' \<and> hc_ttl c' = hc_ttl c
    \<and> (int (length body) \<le> http_cache_bytes \<longrightarrow> map_of (hc_map c') key = Some
         \<lparr>he_status = status, he_body = body, he_collected_at = at, he_expires = now2 + hc_ttl c,
          he_truncated = tr\<rparr>)
    \<and> (\<forall>k e. k \<noteq> key \<longrightarrow> map_of (hc_map c') k = Some e \<longrightarrow> map_of (hc_map c) k = Some e)"
proof (cases "int (length body) > http_cache_bytes")
  case True
  with ok show ?thesis by (simp add: hcache_put_def)
next
  case small: False
  let ?n = "int (length body)"
  let ?x = "expire_cache_locked now1 c"
  let ?r = "if map_of (hc_map ?x) key \<noteq> None then remove_cache_locked key ?x else ?x"
  let ?loop = "while_option (\<lambda>c. hcache_full ?n c \<and> hc_order c \<noteq> []) hcache_evict ?r"
  have x: "hc_inv ?x" "hc_ttl ?x = hc_ttl c" using ok expire_cache_inv by (simp_all add: hc_ok_def)
  have r: "hc_inv ?r" "hc_ttl ?r = hc_ttl c" "map_of (hc_map ?r) key = None"
    using x remove_cache_inv by (simp_all add: remove_cache_map)
  have r_le: "map_of (hc_map ?r) \<subseteq>\<^sub>m map_of (hc_map c)"
    using expire_cache_le [of now1 c] remove_cache_le [of key ?x] by (auto intro: map_le_trans)
  obtain t where t: "?loop = Some t" using hc.evict_terminates [OF r(1)] by blast
  obtain k where k: "t = (hcache_evict ^^ k) ?r" using hc.evict_result(3) [OF r(1) t] by blast
  have inv: "hc_inv t" by (rule hc.evict_result(1) [OF r(1) t])
  have ttl: "hc_ttl t = hc_ttl c" using r(2) by (simp add: k hcache_evict_ttl)
  have none: "map_of (hc_map t) key = None" unfolding k by (rule hcache_evict_other [OF r(3)])
  have le: "map_of (hc_map t) \<subseteq>\<^sub>m map_of (hc_map c)"
    unfolding k using evict_cache_le r_le by (rule map_le_trans)
  have room: "gm_len (hc_map t) < http_cache_entries \<and> hc_bytes t + ?n \<le> http_cache_bytes"
    using hc.evict_result(2) [OF r(1) t] hc_inv_empty [OF inv] small
    by (auto simp: hcache_full_def gm_len_def http_cache_entries_def)
  let ?e = "\<lparr>he_status = status, he_body = body, he_collected_at = at,
    he_expires = now2 + hc_ttl c, he_truncated = tr\<rparr>"
  have eq: "hcache_put key status body at tr now1 now2 c = Some (hcache_store key ?e t)"
    using small t ttl by (simp add: hcache_put_def Let_def)
  have "AList.update key ?e (hc_map t) = hc_map t @ [(key, ?e)]"
    using none by (intro update_fresh) (simp add: map_of_eq_None_iff)
  then have "gm_len (hc_map (hcache_store key ?e t)) \<le> http_cache_entries"
    "hc_bytes (hcache_store key ?e t) \<le> http_cache_bytes"
    using room by (simp_all add: hcache_store_def gm_len_def)
  with hcache_store_inv [OF inv none] have "hc_ok (hcache_store key ?e t)"
    unfolding hc_ok_def by blast
  with eq ttl le show ?thesis
    by (auto simp: hcache_store_def gomap_simps map_le_def dom_def)
qed

lemma hcache_get_ok:
  assumes "hc_ok c"
  shows "hc_ok (snd (hcache_get key now c))" and "hc_ttl (snd (hcache_get key now c)) = hc_ttl c"
    and "map_of (hc_map (snd (hcache_get key now c))) \<subseteq>\<^sub>m map_of (hc_map c)"
  using remove_cache_inv [of c key] assms remove_cache_le [of key c]
  by (auto simp: hcache_get_def hc_ok_def gm_len_def split: option.split)

lemma hcache_stats_ok:
  assumes "hc_ok c"
  shows "hc_ok (snd (hcache_stats now c))" and "hc_ttl (snd (hcache_stats now c)) = hc_ttl c"
    and "map_of (hc_map (snd (hcache_stats now c))) \<subseteq>\<^sub>m map_of (hc_map c)"
  using expire_cache_inv [of c now] assms expire_cache_le [of now c]
  by (auto simp: hcache_stats_def hc_ok_def gm_len_def Let_def)

section \<open>Interleavings\<close>

datatype hcache_op =
    HGet string time
  | HPut string int string time bool time time
  | HStats time

fun hcache_step :: "hcache_op \<Rightarrow> hcache \<Rightarrow> hcache option" where
  "hcache_step (HGet k now) c = Some (snd (hcache_get k now c))"
| "hcache_step (HPut k s b at tr now1 now2) c = hcache_put k s b at tr now1 now2 c"
| "hcache_step (HStats now) c = Some (snd (hcache_stats now c))"

text \<open>The states reachable by steps of any number of callers, with the steps taken, latest first.\<close>

inductive hcache_reach :: "duration \<Rightarrow> hcache_op list \<Rightarrow> hcache \<Rightarrow> bool" for ttl where
  init: "hcache_reach ttl [] (new_hcache ttl)"
| step: "hcache_reach ttl ops c \<Longrightarrow> hcache_step op1 c = Some c' \<Longrightarrow> hcache_reach ttl (op1 # ops) c'"

inductive_cases hcache_reachE: "hcache_reach ttl ops c"

fun last_stored :: "string \<Rightarrow> hcache_op list \<Rightarrow> (int \<times> string \<times> time \<times> bool) option" where
  "last_stored k [] = None"
| "last_stored k (HPut k' s b at tr now1 now2 # ops) =
     (if k = k' \<and> int (length b) \<le> http_cache_bytes then Some (s, b, at, tr) else last_stored k ops)"
| "last_stored k (_ # ops) = last_stored k ops"

definition snapshot_of :: "hcache_entry \<Rightarrow> int \<times> string \<times> time \<times> bool" where
  "snapshot_of e = (he_status e, he_body e, he_collected_at e, he_truncated e)"

lemma hcache_reach_ok:
  "hcache_reach ttl ops c \<Longrightarrow> hc_ok c \<and> hc_ttl c = ttl
     \<and> (\<forall>k e. map_of (hc_map c) k = Some e \<longrightarrow> last_stored k ops = Some (snapshot_of e))"
proof (induction rule: hcache_reach.induct)
  case init
  then show ?case
    by (simp add: new_hcache_def hc_ok_def hc_inv_def gm_len_def http_cache_entries_def http_cache_bytes_def)
next
  case (step ops c op1 c')
  then have ok: "hc_ok c" and ttl: "hc_ttl c = ttl"
    and last: "\<And>k e. map_of (hc_map c) k = Some e \<Longrightarrow> last_stored k ops = Some (snapshot_of e)"
    by blast+
  show ?case
  proof (cases op1)
    case (HGet k now)
    with step(2) hcache_get_ok [OF ok, of k now] ttl last show ?thesis
      by (auto simp: map_le_def dom_def) 
  next
    case (HStats now)
    with step(2) hcache_stats_ok [OF ok, of now] ttl last show ?thesis
      by (auto simp: map_le_def dom_def)
  next
    case (HPut key s b at tr now1 now2)
    obtain c2 where c2: "hcache_put key s b at tr now1 now2 c = Some c2" "hc_ok c2" "hc_ttl c2 = hc_ttl c"
      "int (length b) \<le> http_cache_bytes \<longrightarrow> map_of (hc_map c2) key = Some
         \<lparr>he_status = s, he_body = b, he_collected_at = at, he_expires = now2 + hc_ttl c,
          he_truncated = tr\<rparr>"
      "\<forall>k e. k \<noteq> key \<longrightarrow> map_of (hc_map c2) k = Some e \<longrightarrow> map_of (hc_map c) k = Some e"
      using hcache_put_ok [OF ok] by blast
    have [simp]: "c' = c2" using step(2) c2(1) by (simp add: HPut)
    have "last_stored k (op1 # ops) = Some (snapshot_of e)" if e: "map_of (hc_map c2) k = Some e" for k e
    proof (cases "k = key")
      case True
      show ?thesis
      proof (cases "int (length b) \<le> http_cache_bytes")
        case big: False
        then have "c2 = c" using c2(1) by (simp add: hcache_put_def)
        with e big last show ?thesis by (simp add: HPut)
      qed (use e c2(4) True in \<open>auto simp: HPut snapshot_of_def\<close>)
    next
      case False
      with e c2(5) last show ?thesis by (simp add: HPut)
    qed
    with c2 ttl show ?thesis by simp
  qed
qed

section \<open>Properties\<close>

text \<open>
  Property C9: after any interleaving of steps the response cache holds at most 128 entries and
  32 MiB, its byte counter and its order are exact, and the next step of any caller returns.
\<close>
theorem response_cache_bounded:
  assumes "hcache_reach ttl ops c"
  shows "hc_inv c \<and> gm_len (hc_map c) \<le> 128 \<and> hc_bytes c \<le> 33554432 \<and> hcache_step op1 c \<noteq> None"
proof -
  have ok: "hc_ok c" using hcache_reach_ok [OF assms] by blast
  then have "hcache_step op1 c \<noteq> None" using hcache_put_ok [OF ok] by (cases op1) force+
  with ok show ?thesis
    by (simp add: hc_ok_def http_cache_entries_def http_cache_bytes_def)
qed

lemma reach_example:
  "\<exists>c. hcache_reach second [HPut ''k'' 200 ''body'' 5 False 6 7] c"
proof -
  have "hc_ok (new_hcache second)" using hcache_reach_ok [OF hcache_reach.init] by blast
  then obtain c where "hcache_step (HPut ''k'' 200 ''body'' 5 False 6 7) (new_hcache second) = Some c"
    using hcache_put_ok [of "new_hcache second" "''k''" 200 "''body''" 5 False 6 7]
    unfolding hcache_step.simps by blast
  then show ?thesis using hcache_reach.step [OF hcache_reach.init] by blast
qed

lemma response_cache_bounded_witness:
  "\<exists>c. hcache_reach second [HPut ''k'' 200 ''body'' 5 False 6 7] c \<and> gm_len (hc_map c) \<le> 128"
  using reach_example response_cache_bounded by blast

text \<open>
  Property C20: a cache hit gives the status, body, collection time and truncation mark of the
  latest response stored under that key, and the entry has not passed its expiry.
\<close>
theorem response_cache_hit_is_last_stored:
  assumes "hcache_reach ttl ops c" and "fst (hcache_get key now c) = Some e"
  shows "last_stored key ops = Some (snapshot_of e) \<and> now \<le> he_expires e"
proof -
  have "map_of (hc_map c) key = Some e \<and> now \<le> he_expires e"
  proof (cases "map_of (hc_map c) key")
    case None
    with assms(2) show ?thesis by (simp add: hcache_get_def)
  next
    case (Some e')
    with assms(2) show ?thesis by (cases "now > he_expires e'") (simp_all add: hcache_get_def)
  qed
  with hcache_reach_ok [OF assms(1)] show ?thesis by blast
qed

lemma response_cache_hit_is_last_stored_witness:
  "\<exists>c e. hcache_reach second [HPut ''k'' 200 ''body'' 5 False 6 7] c
     \<and> fst (hcache_get ''k'' 8 c) = Some e \<and> snapshot_of e = (200, ''body'', 5, False)"
proof -
  obtain c where c: "hcache_reach second [HPut ''k'' 200 ''body'' 5 False 6 7] c"
    using reach_example by blast
  let ?e = "\<lparr>he_status = 200, he_body = ''body'', he_collected_at = 5, he_expires = 7 + second,
    he_truncated = False\<rparr>"
  have "hcache_step (HPut ''k'' 200 ''body'' 5 False 6 7) (new_hcache second) = Some c"
    using c by (auto elim!: hcache_reachE)
  moreover have "hc_ok (new_hcache second)" using hcache_reach_ok [OF hcache_reach.init] by blast
  ultimately have "map_of (hc_map c) ''k'' = Some ?e"
    using hcache_put_ok [of "new_hcache second" "''k''" 200 "''body''" 5 False 6 7]
    by (auto simp: http_cache_bytes_def new_hcache_def)
  then have "fst (hcache_get ''k'' 8 c) = Some ?e" by (simp add: hcache_get_def second_def)
  from response_cache_hit_is_last_stored [OF c this] this c show ?thesis
    by (auto simp: snapshot_of_def)
qed

end
