(* ===== verification/HttpClient.thy ===== *)
theory HttpClient
  imports HttpCache
begin

text \<open>
  The locked GET client (\<open>internal/httpx/client.go\<close>, \<open>requestinfo.go\<close>): registration of the
  destinations at startup, composition of the request, \<open>Get\<close> with the response cache, the
  collection time of a response and the per-collection cache record. \<open>url.Parse\<close>, HMAC-SHA256, the
  time format of the internal header and request construction are fields of \<open>http_env\<close>; the network
  is the argument \<open>send\<close>. Lemmas: a request leaves only for the scheme, host and path prefix of a
  registered destination and has no dot segment; a remote server cannot choose the collection
  time; a response and its later cache hits agree.
\<close>

section \<open>Destinations\<close>

record base_url =
  bs_scheme :: string
  bs_host :: string
  bs_path :: string

record request =
  rq_scheme :: string
  rq_host :: string
  rq_path :: string
  rq_query :: string
  rq_headers :: "(string, string) gomap"

record http_env =
  hx_unicode :: unicode
  hx_url :: "string \<Rightarrow> url option"
  hx_mac :: "string \<Rightarrow> string \<Rightarrow> string"
  hx_format_nano :: "time \<Rightarrow> string"
  hx_parse_nano :: "string \<Rightarrow> time option"
  hx_valid_request :: "request \<Rightarrow> bool"

record http_client =
  ht_destinations :: "(string, base_url) gomap"
  ht_max_body :: int
  ht_user_agent :: string
  ht_cache :: hcache
  ht_cache_key :: string
  ht_hits :: "64 word"
  ht_misses :: "64 word"

text \<open>\<open>NewLockedClient\<close>: without random bytes for the fingerprint key the cache is off.\<close>

definition new_locked_client ::
  "int \<Rightarrow> string \<Rightarrow> duration \<Rightarrow> string option \<Rightarrow> http_client" where
  "new_locked_client max_body user_agent cache_ttl random_key =
     \<lparr>ht_destinations = [],
      ht_max_body = (if max_body \<le> 0 then default_max_body else max_body),
      ht_user_agent = (if user_agent = [] then ''homelab-evidence-mcp/0.1'' else user_agent),
      ht_cache = new_hcache (if random_key = None then 0 else cache_ttl),
      ht_cache_key = (case random_key of None \<Rightarrow> replicate 32 (CHR 0x00) | Some k \<Rightarrow> k),
      ht_hits = 0, ht_misses = 0\<rparr>"

datatype http_error =
    DestNameRequired | DestParse | DestScheme | DestHost | DestUserinfo | DestQuery | DestPath
  | DestDuplicate
  | ContextDone string | PathNoSlash | PathTooLong | UnknownDestination | PathUnparsable
  | PathAbsolute | PathFragment | PathInvalid | HostMismatch | RequestConstruction
  | NetRedirect | NetTimeout | NetFailed | BodyRead | BodyTooLarge

definition invalid_path :: "string \<Rightarrow> bool" where
  "invalid_path path =
     (if CHR 0x5C \<in> set path then True
      else if list_ex is_control (runes path) then True
      else list_ex (\<lambda>segment. segment = ''.'' \<or> segment = ''..'') (split_on (CHR ''/'') path))"

definition join_url_path :: "string \<Rightarrow> string \<Rightarrow> string" where
  "join_url_path base rel =
     (let base = trim_right_char (CHR ''/'') base;
          rel = (if has_prefix rel ''/'' then rel else CHR ''/'' # rel)
      in if base = [] then rel else base @ rel)"

definition register_destination ::
  "http_env \<Rightarrow> string \<Rightarrow> string \<Rightarrow> http_client \<Rightarrow> http_error + http_client" where
  "register_destination env name raw c =
     (if name = [] then Inl DestNameRequired
      else (case hx_url env raw of
         None \<Rightarrow> Inl DestParse
       | Some u \<Rightarrow>
           if ur_scheme u \<noteq> ''http'' \<and> ur_scheme u \<noteq> ''https'' then Inl DestScheme
           else if ur_host u = [] then Inl DestHost
           else if ur_user u then Inl DestUserinfo
           else if ur_raw_query u \<noteq> [] \<or> ur_fragment u \<noteq> [] then Inl DestQuery
           else if rune_count raw > 4096 \<or> invalid_path (ur_path u) then Inl DestPath
           else (let base = \<lparr>bs_scheme = ur_scheme u, bs_host = ur_host u,
                             bs_path = trim_right_char (CHR ''/'') (ur_path u)\<rparr>
                 in if map_of (ht_destinations c) name \<noteq> None then Inl DestDuplicate
                    else Inr (c\<lparr>ht_destinations := AList.update name base (ht_destinations c)\<rparr>))))"

section \<open>Fingerprints\<close>

definition keyed_fingerprint :: "http_env \<Rightarrow> string \<Rightarrow> string \<Rightarrow> string \<Rightarrow> string" where
  "keyed_fingerprint env label val key =
     ''<keyed:'' @ hex_string (take 12 (hx_mac env key (label @ [CHR 0x00] @ val))) @ ''>''"

definition header_fingerprint :: "http_env \<Rightarrow> (string, string) gomap \<Rightarrow> string \<Rightarrow> string" where
  "header_fingerprint env h key =
     (if h = [] then []
      else str_join ''&'' (sort (map (\<lambda>(k, v).
             let lk = to_lower (hx_unicode env) (trim_space k)
             in lk @ ''='' @ keyed_fingerprint env lk v key) h)))"

definition request_cache_key ::
  "http_env \<Rightarrow> string \<Rightarrow> string \<Rightarrow> (string, string) gomap \<Rightarrow> string \<Rightarrow> string" where
  "request_cache_key env dest path headers key =
     dest @ [CHR 0x0A] @ keyed_fingerprint env ''path'' path key @ [CHR 0x0A]
       @ header_fingerprint env headers key"

section \<open>The request\<close>

text \<open>The checks of \<open>Get\<close> up to the composed URL, in order.\<close>

definition compose_url ::
  "http_env \<Rightarrow> http_client \<Rightarrow> string option \<Rightarrow> string \<Rightarrow> string \<Rightarrow> http_error + request" where
  "compose_url env c ctx_err dest path =
     (case ctx_err of Some err \<Rightarrow> Inl (ContextDone err)
      | None \<Rightarrow>
        if \<not> has_prefix path ''/'' then Inl PathNoSlash
        else if length path > 8192 then Inl PathTooLong
        else (case map_of (ht_destinations c) dest of
           None \<Rightarrow> Inl UnknownDestination
         | Some base \<Rightarrow>
           (case hx_url env path of
              None \<Rightarrow> Inl PathUnparsable
            | Some rel \<Rightarrow>
                if ur_scheme rel \<noteq> [] \<or> ur_host rel \<noteq> [] then Inl PathAbsolute
                else if ur_fragment rel \<noteq> [] then Inl PathFragment
                else if has_prefix (ur_path rel) ''//'' \<or> invalid_path (ur_path rel)
                then Inl PathInvalid
                else (let full = \<lparr>rq_scheme = bs_scheme base, rq_host = bs_host base,
                        rq_path = join_url_path (bs_path base) (ur_path rel),
                        rq_query = ur_raw_query rel, rq_headers = []\<rparr>
                      in if rq_scheme full \<noteq> bs_scheme base \<or> rq_host full \<noteq> bs_host base
                         then Inl HostMismatch else Inr full))))"

definition request_headers ::
  "http_env \<Rightarrow> string \<Rightarrow> (string, string) gomap \<Rightarrow> (string, string) gomap" where
  "request_headers env user_agent headers =
     fold (\<lambda>(k, v) out.
        let canonical = canonical_mime (trim_space k); lk = to_lower (hx_unicode env) canonical
        in if lk = ''host'' then out
           else if lk = ''authorization'' \<and> trim_space v = [] then out
           else AList.update canonical v out)
       headers [(''User-Agent'', user_agent), (''Accept'', ''application/json'')]"

section \<open>The record of cache use\<close>

record request_info =
  ri_requests :: int
  ri_hits :: int
  ri_misses :: int
  ri_disabled :: bool
  ri_oldest :: time

definition new_request_info :: request_info where
  "new_request_info = \<lparr>ri_requests = 0, ri_hits = 0, ri_misses = 0, ri_disabled = False, ri_oldest = 0\<rparr>"

definition record_hit :: "time \<Rightarrow> request_info \<Rightarrow> request_info" where
  "record_hit at i = i\<lparr>ri_requests := ri_requests i + 1, ri_hits := ri_hits i + 1,
     ri_oldest := (if ri_oldest i = 0 \<or> at < ri_oldest i then at else ri_oldest i)\<rparr>"

definition record_miss :: "request_info \<Rightarrow> request_info" where
  "record_miss i = i\<lparr>ri_requests := ri_requests i + 1, ri_misses := ri_misses i + 1\<rparr>"

definition record_disabled :: "request_info \<Rightarrow> request_info" where
  "record_disabled i = i\<lparr>ri_disabled := True\<rparr>"

definition info_snapshot :: "time \<Rightarrow> request_info option \<Rightarrow> string \<times> int" where
  "info_snapshot now info = (case info of
     None \<Rightarrow> ([], 0)
   | Some i \<Rightarrow>
       if ri_requests i = 0 \<and> ri_disabled i then (''disabled'', 0)
       else if ri_requests i = 0 then ([], 0)
       else if ri_hits i = ri_requests i then
         (let age = time_sub now (ri_oldest i); age = (if age < 0 then 0 else age)
          in (''hit'', age div second))
       else (''miss'', 0))"

section \<open>Get\<close>

definition cache_time_header :: string where "cache_time_header = ''X-Homelab-Evidence-Cache-Time''"
definition upstream_truncated_header :: string where
  "upstream_truncated_header = ''X-Messages-Truncated''"

record response =
  rp_status :: int
  rp_headers :: "(string, string) gomap"

definition header_get :: "(string, string) gomap \<Rightarrow> string \<Rightarrow> string" where
  "header_get h name = (case map_of h name of None \<Rightarrow> [] | Some v \<Rightarrow> v)"

definition header_flag :: "unicode \<Rightarrow> (string, string) gomap \<Rightarrow> string \<Rightarrow> bool" where
  "header_flag uc h name =
     (let val = trim_space (header_get h name) in val = ''1'' \<or> equal_fold uc val ''true'')"

definition upstream_truncated :: "unicode \<Rightarrow> response option \<Rightarrow> bool" where
  "upstream_truncated uc resp = (case resp of
     None \<Rightarrow> False | Some r \<Rightarrow> header_flag uc (rp_headers r) upstream_truncated_header)"

text \<open>What \<open>http.Client.Do\<close> gives: an error with what \<open>errors.Is/As\<close> tell of it, or a response whose
  body read either fails or gives the bytes.\<close>

record net_error =
  ne_redirect :: bool
  ne_text :: string
  ne_deadline :: bool
  ne_timeout :: bool

type_synonym raw_response = "int \<times> (string, string) gomap \<times> (string + string)"
type_synonym network = "request \<Rightarrow> net_error + raw_response"

definition sanitize_net_err :: "net_error \<Rightarrow> http_error" where
  "sanitize_net_err e =
     (if ne_redirect e \<or> str_contains (ne_text e) ''redirect'' then NetRedirect
      else if ne_deadline e then NetTimeout
      else if ne_timeout e then NetTimeout else NetFailed)"

record get_out =
  go_resp :: "response option"
  go_body :: string
  go_err :: "http_error option"

text \<open>The clock readings of one call: cache lookup, end of the body read, the two of \<open>cachePut\<close>.\<close>

record get_clock =
  gk_lookup :: time
  gk_read :: time
  gk_expire :: time
  gk_store :: time

definition fetch ::
  "http_env \<Rightarrow> network \<Rightarrow> get_clock \<Rightarrow> request \<Rightarrow> (string, string) gomap \<Rightarrow> string \<Rightarrow> http_client
     \<Rightarrow> (get_out \<times> http_client) option" where
  "fetch env send clk full headers key c =
     (let req = full\<lparr>rq_headers := request_headers env (ht_user_agent c) headers\<rparr>
      in if \<not> hx_valid_request env full
         then Some (\<lparr>go_resp = None, go_body = [], go_err = Some RequestConstruction\<rparr>, c)
         else (case send req of
           Inl err \<Rightarrow> Some (\<lparr>go_resp = None, go_body = [], go_err = Some (sanitize_net_err err)\<rparr>, c)
         | Inr (status, hs, body) \<Rightarrow>
            (let hs = AList.delete cache_time_header hs
             in case limit_reader (nat (ht_max_body c + 1)) body of
                  Inl err \<Rightarrow> Some (\<lparr>go_resp = Some \<lparr>rp_status = status, rp_headers = hs\<rparr>,
                    go_body = [], go_err = Some BodyRead\<rparr>, c)
                | Inr b \<Rightarrow>
                   if int (length b) > ht_max_body c
                   then Some (\<lparr>go_resp = Some \<lparr>rp_status = status, rp_headers = hs\<rparr>,
                     go_body = take (nat (ht_max_body c)) b, go_err = Some BodyTooLarge\<rparr>, c)
                   else (let at = gk_read clk;
                             hs = AList.update cache_time_header (hx_format_nano env at) hs;
                             out = \<lparr>go_resp = Some \<lparr>rp_status = status, rp_headers = hs\<rparr>,
                                    go_body = b, go_err = None\<rparr>
                         in if hc_ttl (ht_cache c) > 0 \<and> status = 200
                            then map_option (\<lambda>cache. (out, c\<lparr>ht_cache := cache\<rparr>))
                              (hcache_put key status b at
                                (header_flag (hx_unicode env) hs upstream_truncated_header)
                                (gk_expire clk) (gk_store clk) (ht_cache c))
                            else Some (out, c)))))"

definition http_get ::
  "http_env \<Rightarrow> network \<Rightarrow> get_clock \<Rightarrow> string option \<Rightarrow> string \<Rightarrow> string \<Rightarrow> (string, string) gomap
     \<Rightarrow> http_client \<times> request_info option \<Rightarrow> (get_out \<times> http_client \<times> request_info option) option" where
  "http_get env send clk ctx_err dest path headers s =
     (let (c, info) = s in
      case compose_url env c ctx_err dest path of
        Inl err \<Rightarrow> Some (\<lparr>go_resp = None, go_body = [], go_err = Some err\<rparr>, c, info)
      | Inr full \<Rightarrow>
         (let key = request_cache_key env dest path headers (ht_cache_key c)
          in if hc_ttl (ht_cache c) > 0 then
               (case hcache_get key (gk_lookup clk) (ht_cache c) of
                  (Some e, cache) \<Rightarrow>
                    Some (\<lparr>go_resp = Some \<lparr>rp_status = he_status e,
                            rp_headers = (cache_time_header, hx_format_nano env (he_collected_at e))
                              # (if he_truncated e then [(upstream_truncated_header, ''1'')] else [])\<rparr>,
                           go_body = he_body e, go_err = None\<rparr>,
                          c\<lparr>ht_cache := cache, ht_hits := ht_hits c + 1\<rparr>,
                          map_option (record_hit (he_collected_at e)) info)
                | (None, cache) \<Rightarrow>
                    map_option (\<lambda>(out, c). (out, c, map_option record_miss info))
                      (fetch env send clk full headers key
                        (c\<lparr>ht_cache := cache, ht_misses := ht_misses c + 1\<rparr>)))
             else map_option (\<lambda>(out, c). (out, c, map_option record_disabled info))
                    (fetch env send clk full headers key c)))"

definition collection_time :: "http_env \<Rightarrow> response option \<Rightarrow> time \<Rightarrow> time" where
  "collection_time env resp fallback = (case resp of
     None \<Rightarrow> fallback
   | Some r \<Rightarrow>
       (let raw = header_get (rp_headers r) cache_time_header
        in if raw = [] then fallback
           else (case hx_parse_nano env raw of None \<Rightarrow> fallback | Some t \<Rightarrow> t)))"

section \<open>Paths\<close>

lemma slash_ascii: "of_char (CHR ''/'') < (128 :: nat)"
  by simp

lemma invalid_path_append:
  "invalid_path (a @ CHR ''/'' # b) \<longleftrightarrow> invalid_path a \<or> invalid_path b"
proof -
  have r: "runes (a @ CHR ''/'' # b) = runes a @ 47 # runes b"
    by (simp add: runes_append_ascii runes_ascii_Cons)
  have "\<not> is_control 47" by (simp add: is_control_def)
  then show ?thesis by (auto simp: invalid_path_def r split_on_append)
qed

lemma invalid_path_Nil [simp]: "\<not> invalid_path []"
  by (simp add: invalid_path_def)

lemma invalid_path_trim: "\<not> invalid_path p \<Longrightarrow> \<not> invalid_path (trim_right_char (CHR ''/'') p)"
proof -
  assume p: "\<not> invalid_path p"
  obtain n where n: "p = trim_right_char (CHR ''/'') p @ replicate n (CHR ''/'')"
    using trim_right_char_split by blast
  show ?thesis
  proof (cases n)
    case 0
    with n p show ?thesis by simp
  next
    case (Suc m)
    then have "p = trim_right_char (CHR ''/'') p @ CHR ''/'' # replicate m (CHR ''/'')" using n by simp
    with p show ?thesis using invalid_path_append by metis
  qed
qed

lemma join_url_path_ok:
  assumes "\<not> invalid_path base" and "\<not> invalid_path rel"
    and "base = [] \<or> last base \<noteq> CHR ''/''"
  shows "prefix base (join_url_path base rel) \<and> \<not> invalid_path (join_url_path base rel)"
proof -
  have trim: "trim_right_char (CHR ''/'') base = base"
    using assms(3) by (cases base rule: rev_cases) (simp_all add: trim_right_char_def)
  obtain r where r: "(if has_prefix rel ''/'' then rel else CHR ''/'' # rel) = CHR ''/'' # r"
    "\<not> invalid_path r"
  proof (cases "has_prefix rel ''/''")
    case True
    then obtain r where rel: "rel = CHR ''/'' # r" by (auto simp: has_prefix_def prefix_def)
    then have "\<not> invalid_path r" using invalid_path_append [of "[]" r] assms(2) by simp
    with rel True show ?thesis using that by simp
  qed (use that assms(2) in simp)
  then have "join_url_path base rel = base @ CHR ''/'' # r"
    by (simp add: join_url_path_def Let_def trim)
  with r(2) assms(1) show ?thesis by (simp add: invalid_path_append)
qed

section \<open>Locked requests\<close>

definition locked :: "http_client \<Rightarrow> string \<Rightarrow> request \<Rightarrow> bool" where
  "locked c dest rq \<longleftrightarrow> (\<exists>base. map_of (ht_destinations c) dest = Some base
     \<and> rq_scheme rq = bs_scheme base \<and> rq_host rq = bs_host base
     \<and> prefix (bs_path base) (rq_path rq) \<and> \<not> invalid_path (rq_path rq))"

definition dests_ok :: "http_client \<Rightarrow> bool" where
  "dests_ok c \<longleftrightarrow> (\<forall>(n, b) \<in> set (ht_destinations c).
     bs_scheme b \<in> {''http'', ''https''} \<and> bs_host b \<noteq> [] \<and> \<not> invalid_path (bs_path b)
     \<and> (bs_path b = [] \<or> last (bs_path b) \<noteq> CHR ''/''))"

lemma register_destination_ok:
  assumes "register_destination env name raw c = Inr c'" and "dests_ok c"
  shows "dests_ok c' \<and> map_of (ht_destinations c) \<subseteq>\<^sub>m map_of (ht_destinations c')
    \<and> ht_cache c' = ht_cache c"
proof -
  obtain u where u: "hx_url env raw = Some u" "ur_scheme u \<in> {''http'', ''https''}" "ur_host u \<noteq> []"
    "\<not> invalid_path (ur_path u)" "map_of (ht_destinations c) name = None"
    "c' = c\<lparr>ht_destinations := AList.update name \<lparr>bs_scheme = ur_scheme u, bs_host = ur_host u,
        bs_path = trim_right_char (CHR ''/'') (ur_path u)\<rparr> (ht_destinations c)\<rparr>"
    using assms(1) by (auto simp: register_destination_def Let_def split: if_splits option.splits)
  have path: "\<not> invalid_path (trim_right_char (CHR ''/'') (ur_path u))"
    by (rule invalid_path_trim [OF u(4)])
  have "dests_ok c'"
    using assms(2) u(2,3) path trim_right_char_last
    by (auto simp: dests_ok_def u(6) dest!: set_update_cases)
  with u(5) show ?thesis by (auto simp: u(6) gomap_simps map_le_def)
qed

lemma compose_url_locked:
  assumes "dests_ok c" and "compose_url env c ctx_err dest path = Inr rq"
  shows "locked c dest rq"
proof -
  obtain base rel where b: "map_of (ht_destinations c) dest = Some base" "hx_url env path = Some rel"
    "\<not> invalid_path (ur_path rel)"
    "rq = \<lparr>rq_scheme = bs_scheme base, rq_host = bs_host base,
           rq_path = join_url_path (bs_path base) (ur_path rel), rq_query = ur_raw_query rel,
           rq_headers = []\<rparr>"
    using assms(2) by (auto simp: compose_url_def Let_def split: if_splits option.splits)
  have "\<not> invalid_path (bs_path base)" "bs_path base = [] \<or> last (bs_path base) \<noteq> CHR ''/''"
    using assms(1) map_of_SomeD [OF b(1)] by (auto simp: dests_ok_def)
  from join_url_path_ok [OF this(1) b(3) this(2)] b(1) show ?thesis
    by (auto simp: locked_def b(4))
qed

section \<open>One call\<close>

lemma fetch_destinations:
  "fetch env send clk full headers key c = Some (out, c') \<Longrightarrow> ht_destinations c' = ht_destinations c"
  by (auto simp: fetch_def Let_def split: if_splits sum.splits)

lemma fetch_returns:
  assumes "hc_ok (ht_cache c)"
  shows "\<exists>out c'. fetch env send clk full headers key c = Some (out, c') \<and> hc_ok (ht_cache c')"
proof -
  let ?req = "full\<lparr>rq_headers := request_headers env (ht_user_agent c) headers\<rparr>"
  have put: "\<exists>k. hcache_put key st b at tr now1 now2 (ht_cache c) = Some k \<and> hc_ok k" for st b at tr now1 now2
    using hcache_put_ok [OF assms] by blast
  show ?thesis
  proof (cases "send ?req")
    case (Inl err)
    with assms show ?thesis by (simp add: fetch_def)
  next
    case (Inr r)
    obtain status hs body where r: "r = (status, hs, body)" by (metis prod_cases3)
    show ?thesis
    proof (cases "limit_reader (nat (ht_max_body c + 1)) body")
      case l: (Inl err)
      with assms Inr show ?thesis by (simp add: fetch_def r)
    next
      case l: (Inr b)
      define hs' where "hs' = AList.update cache_time_header (hx_format_nano env (gk_read clk))
        (AList.delete cache_time_header hs)"
      obtain k where k: "hcache_put key status b (gk_read clk)
          (header_flag (hx_unicode env) hs' upstream_truncated_header)
          (gk_expire clk) (gk_store clk) (ht_cache c) = Some k" "hc_ok k"
        using put by blast
      show ?thesis using k assms Inr l
        by (cases "status = 200") (auto simp: fetch_def r Let_def simp flip: hs'_def)
    qed
  qed
qed

lemma http_get_returns:
  assumes "hc_ok (ht_cache c)"
  shows "\<exists>out c' info'. http_get env send clk ctx_err dest path headers (c, info) = Some (out, c', info')
    \<and> hc_ok (ht_cache c') \<and> ht_destinations c' = ht_destinations c"
proof (cases "compose_url env c ctx_err dest path")
  case (Inl e)
  with assms show ?thesis by (simp add: http_get_def)
next
  case (Inr full)
  let ?key = "request_cache_key env dest path headers (ht_cache_key c)"
  obtain r cache where g: "hcache_get ?key (gk_lookup clk) (ht_cache c) = (r, cache)" by fastforce
  have ok: "hc_ok cache" using hcache_get_ok(1) [OF assms, of ?key "gk_lookup clk"] g by simp
  let ?c = "c\<lparr>ht_cache := cache, ht_misses := ht_misses c + 1\<rparr>"
  obtain o1 c1 where m: "fetch env send clk full headers ?key ?c = Some (o1, c1)" "hc_ok (ht_cache c1)"
    using fetch_returns [of ?c env send clk full headers ?key] ok by auto
  obtain o2 c2 where d: "fetch env send clk full headers ?key c = Some (o2, c2)" "hc_ok (ht_cache c2)"
    using fetch_returns [OF assms] by blast
  show ?thesis
    using Inr g ok m d fetch_destinations [OF m(1)] fetch_destinations [OF d(1)]
    by (cases r) (simp_all add: http_get_def Let_def)
qed

text \<open>The states of a client: registrations at startup and calls with any network and clock.\<close>

inductive client_reach :: "http_env \<Rightarrow> http_client \<Rightarrow> bool" for env where
  start: "client_reach env (new_locked_client mb ua ttl rnd)"
| register: "client_reach env c \<Longrightarrow> register_destination env name raw c = Inr c' \<Longrightarrow> client_reach env c'"
| get: "client_reach env c \<Longrightarrow>
    http_get env send clk ctx_err dest path headers (c, info) = Some (out, c', info') \<Longrightarrow>
    client_reach env c'"

lemma client_reach_ok: "client_reach env c \<Longrightarrow> dests_ok c \<and> hc_ok (ht_cache c)"
proof (induction rule: client_reach.induct)
  case (start mb ua ttl rnd)
  then show ?case
    by (simp add: new_locked_client_def dests_ok_def new_hcache_def hc_ok_def hc_inv_def gm_len_def
        http_cache_entries_def http_cache_bytes_def)
next
  case (register c name raw c')
  then show ?case using register_destination_ok by metis
next
  case (get c send clk ctx_err dest path headers info out c' info')
  have "hc_ok (ht_cache c') \<and> ht_destinations c' = ht_destinations c"
    using http_get_returns [of c env send clk ctx_err dest path headers info] get by auto
  with get show ?case by (simp add: dests_ok_def)
qed

section \<open>Properties\<close>

text \<open>
  Property C2: a call can only talk to its destination: for a reachable client, two networks that
  agree on the requests locked to the named destination (its scheme, its host, below its path
  prefix, no dot segment, backslash or control character) give the same result, so no other
  request is ever sent, whatever the path and headers are.
\<close>
theorem get_stays_locked:
  assumes "client_reach env c"
    and agree: "\<And>rq. locked c dest rq \<Longrightarrow> send1 rq = send2 rq"
  shows "http_get env send1 clk ctx_err dest path headers (c, info)
    = http_get env send2 clk ctx_err dest path headers (c, info)"
proof (cases "compose_url env c ctx_err dest path")
  case (Inr full)
  have "locked c dest full"
    using compose_url_locked [OF _ Inr] client_reach_ok [OF assms(1)] by blast
  then have "send1 (full\<lparr>rq_headers := hs\<rparr>) = send2 (full\<lparr>rq_headers := hs\<rparr>)" for hs
    by (intro agree) (simp add: locked_def)
  then have eq: "fetch env send1 clk full headers = fetch env send2 clk full headers"
    by (intro ext) (simp add: fetch_def)
  show ?thesis unfolding http_get_def Inr Let_def prod.case sum.case eq ..
qed (simp add: http_get_def)

definition example_http_env :: http_env where
  "example_http_env = \<lparr>hx_unicode = ascii_tables,
     hx_url = (\<lambda>s. Some \<lparr>ur_scheme = (if s = ''/x'' then [] else ''http''), ur_opaque = [], ur_user = False,
        ur_host = (if s = ''/x'' then [] else ''h''), ur_path = (if s = ''/x'' then s else []),
        ur_raw_query = [], ur_fragment = []\<rparr>),
     hx_mac = (\<lambda>k m. m), hx_format_nano = (\<lambda>t. ''t''), hx_parse_nano = (\<lambda>s. Some 7),
     hx_valid_request = (\<lambda>r. True)\<rparr>"

definition example_client :: http_client where
  "example_client = (new_locked_client 0 [] minute (Some ''k''))
     \<lparr>ht_destinations := [(''d'', \<lparr>bs_scheme = ''http'', bs_host = ''h'', bs_path = []\<rparr>)]\<rparr>"

lemma example_client_reach: "client_reach example_http_env example_client"
proof -
  have "rune_count ''u'' = 1" by (simp add: ascii_eval)
  then have "register_destination example_http_env ''d'' ''u'' (new_locked_client 0 [] minute (Some ''k''))
      = Inr example_client"
    by (simp add: register_destination_def example_http_env_def example_client_def Let_def
        new_locked_client_def trim_right_char_def)
  then show ?thesis by (rule client_reach.register [OF client_reach.start])
qed

lemma get_stays_locked_witness:
  "http_get example_http_env (\<lambda>rq. if locked example_client ''d'' rq
        then Inr (200, [], Inr ''body'') else Inr (500, [], Inr []))
      \<lparr>gk_lookup = 1, gk_read = 7, gk_expire = 7, gk_store = 7\<rparr> None ''d'' ''/x'' [] (example_client, None)
   = http_get example_http_env (\<lambda>rq. Inr (200, [], Inr ''body''))
      \<lparr>gk_lookup = 1, gk_read = 7, gk_expire = 7, gk_store = 7\<rparr> None ''d'' ''/x'' [] (example_client, None)"
  by (rule get_stays_locked [OF example_client_reach]) simp

text \<open>What a call without an error returns and leaves in the cache.\<close>

lemma fetch_success:
  assumes "fetch env send clk full headers key c = Some (out, c')" and "go_err out = None"
  shows "\<exists>r. go_resp out = Some r
    \<and> map_of (rp_headers r) cache_time_header = Some (hx_format_nano env (gk_read clk))
    \<and> int (length (go_body out)) \<le> ht_max_body c
    \<and> (hc_ttl (ht_cache c) > 0 \<and> rp_status r = 200 \<longrightarrow>
        (\<exists>tr. hcache_put key 200 (go_body out) (gk_read clk) tr (gk_expire clk) (gk_store clk)
           (ht_cache c) = Some (ht_cache c') \<and> c' = c\<lparr>ht_cache := ht_cache c'\<rparr>))"
proof -
  let ?req = "full\<lparr>rq_headers := request_headers env (ht_user_agent c) headers\<rparr>"
  obtain status hs body where send: "send ?req = Inr (status, hs, body)"
    using assms by (cases "send ?req") (auto simp: fetch_def split: if_splits)
  obtain b where b: "limit_reader (nat (ht_max_body c + 1)) body = Inr b"
    using assms send
    by (cases "limit_reader (nat (ht_max_body c + 1)) body") (auto simp: fetch_def Let_def split: if_splits)
  have small: "int (length b) \<le> ht_max_body c"
    using assms send b by (auto simp: fetch_def Let_def split: if_splits)
  define hs' where "hs' = AList.update cache_time_header (hx_format_nano env (gk_read clk))
    (AList.delete cache_time_header hs)"
  have lookup: "map_of hs' cache_time_header = Some (hx_format_nano env (gk_read clk))"
    by (simp add: hs'_def gomap_simps)
  have out: "out = \<lparr>go_resp = Some \<lparr>rp_status = status, rp_headers = hs'\<rparr>, go_body = b, go_err = None\<rparr>"
    and put: "hc_ttl (ht_cache c) > 0 \<and> status = 200 \<Longrightarrow>
      \<exists>tr k. hcache_put key 200 b (gk_read clk) tr (gk_expire clk) (gk_store clk) (ht_cache c) = Some k
        \<and> c' = c\<lparr>ht_cache := k\<rparr>"
    using assms send b small by (auto simp: fetch_def Let_def hs'_def split: if_splits)
  have stored: "\<exists>tr. hcache_put key 200 b (gk_read clk) tr (gk_expire clk) (gk_store clk)
      (ht_cache c) = Some (ht_cache c') \<and> c' = c\<lparr>ht_cache := ht_cache c'\<rparr>"
    if h: "hc_ttl (ht_cache c) > 0" "status = 200"
  proof -
    obtain tr k where "hcache_put key 200 b (gk_read clk) tr (gk_expire clk) (gk_store clk) (ht_cache c)
        = Some k" "c' = c\<lparr>ht_cache := k\<rparr>"
      using put [OF conjI [OF h]] by blast
    then show ?thesis by (intro exI [of _ tr]) simp
  qed
  show ?thesis using lookup small stored by (simp add: out)
qed

text \<open>
  Property C19: the collection time that adapters read from a response is the program's own clock,
  whatever headers the remote server sent: the reading taken after the body of this response, or
  the collection time stored with the snapshot that the cache returned.
\<close>
theorem collection_time_is_ours:
  assumes fmt: "\<And>t. hx_format_nano env t \<noteq> [] \<and> hx_parse_nano env (hx_format_nano env t) = Some t"
    and "http_get env send clk ctx_err dest path headers (c, info) = Some (out, c', info')"
    and "go_err out = None"
  shows "collection_time env (go_resp out) fallback = gk_read clk
    \<or> (\<exists>key e. map_of (hc_map (ht_cache c)) key = Some e
         \<and> collection_time env (go_resp out) fallback = he_collected_at e \<and> go_body out = he_body e)"
proof -
  have direct: "collection_time env (go_resp o1) fallback = gk_read clk"
    if "fetch env send clk full headers key k = Some (o1, c1)" "go_err o1 = None" for full key k o1 c1
    using fetch_success [OF that] fmt by (auto simp: collection_time_def header_get_def)
  obtain full where full: "compose_url env c ctx_err dest path = Inr full"
    using assms(2,3) by (cases "compose_url env c ctx_err dest path") (auto simp: http_get_def)
  let ?key = "request_cache_key env dest path headers (ht_cache_key c)"
  obtain r cache where g: "hcache_get ?key (gk_lookup clk) (ht_cache c) = (r, cache)" by fastforce
  show ?thesis
  proof (cases "hc_ttl (ht_cache c) > 0 \<and> r \<noteq> None")
    case True
    then obtain e where e: "r = Some e" by blast
    have "map_of (hc_map (ht_cache c)) ?key = Some e"
      using g e by (auto simp: hcache_get_def split: option.splits if_splits)
    moreover have "collection_time env (go_resp out) fallback = he_collected_at e \<and> go_body out = he_body e"
      using assms(2) full g e True fmt
      by (auto simp: http_get_def Let_def collection_time_def header_get_def)
    ultimately show ?thesis by blast
  next
    case False
    then show ?thesis
      using assms(2,3) full g direct
      by (auto simp: http_get_def Let_def split: if_splits option.splits)
  qed
qed

text \<open>A time format with an inverse, for closed instances.\<close>

definition example_format :: "time \<Rightarrow> string" where
  "example_format t = CHR ''t'' # show_int t"

definition example_parse :: "string \<Rightarrow> time option" where
  "example_parse s = Some (if prefix ''t-'' s then - int (digits_value (drop 2 s))
     else int (digits_value (drop 1 s)))"

lemma example_format_parse: "example_format t \<noteq> [] \<and> example_parse (example_format t) = Some t"
proof -
  have "show_nat n \<noteq> [] \<and> hd (show_nat n) \<noteq> CHR ''-''" for n
  proof -
    have ne: "show_nat n \<noteq> []" by (simp add: show_nat.simps [of n])
    from show_nat_digits [OF hd_in_set [OF ne]]
    have "hd (show_nat n) \<noteq> CHR ''-''" by auto
    with ne show ?thesis by simp
  qed
  then have "\<not> prefix ''-'' (show_nat n)" for n by (metis hd_append2 list.sel(1) prefixE list.distinct(1))
  then show ?thesis by (simp add: example_format_def example_parse_def show_int_def digits_value_show_nat)
qed

definition example_clock :: get_clock where
  "example_clock = \<lparr>gk_lookup = 1, gk_read = 7, gk_expire = 7, gk_store = 7\<rparr>"

definition example_env2 :: http_env where
  "example_env2 = example_http_env\<lparr>hx_format_nano := example_format, hx_parse_nano := example_parse\<rparr>"

lemma example_composed:
  "compose_url example_env2 example_client None ''d'' ''/x''
     = Inr \<lparr>rq_scheme = ''http'', rq_host = ''h'', rq_path = ''/x'', rq_query = [], rq_headers = []\<rparr>"
  by (simp add: compose_url_def has_prefix_def example_client_def example_env2_def example_http_env_def
      invalid_path_def ascii_eval is_control_def join_url_path_def trim_right_char_def)

lemma example_env2_fields:
  "hx_valid_request example_env2 r" "hx_format_nano example_env2 = example_format"
  "hx_parse_nano example_env2 = example_parse"
  by (simp_all add: example_env2_def example_http_env_def)

lemma example_get:
  "\<exists>out c'. http_get example_env2 (\<lambda>rq. Inr (200, [(cache_time_header, ''forged'')], Inr ''body''))
      example_clock None ''d'' ''/x'' [] (example_client, None) = Some (out, c', None)
    \<and> go_err out = None \<and> go_body out = ''body''"
proof -
  let ?send = "\<lambda>rq :: request. Inr (200, [(cache_time_header, ''forged'')], Inr ''body'')"
  define key where "key = request_cache_key example_env2 ''d'' ''/x'' [] (ht_cache_key example_client)"
  define c where "c = example_client\<lparr>ht_misses := ht_misses example_client + 1\<rparr>"
  have cache: "ht_cache example_client = new_hcache minute" "ht_max_body example_client = 2097152"
    by (simp_all add: example_client_def new_locked_client_def default_max_body_def)
  have ttl: "hc_ttl (ht_cache example_client) > 0"
    by (simp add: cache new_hcache_def duration_defs)
  have miss: "hcache_get key (gk_lookup example_clock) (ht_cache example_client)
      = (None, ht_cache example_client)"
    by (simp add: hcache_get_def cache new_hcache_def)
  have c: "example_client\<lparr>ht_cache := ht_cache example_client, ht_misses := ht_misses example_client + 1\<rparr> = c"
    by (simp add: c_def)
  have ok: "hc_ok (ht_cache c)" using client_reach_ok [OF example_client_reach] by (simp add: c_def)
  have fetch: "\<exists>out c'. fetch example_env2 ?send example_clock full [] key c = Some (out, c')
      \<and> go_err out = None \<and> go_body out = ''body''" for full
  proof -
    obtain out c' where f: "fetch example_env2 ?send example_clock full [] key c = Some (out, c')"
      using fetch_returns [OF ok] by blast
    have "ht_max_body c = 2097152" by (simp add: c_def cache)
    with f have "go_err out = None \<and> go_body out = ''body''"
      by (auto simp: fetch_def Let_def example_env2_fields limit_reader_def split: if_splits)
    with f show ?thesis by blast
  qed
  show ?thesis
    unfolding http_get_def Let_def prod.case example_composed sum.case key_def [symmetric] miss c
    using fetch ttl by fastforce
qed

lemma collection_time_is_ours_witness:
  "\<exists>out c' key e. http_get example_env2 (\<lambda>rq. Inr (200, [(cache_time_header, ''forged'')], Inr ''body''))
      example_clock None ''d'' ''/x'' [] (example_client, None) = Some (out, c', None)
    \<and> (collection_time example_env2 (go_resp out) 0 = 7
       \<or> (map_of (hc_map (ht_cache example_client)) key = Some e \<and> go_body out = he_body e))"
proof -
  obtain out c' where g: "http_get example_env2 (\<lambda>rq. Inr (200, [(cache_time_header, ''forged'')], Inr ''body''))
      example_clock None ''d'' ''/x'' [] (example_client, None) = Some (out, c', None)" "go_err out = None"
    using example_get by blast
  have fmt: "hx_format_nano example_env2 t \<noteq> []
      \<and> hx_parse_nano example_env2 (hx_format_nano example_env2 t) = Some t" for t
    using example_format_parse by (simp add: example_env2_def)
  from collection_time_is_ours [OF fmt g, of 0] g show ?thesis by (auto simp: example_clock_def)
qed

end
