(* ===== verification/Registry.thy ===== *)
theory Registry
  imports ConfigAuth
begin

text \<open>
  The service registry (\<open>internal/registry/registry.go\<close>): built once from a validated configuration
  and read-only afterwards. Lemmas: the pages of \<open>List\<close> partition the services that match the
  prefix, in the order of their identifiers, and \<open>Require\<close> finds exactly the configured services.
\<close>

record coverage =
  cv_gatus :: bool
  cv_docker :: bool
  cv_loki :: bool
  cv_healthchecks :: bool
  cv_beszel :: bool
  cv_ntfy :: bool

record service_view =
  vw_id :: string
  vw_display_name :: string
  vw_coverage :: coverage

record registry =
  rg_by_id :: "(string, service) gomap"
  rg_order :: "string list"

definition empty_service :: service where
  "empty_service = \<lparr>sv_id = [], sv_display_name = [],
     sv_sources = \<lparr>ss_gatus = None, ss_docker = None, ss_loki = None, ss_healthchecks = None,
                   ss_beszel = None, ss_ntfy = None\<rparr>\<rparr>"

definition new_registry :: "config \<Rightarrow> registry" where
  "new_registry cfg =
     \<lparr>rg_by_id = fold (\<lambda>s m. AList.update (sv_id s) s m) (cf_services cfg) [],
      rg_order = sort (map sv_id (cf_services cfg))\<rparr>"

text \<open>Indexing a Go map with an absent key gives the zero value.\<close>

definition registry_index :: "registry \<Rightarrow> string \<Rightarrow> service" where
  "registry_index r ident = (case map_of (rg_by_id r) ident of None \<Rightarrow> empty_service | Some s \<Rightarrow> s)"

definition registry_view :: "registry \<Rightarrow> string \<Rightarrow> service_view" where
  "registry_view r ident =
     (let s = registry_index r ident; ss = sv_sources s
      in \<lparr>vw_id = sv_id s, vw_display_name = sv_display_name s,
          vw_coverage = \<lparr>cv_gatus = ss_gatus ss \<noteq> None, cv_docker = ss_docker ss \<noteq> None,
            cv_loki = ss_loki ss \<noteq> None, cv_healthchecks = ss_healthchecks ss \<noteq> None,
            cv_beszel = ss_beszel ss \<noteq> None, cv_ntfy = ss_ntfy ss \<noteq> None\<rparr>\<rparr>)"

definition registry_matched :: "unicode \<Rightarrow> registry \<Rightarrow> string \<Rightarrow> string list" where
  "registry_matched uc r prfx =
     (let p = to_lower uc (trim_space prfx)
      in filter (\<lambda>ident. let display = to_lower uc (sv_display_name (registry_index r ident))
                  in \<not> (p \<noteq> [] \<and> \<not> has_prefix ident p \<and> \<not> has_prefix display p)) (rg_order r))"

definition registry_list ::
  "unicode \<Rightarrow> registry \<Rightarrow> string \<Rightarrow> int \<Rightarrow> int \<Rightarrow> service_view list \<times> int" where
  "registry_list uc r prfx offset limit =
     (let limit = (if limit \<le> 0 then 50 else limit);
          limit = (if limit > 200 then 200 else limit);
          offset = (if offset < 0 then 0 else offset);
          matched = registry_matched uc r prfx;
          total = int (length matched)
      in if offset \<ge> total then ([], total)
         else (let fin = (if offset + limit > total then total else offset + limit)
               in (map (registry_view r) (drop (nat offset) (take (nat fin) matched)), total)))"

definition registry_len :: "registry \<Rightarrow> nat" where
  "registry_len r = length (rg_order r)"

definition registry_require :: "registry \<Rightarrow> string \<Rightarrow> string + service" where
  "registry_require r ident =
     (case map_of (rg_by_id r) ident of
        None \<Rightarrow> Inl ''unknown service_id; use list_services to find a configured service''
      | Some s \<Rightarrow> Inr s)"

section \<open>Lemmas\<close>

lemma fold_update_map_of:
  "distinct (map f xs) \<Longrightarrow>
     map_of (fold (\<lambda>x m. AList.update (f x) x m) xs m) k =
       (case find (\<lambda>x. f x = k) xs of Some x \<Rightarrow> Some x | None \<Rightarrow> map_of m k)"
proof (induction xs arbitrary: m)
  case (Cons x xs)
  have "find (\<lambda>y. f y = k) xs = None" if "f x = k"
    using Cons.prems that by (force simp: find_None_iff image_iff)
  with Cons show ?case by (auto simp: gomap_simps split: option.splits)
qed simp

lemma new_registry_lookup:
  assumes "distinct (map sv_id (cf_services cfg))"
  shows "map_of (rg_by_id (new_registry cfg)) ident = Some s
     \<longleftrightarrow> s \<in> set (cf_services cfg) \<and> sv_id s = ident"
proof -
  let ?f = "find (\<lambda>x. sv_id x = ident) (cf_services cfg)"
  have l: "map_of (rg_by_id (new_registry cfg)) ident = (case ?f of Some x \<Rightarrow> Some x | None \<Rightarrow> None)"
    by (simp add: new_registry_def fold_update_map_of [OF assms] split: option.split)
  show ?thesis
  proof (cases ?f)
    case None
    moreover from this have "\<forall>x \<in> set (cf_services cfg). sv_id x \<noteq> ident"
      by (auto simp: find_None_iff)
    ultimately show ?thesis unfolding l by auto
  next
    case (Some x)
    then have "x \<in> set (cf_services cfg)" "sv_id x = ident" by (auto simp: find_Some_iff)
    then show ?thesis
      using assms unfolding l Some by (auto simp: distinct_map dest: inj_onD)
  qed
qed

lemma registry_list_take:
  "fst (registry_list uc r p offset limit) =
     map (registry_view r) (take (nat (if limit \<le> 0 then 50 else min limit 200))
       (drop (nat offset) (registry_matched uc r p)))"
  "snd (registry_list uc r p offset limit) = int (length (registry_matched uc r p))"
proof -
  let ?m = "registry_matched uc r p"
  define l where "l = (if limit \<le> 0 then 50 else min limit 200)"
  define off where "off = (if offset < 0 then 0 else offset)"
  have l: "0 < l" and off: "nat off = nat offset" "0 \<le> off" by (auto simp: l_def off_def)
  have eq: "registry_list uc r p offset limit =
      (if off \<ge> int (length ?m) then ([], int (length ?m))
       else (map (registry_view r) (drop (nat off)
          (take (nat (if off + l > int (length ?m) then int (length ?m) else off + l)) ?m)),
         int (length ?m)))"
    by (simp add: registry_list_def Let_def l_def off_def min_def)
  then show "snd (registry_list uc r p offset limit) = int (length ?m)" by simp
  have clamp: "drop (nat off) (take (nat (if off + l > int (length ?m) then int (length ?m)
      else off + l)) ?m) = take (nat l) (drop (nat off) ?m)"
  proof (cases "off + l > int (length ?m)")
    case True
    then have "length (drop (nat off) ?m) \<le> nat l" using off(2) by (simp add: le_nat_iff)
    with True show ?thesis by simp
  next
    case False
    then have "nat (off + l) = nat off + nat l" using l off(2) by (simp add: nat_add_distrib)
    with False show ?thesis by (simp add: drop_take)
  qed
  show "fst (registry_list uc r p offset limit) = map (registry_view r)
      (take (nat (if limit \<le> 0 then 50 else min limit 200)) (drop (nat offset) ?m))"
    unfolding eq clamp l_def [symmetric] off(1) [symmetric] using off(2) by simp
qed

lemma pages_concat:
  assumes "0 < n"
  shows "concat (map (\<lambda>k. take n (drop (k * n) xs)) [0 ..< m]) = take (m * n) xs"
proof (induction m)
  case (Suc m)
  have "take (m * n) xs @ take n (drop (m * n) xs) = take (Suc m * n) xs"
    by (simp only: mult_Suc add.commute [of n] take_add)
  with Suc show ?case by simp
qed simp

text \<open>
  Property C22: reading \<open>List\<close> page by page with a limit between 1 and 200 gives every matching
  service exactly once, in ascending order of the identifiers, and each call reports their number.
\<close>
theorem registry_pages_partition:
  assumes "config_ok cfg" and "0 < n" and "n \<le> 200"
    and "length (registry_matched uc (new_registry cfg) p) \<le> pages * n"
  shows "concat (map (\<lambda>k. fst (registry_list uc (new_registry cfg) p (int (k * n)) (int n))) [0 ..< pages])
      = map (registry_view (new_registry cfg)) (registry_matched uc (new_registry cfg) p)
    \<and> sorted (registry_matched uc (new_registry cfg) p)
    \<and> distinct (registry_matched uc (new_registry cfg) p)
    \<and> snd (registry_list uc (new_registry cfg) p off limit)
      = int (length (registry_matched uc (new_registry cfg) p))"
proof -
  let ?r = "new_registry cfg" and ?m = "registry_matched uc (new_registry cfg) p"
  have page: "fst (registry_list uc ?r p (int (k * n)) (int n)) =
      map (registry_view ?r) (take n (drop (k * n) ?m))" for k
    unfolding registry_list_take nat_int using assms(2,3) by (simp add: min_def)
  have "concat (map (\<lambda>k. fst (registry_list uc ?r p (int (k * n)) (int n))) [0 ..< pages])
      = map (registry_view ?r) (concat (map (\<lambda>k. take n (drop (k * n) ?m)) [0 ..< pages]))"
    by (simp only: page map_concat map_map o_def)
  also have "\<dots> = map (registry_view ?r) ?m"
    unfolding pages_concat [OF assms(2)] using assms(4) by simp
  finally have pages: "concat (map (\<lambda>k. fst (registry_list uc ?r p (int (k * n)) (int n))) [0 ..< pages])
      = map (registry_view ?r) ?m" .
  have "distinct (rg_order ?r)" "sorted (rg_order ?r)"
    using assms(1) by (simp_all add: new_registry_def config_ok_def)
  then have "sorted ?m" "distinct ?m"
    using sorted_wrt_filter [of "(\<le>)" "rg_order ?r"] by (simp_all add: registry_matched_def Let_def)
  with pages registry_list_take(2) show ?thesis by simp
qed

text \<open>
  \<open>Require\<close> succeeds exactly for the identifiers of the configuration and gives the
  configured service.
\<close>
lemma registry_require_exact:
  assumes "config_ok cfg"
  shows "registry_require (new_registry cfg) ident = Inr s
    \<longleftrightarrow> s \<in> set (cf_services cfg) \<and> sv_id s = ident"
  using new_registry_lookup [of cfg ident s] assms
  by (auto simp: registry_require_def config_ok_def split: option.splits)

definition example_config :: config where
  "example_config = (case validate_config example_env example_file of Inr c \<Rightarrow> c)"

lemma example_config_ok:
  "config_ok example_config" "length (cf_services example_config) = 1"
  using example_validated validate_config_ok by (auto simp: example_config_def)

lemma registry_pages_partition_witness:
  "sorted (registry_matched ascii_tables (new_registry example_config) [])
   \<and> concat (map (\<lambda>k. fst (registry_list ascii_tables (new_registry example_config) []
        (int (k * 2)) (int 2))) [0 ..< 1])
     = map (registry_view (new_registry example_config))
        (registry_matched ascii_tables (new_registry example_config) [])"
proof -
  have "length (registry_matched ascii_tables (new_registry example_config) []) \<le> 1"
    using length_filter_le [of _ "rg_order (new_registry example_config)"] example_config_ok(2)
    by (simp add: registry_matched_def new_registry_def Let_def)
  then show ?thesis
    using registry_pages_partition [OF example_config_ok(1), of 2 ascii_tables "[]" 1 0 1] by simp
qed

end
