(* ===== verification/Compact.thy ===== *)
theory Compact
  imports Evidence "HOL-Library.Sublist"
begin

text \<open>
  The compact incident context (\<open>internal/mcpserver/compact.go\<close>): one newest item for each source,
  the rest of the item limit by newest evidence, then the byte budget by dropping the oldest item of
  a source that has another. The two JSON encoders are parameters. Lemmas: the selection is closed
  under newer items of the same source, and every step of the trimming loop keeps that.
\<close>

section \<open>Size\<close>

type_synonym encoder = "bundle_t \<Rightarrow> string option"

definition wire_overhead :: int where "wire_overhead = 512"

definition incident_wire_size :: "encoder \<Rightarrow> encoder \<Rightarrow> bundle_t \<Rightarrow> int" where
  "incident_wire_size indent marshal b =
     (case indent b of
        None \<Rightarrow> 0
      | Some text \<Rightarrow> (case marshal b of
            None \<Rightarrow> int (length text) + wire_overhead
          | Some structured \<Rightarrow> int (length text) + int (length structured) + wire_overhead))"

section \<open>Selection\<close>

text \<open>The map \<open>selected\<close> from identifiers to items; \<open>selectedItems\<close> sorts its values.\<close>

type_synonym selection = "(string, item) gomap"

definition selected_items :: "selection \<Rightarrow> item list" where
  "selected_items sel = sort_items (map snd sel)"

definition select :: "item \<Rightarrow> selection \<Rightarrow> selection" where
  "select it sel = AList.update (it_id it) it sel"

definition trim_to_newest :: "selection \<Rightarrow> int \<Rightarrow> selection" where
  "trim_to_newest sel mx =
     (let items = selected_items sel;
          items = (if int (length items) > mx then drop (length items - nat mx) items else items)
      in fold select items [])"

definition newest_per_source :: "item list \<Rightarrow> selection" where
  "newest_per_source items =
     fold (\<lambda>k sel. select (last (filter (\<lambda>it. it_source it = k) items)) sel)
       (sort (remdups (map it_source items))) []"

text \<open>The loop over the items from the newest.\<close>

fun fill_newest :: "int \<Rightarrow> item list \<Rightarrow> selection \<Rightarrow> selection" where
  "fill_newest mx [] sel = sel"
| "fill_newest mx (it # its) sel =
     (if int (length sel) < mx
      then fill_newest mx its (if map_of sel (it_id it) \<noteq> None then sel else select it sel)
      else sel)"

definition select_items :: "item list \<Rightarrow> int \<Rightarrow> selection" where
  "select_items items mx =
     (let sel = fill_newest mx (rev items) (newest_per_source items)
      in if int (length sel) > mx then trim_to_newest sel mx else sel)"

section \<open>The byte budget\<close>

definition source_count :: "item list \<Rightarrow> source_kind \<Rightarrow> nat" where
  "source_count items k = length (filter (\<lambda>it. it_source it = k) items)"

definition drop_choice :: "item list \<Rightarrow> nat" where
  "drop_choice items =
     (let i = length (takeWhile (\<lambda>it. \<not> source_count items (it_source it) > 1) items)
      in if i < length items then i else 0)"

definition drop_item :: "bundle_t \<Rightarrow> bundle_t" where
  "drop_item b =
     (let i = drop_choice (bu_items b)
      in b\<lparr>bu_items := take i (bu_items b) @ drop (Suc i) (bu_items b), bu_omitted_items := bu_omitted_items b + 1\<rparr>)"

lemma drop_choice_less: "items \<noteq> [] \<Longrightarrow> drop_choice items < length items"
  by (simp add: drop_choice_def Let_def)

lemma length_drop_item: "bu_items b \<noteq> [] \<Longrightarrow> length (bu_items (drop_item b)) < length (bu_items b)"
  using drop_choice_less [of "bu_items b"] by (simp add: drop_item_def Let_def)

function trim_loop :: "(bundle_t \<Rightarrow> int) \<Rightarrow> int \<Rightarrow> bool \<Rightarrow> bundle_t \<Rightarrow> bool \<times> bundle_t" where
  "trim_loop wire budget trimmed b =
     (if bu_items b \<noteq> [] \<and> wire b > budget then trim_loop wire budget True (drop_item b) else (trimmed, b))"
  by pat_completeness auto
termination
  by (relation "measure (\<lambda>(_, _, _, b). length (bu_items b))") (auto dest: length_drop_item)

declare trim_loop.simps [simp del]

definition source_had_items :: "bundle_t \<Rightarrow> source_kind \<Rightarrow> bool" where
  "source_had_items b k = list_ex (\<lambda>s. so_kind s = k \<and> so_item_count s > 0) (bu_sources b)"

definition omitted_sources_of :: "bundle_t \<Rightarrow> string list" where
  "omitted_sources_of b =
     sort (keep_first [] (map (\<lambda>s. source_str (so_kind s))
       (filter (\<lambda>s. source_had_items b (so_kind s) \<and> so_kind s \<notin> it_source ` set (bu_items b)) (bu_sources b))))"

definition trim_to_budget :: "(bundle_t \<Rightarrow> int) \<Rightarrow> int \<Rightarrow> bundle_t \<Rightarrow> bool \<times> bundle_t" where
  "trim_to_budget wire budget b =
     (case trim_loop wire budget False b of (trimmed, b) \<Rightarrow>
        (trimmed, b\<lparr>bu_omitted_sources := Some (omitted_sources_of b)\<rparr>))"

definition compact_incident :: "encoder \<Rightarrow> encoder \<Rightarrow> bundle_t \<Rightarrow> int \<Rightarrow> int \<Rightarrow> bundle_t" where
  "compact_incident indent marshal b max_items budget =
     (let b = b\<lparr>bu_compact := True, bu_byte_budget := budget\<rparr>;
          items = sort_items (bu_items b);
          sel = select_items items max_items;
          omitted = int (length items) - int (length sel);
          b = b\<lparr>bu_items := selected_items sel, bu_selection_truncated := omitted > 0, bu_omitted_items := omitted\<rparr>;
          (trimmed, b) = trim_to_budget (incident_wire_size indent marshal) budget b;
          b = b\<lparr>bu_truncated := bu_truncated b \<or> bu_selection_truncated b \<or> trimmed\<rparr>;
          b = (if trimmed then b\<lparr>bu_byte_budget_truncated := True\<rparr> else b);
          b = (if bu_omitted_sources b = None then b\<lparr>bu_omitted_sources := Some []\<rparr> else b)
      in b\<lparr>bu_byte_size := incident_wire_size indent marshal b\<rparr>)"

section \<open>What the map holds\<close>

text \<open>The selection as a set of items of the list \<open>xs\<close>, whose identifiers differ.\<close>

definition sel_ok :: "item list \<Rightarrow> selection \<Rightarrow> bool" where
  "sel_ok xs sel \<longleftrightarrow> map fst sel = map it_id (map snd sel) \<and> distinct (map fst sel) \<and> snd ` set sel \<subseteq> set xs"

lemma sel_ok_Nil [simp]: "sel_ok xs []"
  by (simp add: sel_ok_def)

lemma sel_ok_fst: "sel_ok xs sel \<Longrightarrow> p \<in> set sel \<Longrightarrow> fst p = it_id (snd p)"
  unfolding sel_ok_def by (induction sel) auto

lemma sel_ok_inj:
  assumes "sel_ok xs sel"
  shows "inj_on snd (set sel)" "distinct (map snd sel)" "distinct sel"
proof -
  show i: "inj_on snd (set sel)"
    by (intro inj_onI prod_eqI) (use sel_ok_fst [OF assms] in \<open>metis+\<close>)
  show d: "distinct sel" using assms by (simp add: sel_ok_def distinct_map)
  show "distinct (map snd sel)" using i d by (simp add: distinct_map)
qed

lemma update_same: "map_of m k = Some v \<Longrightarrow> AList.update k v m = m"
  by (induction m) (auto split: if_splits)

lemma select_eq:
  assumes ok: "sel_ok xs sel" and it: "it \<in> set xs" and ids: "inj_on it_id (set xs)"
  shows "select it sel = (if it \<in> snd ` set sel then sel else sel @ [(it_id it, it)])"
proof (cases "it \<in> snd ` set sel")
  case True
  then obtain p where p: "p \<in> set sel" "snd p = it" by blast
  then have "(it_id it, it) \<in> set sel" using sel_ok_fst [OF ok p(1)] by (metis prod.collapse)
  then have "map_of sel (it_id it) = Some it" using ok by (simp add: sel_ok_def)
  with True show ?thesis by (simp add: select_def update_same)
next
  case False
  have "it_id it \<notin> fst ` set sel"
  proof
    assume "it_id it \<in> fst ` set sel"
    then obtain p where p: "p \<in> set sel" "fst p = it_id it" by auto
    then have "it_id (snd p) = it_id it" using sel_ok_fst [OF ok p(1)] by simp
    moreover have "snd p \<in> set xs" using ok p(1) by (auto simp: sel_ok_def)
    ultimately have "snd p = it" using ids it by (simp add: inj_on_def)
    with p(1) False show False by auto
  qed
  with False show ?thesis by (simp add: select_def update_fresh)
qed

lemma sel_ok_select:
  assumes ok: "sel_ok xs sel" and it: "it \<in> set xs" and ids: "inj_on it_id (set xs)"
  shows "sel_ok xs (select it sel)" "snd ` set (select it sel) = insert it (snd ` set sel)"
proof -
  show "snd ` set (select it sel) = insert it (snd ` set sel)"
    unfolding select_eq [OF assms] by auto
  show "sel_ok xs (select it sel)"
  proof (cases "it \<in> snd ` set sel")
    case True
    with ok show ?thesis by (simp add: select_eq [OF assms])
  next
    case False
    have "it_id it \<notin> fst ` set sel"
    proof
      assume "it_id it \<in> fst ` set sel"
      then obtain p where p: "p \<in> set sel" "it_id (snd p) = it_id it" using sel_ok_fst [OF ok] by force
      moreover have "snd p \<in> set xs" using ok p(1) by (auto simp: sel_ok_def)
      ultimately show False using ids it False by (auto simp: inj_on_def)
    qed
    with False ok it show ?thesis by (simp add: select_eq [OF assms] sel_ok_def)
  qed
qed

lemma sel_ok_fold:
  assumes "inj_on it_id (set xs)" and "set ys \<subseteq> set xs" and "sel_ok xs sel"
  shows "sel_ok xs (fold select ys sel)" "snd ` set (fold select ys sel) = set ys \<union> snd ` set sel"
  using assms(2,3)
  by (induction ys arbitrary: sel) (simp_all add: sel_ok_select [OF _ _ assms(1)])

lemma length_selection: "sel_ok xs sel \<Longrightarrow> length sel = card (snd ` set sel)"
  using sel_ok_inj [of xs sel] by (simp add: card_image distinct_card)

text \<open>Sorting the values gives the selected items in the order of the sorted list.\<close>

lemma selected_items_filter:
  assumes ok: "sel_ok xs sel" and ids: "distinct (map it_id xs)" and sorted: "sort_items xs = xs"
  shows "selected_items sel = filter (\<lambda>it. it \<in> snd ` set sel) xs"
proof -
  let ?ys = "filter (\<lambda>it. it \<in> snd ` set sel) xs"
  have d: "distinct (map snd sel)" using ok by (rule sel_ok_inj)
  have "distinct ?ys" using ids by (simp add: distinct_map)
  moreover have "set ?ys = set (map snd sel)" using ok by (auto simp: sel_ok_def)
  ultimately have m: "mset ?ys = mset (map snd sel)" using d set_eq_iff_mset_eq_distinct [of ?ys "map snd sel"] by blast
  have "distinct (map it_id ?ys)" using ids by (simp add: distinct_map_filter)
  from sort_items_perm [OF m this] have "selected_items sel = sort_items ?ys"
    by (simp add: selected_items_def)
  also have "\<dots> = ?ys"
  proof -
    have "sorted (map item_key xs)" using sorted_sort_items [of xs] sorted by simp
    then show ?thesis unfolding sort_items_eq by (intro sort_key_id_if_sorted sorted_filter)
  qed
  finally show ?thesis .
qed

section \<open>The selection holds the newest items of each source\<close>

text \<open>With an item, \<open>S\<close> has every later item of its source.\<close>

definition newest_closed :: "item list \<Rightarrow> item set \<Rightarrow> bool" where
  "newest_closed xs S \<longleftrightarrow> (\<forall>us a vs. xs = us @ a # vs \<and> a \<in> S \<longrightarrow> (\<forall>b \<in> set vs. it_source b = it_source a \<longrightarrow> b \<in> S))"

lemma newest_closed_Un: "newest_closed xs S \<Longrightarrow> newest_closed xs T \<Longrightarrow> newest_closed xs (S \<union> T)"
  unfolding newest_closed_def by blast

lemma newest_closed_drop:
  assumes "distinct xs"
  shows "newest_closed xs (set (drop n xs))"
  unfolding newest_closed_def
proof (intro allI impI ballI)
  fix us a vs b
  assume h: "xs = us @ a # vs \<and> a \<in> set (drop n xs)" and b: "b \<in> set vs"
  have "n \<le> length us"
  proof (rule ccontr)
    assume "\<not> n \<le> length us"
    then have "set (drop n xs) \<subseteq> set vs" using h by (cases "n - length us") (auto dest: in_set_dropD)
    with h assms show False by auto
  qed
  with h b show "b \<in> set (drop n xs)" by simp
qed

text \<open>The last item of each source in a set of sources.\<close>

definition last_items :: "item list \<Rightarrow> source_kind set \<Rightarrow> item set" where
  "last_items xs K = (\<lambda>k. last (filter (\<lambda>it. it_source it = k) xs)) ` (K \<inter> it_source ` set xs)"

lemma last_of_source:
  assumes "k \<in> it_source ` set xs"
  shows "last (filter (\<lambda>it. it_source it = k) xs) \<in> set xs \<and> it_source (last (filter (\<lambda>it. it_source it = k) xs)) = k"
proof -
  let ?ys = "filter (\<lambda>it. it_source it = k) xs"
  have "?ys \<noteq> []" using assms by (auto simp: filter_empty_conv)
  then have "last ?ys \<in> set ?ys" by (rule last_in_set)
  then show ?thesis by simp
qed

lemma closed_one_per_source:
  assumes d: "distinct xs" and S: "S \<subseteq> last_items xs UNIV"
  shows "newest_closed xs S"
  unfolding newest_closed_def
proof (intro allI impI ballI)
  fix us a vs b
  assume h: "xs = us @ a # vs \<and> a \<in> S" and b: "b \<in> set vs" "it_source b = it_source a"
  from h S obtain k where k: "k \<in> it_source ` set xs" "a = last (filter (\<lambda>it. it_source it = k) xs)"
    unfolding last_items_def by blast
  have src: "it_source a = k" using last_of_source [OF k(1)] k(2) by simp
  let ?vs = "filter (\<lambda>it. it_source it = k) vs"
  have "?vs \<noteq> []" using b src by (auto simp: filter_empty_conv)
  then have "a = last ?vs" using k(2) h src by simp
  then have "a \<in> set vs" using last_in_set [OF \<open>?vs \<noteq> []\<close>] by simp
  with h d show "b \<in> S" by simp
qed

lemma newest_closed_suffix:
  assumes "newest_closed xs S"
  shows "suffix (filter (\<lambda>it. it_source it = k) (filter (\<lambda>it. it \<in> S) xs)) (filter (\<lambda>it. it_source it = k) xs)"
  using assms
proof (induction xs)
  case (Cons x xs)
  have tail: "newest_closed xs S"
    unfolding newest_closed_def
  proof (intro allI impI)
    fix us a vs assume "xs = us @ a # vs \<and> a \<in> S"
    then show "\<forall>b \<in> set vs. it_source b = it_source a \<longrightarrow> b \<in> S"
      using Cons.prems unfolding newest_closed_def by (metis append_Cons)
  qed
  show ?case
  proof (cases "x \<in> S \<and> it_source x = k")
    case True
    then have "\<forall>b \<in> set xs. it_source b = k \<longrightarrow> b \<in> S"
      using Cons.prems unfolding newest_closed_def by (metis append_Nil)
    then have "filter (\<lambda>it. it_source it = k) (filter (\<lambda>it. it \<in> S) xs) = filter (\<lambda>it. it_source it = k) xs"
      by (auto simp: filter_filter intro: filter_cong)
    with True show ?thesis by simp
  next
    case False
    with Cons.IH [OF tail] show ?thesis by (auto intro: suffix_ConsI)
  qed
qed simp

lemma newest_per_source_ok:
  assumes "inj_on it_id (set xs)"
  shows "sel_ok xs (newest_per_source xs) \<and> snd ` set (newest_per_source xs) = last_items xs UNIV"
proof -
  let ?l = "\<lambda>k. last (filter (\<lambda>it. it_source it = k) xs)"
  let ?ks = "sort (remdups (map it_source xs))"
  have eq: "newest_per_source xs = fold select (map ?l ?ks) []"
    by (simp add: newest_per_source_def fold_map comp_def)
  have "set (map ?l ?ks) \<subseteq> set xs" using last_of_source by fastforce
  from sel_ok_fold [OF assms this sel_ok_Nil] show ?thesis
    by (simp add: eq last_items_def)
qed

lemma fill_newest_ok:
  assumes "inj_on it_id (set xs)" and "set ys \<subseteq> set xs" and "sel_ok xs sel"
  shows "\<exists>n. sel_ok xs (fill_newest mx ys sel) \<and> snd ` set (fill_newest mx ys sel) = snd ` set sel \<union> set (take n ys)
    \<and> (int (length (fill_newest mx ys sel)) \<le> max mx (int (length sel)))
    \<and> (int (length (fill_newest mx ys sel)) < mx \<longrightarrow> n \<ge> length ys)"
  using assms(2,3)
proof (induction ys arbitrary: sel)
  case Nil
  then show ?case by simp
next
  case (Cons y ys)
  show ?case
  proof (cases "int (length sel) < mx")
    case False
    with Cons.prems show ?thesis by (intro exI [of _ 0]) simp
  next
    case True
    have y: "y \<in> set xs" using Cons.prems(1) by simp
    note sel = select_eq [OF Cons.prems(2) y assms(1)] sel_ok_select [OF Cons.prems(2) y assms(1)]
    have step: "(if map_of sel (it_id y) \<noteq> None then sel else select y sel) = select y sel"
    proof (cases "map_of sel (it_id y)")
      case (Some z)
      then have p: "(it_id y, z) \<in> set sel" by (rule map_of_SomeD)
      then have "it_id z = it_id y" using sel_ok_fst [OF Cons.prems(2) p] by simp
      moreover have "z \<in> set xs" using Cons.prems(2) p by (auto simp: sel_ok_def)
      ultimately have "z = y" using assms(1) y by (simp add: inj_on_def)
      with p have "y \<in> snd ` set sel" by force
      with Some sel(1) show ?thesis by simp
    qed simp
    have len: "int (length (select y sel)) \<le> mx" using True sel(1) by simp
    from Cons.IH [of "select y sel"] Cons.prems(1) sel(2) obtain n where
      n: "sel_ok xs (fill_newest mx ys (select y sel))"
      "snd ` set (fill_newest mx ys (select y sel)) = snd ` set (select y sel) \<union> set (take n ys)"
      "int (length (fill_newest mx ys (select y sel))) \<le> max mx (int (length (select y sel)))"
      "int (length (fill_newest mx ys (select y sel))) < mx \<longrightarrow> n \<ge> length ys" by auto
    show ?thesis
      unfolding fill_newest.simps step using True n len sel(3)
      by (intro exI [of _ "Suc n"]) auto
  qed
qed

lemma last_items_iff:
  "a \<in> last_items xs UNIV \<longleftrightarrow>
    it_source a \<in> it_source ` set xs \<and> a = last (filter (\<lambda>it. it_source it = it_source a) xs)"
proof
  assume "a \<in> last_items xs UNIV"
  then obtain k where k: "k \<in> it_source ` set xs" "a = last (filter (\<lambda>it. it_source it = k) xs)"
    unfolding last_items_def by blast
  with last_of_source [OF k(1)] have "it_source a = k" by simp
  with k show "it_source a \<in> it_source ` set xs \<and> a = last (filter (\<lambda>it. it_source it = it_source a) xs)" by simp
qed (auto simp: last_items_def)

lemma sources_last_items: "it_source ` last_items xs UNIV = it_source ` set xs"
proof
  show "it_source ` last_items xs UNIV \<subseteq> it_source ` set xs" using last_items_iff by blast
  show "it_source ` set xs \<subseteq> it_source ` last_items xs UNIV"
  proof
    fix k assume k: "k \<in> it_source ` set xs"
    then have "last (filter (\<lambda>it. it_source it = k) xs) \<in> last_items xs UNIV" by (simp add: last_items_def)
    with last_of_source [OF k] show "k \<in> it_source ` last_items xs UNIV" by force
  qed
qed

lemma last_items_inj: "inj_on it_source (last_items xs UNIV)"
  by (intro inj_onI) (metis last_items_iff)

definition selected_set :: "item list \<Rightarrow> int \<Rightarrow> item set" where
  "selected_set xs mx = snd ` set (select_items xs mx)"

lemma trim_to_newest_ok:
  assumes ok: "sel_ok xs sel" and ids: "distinct (map it_id xs)" and mx: "0 \<le> mx" "int (length sel) > mx"
  shows "sel_ok xs (trim_to_newest sel mx) \<and> snd ` set (trim_to_newest sel mx) \<subseteq> snd ` set sel
    \<and> length (trim_to_newest sel mx) = nat mx"
proof -
  let ?items = "selected_items sel" and ?kept = "drop (length sel - nat mx) (selected_items sel)"
  have inj: "inj_on it_id (set xs)" using ids by (simp add: distinct_map)
  have set: "set ?items = snd ` set sel" and len: "length ?items = length sel"
    by (simp_all add: selected_items_def sorting_simps)
  have eq: "trim_to_newest sel mx = fold select ?kept []"
    using mx by (simp add: trim_to_newest_def Let_def len)
  have sub: "set ?kept \<subseteq> snd ` set sel" using set by (auto dest: in_set_dropD)
  then have sub': "set ?kept \<subseteq> set xs" using ok by (auto simp: sel_ok_def)
  note f = sel_ok_fold [OF inj sub' sel_ok_Nil]
  have "distinct ?items"
    using sel_ok_inj(2) [OF ok] mset_sort_items [of "map snd sel"] by (metis mset_eq_imp_distinct_iff selected_items_def)
  then have "card (set ?kept) = length ?kept" by (simp add: distinct_card)
  also have "\<dots> = nat mx" using mx len by simp
  finally have "length (fold select ?kept []) = nat mx" using length_selection [OF f(1)] f(2) by simp
  with f sub show ?thesis unfolding eq by simp
qed

lemma select_items_ok:
  assumes ids: "distinct (map it_id xs)" and mx: "0 \<le> mx"
  shows "sel_ok xs (select_items xs mx) \<and> newest_closed xs (selected_set xs mx)
    \<and> length (select_items xs mx) = min (nat mx) (length xs)
    \<and> (it_source ` selected_set xs mx = it_source ` set xs \<or> inj_on it_source (selected_set xs mx))"
proof -
  have inj: "inj_on it_id (set xs)" and d: "distinct xs" using ids by (simp_all add: distinct_map)
  let ?s0 = "newest_per_source xs" and ?sel = "fill_newest mx (rev xs) (newest_per_source xs)"
  have s0: "sel_ok xs ?s0" "snd ` set ?s0 = last_items xs UNIV" using newest_per_source_ok [OF inj] by simp_all
  have "set (rev xs) \<subseteq> set xs" by simp
  from fill_newest_ok [OF inj this s0(1), of mx] obtain n where n: "sel_ok xs ?sel"
    "snd ` set ?sel = last_items xs UNIV \<union> set (take n (rev xs))"
    "int (length ?sel) \<le> max mx (int (length ?s0))" "int (length ?sel) < mx \<longrightarrow> n \<ge> length (rev xs)"
    unfolding s0(2) by blast
  have last_sub: "last_items xs UNIV \<subseteq> set xs" using s0 by (auto simp: sel_ok_def)
  show ?thesis
  proof (cases "int (length ?sel) > mx")
    case False
    have eq: "select_items xs mx = ?sel" using False by (simp add: select_items_def Let_def)
    have "set (take n (rev xs)) = set (drop (length xs - n) xs)" by (simp add: take_rev)
    then have "newest_closed xs (snd ` set ?sel)"
      unfolding n(2) using newest_closed_Un closed_one_per_source [OF d subset_refl] newest_closed_drop [OF d] by metis
    moreover have "length ?sel = min (nat mx) (length xs)"
    proof (cases "int (length ?sel) < mx")
      case True
      with n(4) have "snd ` set ?sel = set xs" using last_sub unfolding n(2) by auto
      then have "length ?sel = length xs" using length_selection [OF n(1)] distinct_card [OF d] by simp
      with True show ?thesis by simp
    next
      case l: False
      have "length ?sel \<le> length xs"
        using length_selection [OF n(1)] n(1) card_mono [of "set xs"] distinct_card [OF d] by (simp add: sel_ok_def)
      with l False show ?thesis by linarith
    qed
    moreover have "it_source ` (snd ` set ?sel) = it_source ` set xs"
    proof
      show "it_source ` (snd ` set ?sel) \<subseteq> it_source ` set xs" using n(1) by (auto simp: sel_ok_def)
      show "it_source ` set xs \<subseteq> it_source ` (snd ` set ?sel)"
        unfolding n(2) image_Un sources_last_items by blast
    qed
    ultimately show ?thesis using n(1) unfolding selected_set_def eq by blast
  next
    case True
    then have big: "int (length ?s0) > mx" and lim: "int (length ?sel) \<le> int (length ?s0)" using n(3) by linarith+
    have "length ?s0 = card (last_items xs UNIV)" "length ?sel = card (last_items xs UNIV \<union> set (take n (rev xs)))"
      using length_selection [OF s0(1)] length_selection [OF n(1)] s0(2) n(2) by simp_all
    moreover have fin: "finite (last_items xs UNIV \<union> set (take n (rev xs)))" using last_sub finite_subset by auto
    ultimately have "last_items xs UNIV = last_items xs UNIV \<union> set (take n (rev xs))"
      using lim by (intro card_seteq) auto
    then have vals: "snd ` set ?sel = last_items xs UNIV" using n(2) by simp
    have eq: "select_items xs mx = trim_to_newest ?sel mx" using True by (simp add: select_items_def Let_def)
    note t = trim_to_newest_ok [OF n(1) ids mx True]
    have sub: "snd ` set (trim_to_newest ?sel mx) \<subseteq> last_items xs UNIV" using t vals by simp
    have "length ?sel \<le> length xs"
      using length_selection [OF n(1)] n(1) card_mono [of "set xs"] distinct_card [OF d] by (simp add: sel_ok_def)
    then have "nat mx \<le> length xs" using True by linarith
    moreover have "inj_on it_source (snd ` set (trim_to_newest ?sel mx))"
      using last_items_inj sub by (rule inj_on_subset)
    ultimately show ?thesis
      using t closed_one_per_source [OF d sub] unfolding selected_set_def eq by (simp add: min_def)
  qed
qed

section \<open>The trimming loop\<close>

text \<open>The items are, for each source, the newest of \<open>xs\<close>, and a source loses its last item only when
  no source has two.\<close>

definition trim_inv :: "item list \<Rightarrow> item list \<Rightarrow> bool" where
  "trim_inv xs items \<longleftrightarrow> subseq items xs
     \<and> (\<forall>k. suffix (filter (\<lambda>it. it_source it = k) items) (filter (\<lambda>it. it_source it = k) xs))
     \<and> (it_source ` set items = it_source ` set xs \<or> distinct (map it_source items))"

lemma single_sources_distinct:
  "(\<And>x. x \<in> set items \<Longrightarrow> source_count items (it_source x) \<le> 1) \<Longrightarrow> distinct (map it_source items)"
proof (induction items)
  case (Cons y ys)
  have "source_count ys (it_source x) \<le> 1" if "x \<in> set ys" for x
    using Cons.prems [of x] that by (simp add: source_count_def split: if_splits)
  then have "distinct (map it_source ys)" by (rule Cons.IH)
  moreover have "filter (\<lambda>it. it_source it = it_source y) ys = []"
    using Cons.prems [of y] by (simp add: source_count_def)
  then have "it_source y \<notin> it_source ` set ys" by (auto simp: filter_empty_conv)
  ultimately show ?case by simp
qed simp

lemma drop_choice_split:
  assumes "items \<noteq> []"
  obtains us a vs where "items = us @ a # vs" "drop_choice items = length us"
    "\<forall>u \<in> set us. it_source u \<noteq> it_source a"
    "it_source a \<in> it_source ` set (us @ vs) \<or> distinct (map it_source items)"
proof (cases "\<exists>x \<in> set items. source_count items (it_source x) > 1")
  case False
  then have tw: "takeWhile (\<lambda>it. \<not> source_count items (it_source it) > 1) items = items"
    by (simp add: takeWhile_eq_all_conv)
  have c: "drop_choice items = 0" unfolding drop_choice_def tw Let_def by simp
  have "distinct (map it_source items)"
    using False by (intro single_sources_distinct) (meson not_less)
  with assms c that [of "[]" "hd items" "tl items"] show ?thesis by simp
next
  case True
  let ?P = "\<lambda>it. \<not> source_count items (it_source it) > 1"
  define us where "us = takeWhile ?P items"
  from True have "dropWhile ?P items \<noteq> []" by (simp add: dropWhile_eq_Nil_conv)
  then obtain a vs where dw: "dropWhile ?P items = a # vs" by (cases "dropWhile ?P items") auto
  have items: "items = us @ a # vs"
    using takeWhile_dropWhile_id [of ?P items] unfolding dw us_def by (rule sym)
  have a: "source_count items (it_source a) > 1" using hd_dropWhile [of ?P items] True dw by simp
  have us: "it_source u \<noteq> it_source a" if "u \<in> set us" for u
    using set_takeWhileD [of u ?P items] that a unfolding us_def by auto
  have c: "drop_choice items = length us"
  proof -
    have "length us < length items" unfolding items by simp
    then show ?thesis unfolding drop_choice_def Let_def us_def by simp
  qed
  have "filter (\<lambda>it. it_source it = it_source a) us = []" using us by (simp add: filter_empty_conv)
  then have "source_count (us @ a # vs) (it_source a) = Suc (source_count vs (it_source a))"
    by (simp add: source_count_def)
  with a have "filter (\<lambda>it. it_source it = it_source a) vs \<noteq> []"
    unfolding items by (auto simp: source_count_def)
  then obtain v where "v \<in> set vs" "it_source v = it_source a" by (auto simp: filter_empty_conv)
  then have "it_source a \<in> it_source ` set vs" by (metis imageI)
  then have "it_source a \<in> it_source ` set (us @ vs)" by auto
  with that [OF items c] us show ?thesis by blast
qed

lemma trim_inv_drop:
  assumes inv: "trim_inv xs (bu_items b)" and ne: "bu_items b \<noteq> []"
  shows "trim_inv xs (bu_items (drop_item b))"
proof -
  obtain us a vs where s: "bu_items b = us @ a # vs" "drop_choice (bu_items b) = length us"
    "\<forall>u \<in> set us. it_source u \<noteq> it_source a"
    "it_source a \<in> it_source ` set (us @ vs) \<or> distinct (map it_source (bu_items b))"
    using drop_choice_split [OF ne] .
  have new: "bu_items (drop_item b) = us @ vs" using s by (simp add: drop_item_def Let_def)
  have "subseq (us @ vs) (us @ a # vs)" by (intro list_emb_append_mono) auto
  moreover have "suffix (filter (\<lambda>it. it_source it = k) (us @ vs)) (filter (\<lambda>it. it_source it = k) (us @ a # vs))" for k
  proof (cases "it_source a = k")
    case True
    then have "filter (\<lambda>it. it_source it = k) us = []" using s(3) by (auto simp: filter_empty_conv)
    with True show ?thesis by (simp add: suffix_ConsI)
  qed simp
  moreover have "it_source ` set (us @ vs) = it_source ` set xs \<or> distinct (map it_source (us @ vs))"
    using inv s(4) unfolding trim_inv_def s(1) by auto
  ultimately show ?thesis
    using inv unfolding trim_inv_def s(1) new by (meson subseq_order.trans suffix_order.trans)
qed

lemma trim_loop_spec:
  assumes "trim_loop wire budget t b = (t', b')"
  shows "(bu_items b' = [] \<or> wire b' \<le> budget) \<and> b' = b\<lparr>bu_items := bu_items b', bu_omitted_items := bu_omitted_items b'\<rparr>"
  using assms
proof (induction wire budget t b rule: trim_loop.induct)
  case (1 wire budget t b)
  show ?case
  proof (cases "bu_items b \<noteq> [] \<and> wire b > budget")
    case False
    with 1(2) show ?thesis by (subst (asm) trim_loop.simps) auto
  next
    case True
    then have "trim_loop wire budget True (drop_item b) = (t', b')" using 1(2) trim_loop.simps by simp
    with 1(1) [OF True] have ih: "bu_items b' = [] \<or> wire b' \<le> budget"
      "b' = (drop_item b)\<lparr>bu_items := bu_items b', bu_omitted_items := bu_omitted_items b'\<rparr>" by blast+
    have "(drop_item b)\<lparr>bu_items := bu_items b', bu_omitted_items := bu_omitted_items b'\<rparr>
        = b\<lparr>bu_items := bu_items b', bu_omitted_items := bu_omitted_items b'\<rparr>"
      by (simp add: drop_item_def Let_def)
    with ih show ?thesis by simp
  qed
qed

lemma trim_loop_ok:
  assumes "trim_inv xs (bu_items b)"
    and "bu_omitted_items b + int (length (bu_items b)) = n"
    and "trim_loop wire budget t b = (t', b')"
  shows "trim_inv xs (bu_items b') \<and> bu_omitted_items b' + int (length (bu_items b')) = n
    \<and> (t' \<longleftrightarrow> t \<or> length (bu_items b') < length (bu_items b)) \<and> length (bu_items b') \<le> length (bu_items b)"
  using assms
proof (induction wire budget t b rule: trim_loop.induct)
  case (1 wire budget t b)
  show ?case
  proof (cases "bu_items b \<noteq> [] \<and> wire b > budget")
    case False
    with 1(2-4) show ?thesis by (subst (asm) trim_loop.simps) auto
  next
    case True
    then have "trim_loop wire budget True (drop_item b) = (t', b')" using 1(4) trim_loop.simps by simp
    moreover have "bu_omitted_items (drop_item b) + int (length (bu_items (drop_item b))) = n"
      using True 1(3) drop_choice_less [of "bu_items b"] by (simp add: drop_item_def Let_def)
    ultimately have "trim_inv xs (bu_items b')" "bu_omitted_items b' + int (length (bu_items b')) = n" "t'"
      "length (bu_items b') \<le> length (bu_items (drop_item b))"
      using 1(1) [OF True trim_inv_drop [OF 1(2)]] True by blast+
    with length_drop_item [of b] True show ?thesis by simp
  qed
qed

section \<open>Properties\<close>

text \<open>A bundle without items, for the closed instances of the theorems.\<close>

definition sample_bundle :: bundle_t where
  "sample_bundle = \<lparr>bu_service_id = ''media'', bu_requested_start = 0, bu_requested_end = 1, bu_effective_start = 0,
     bu_effective_end = 1, bu_items = [], bu_sources = [], bu_complete = True, bu_truncated = False,
     bu_compact = False, bu_byte_budget = 0, bu_byte_size = 0, bu_selection_truncated = False,
     bu_byte_budget_truncated = False, bu_omitted_items = 0, bu_omitted_sources = None, bu_warnings = [],
     bu_factual_summary = [], bu_retrieved_at = 1\<rparr>"

text \<open>The parts of the result, \<open>m\<close> being the bundle that the loop measured last.\<close>

lemma compact_incident_parts:
  fixes indent marshal b max_items budget
  defines "r \<equiv> compact_incident indent marshal b max_items budget" and "xs \<equiv> sort_items (bu_items b)"
  defines "b1 \<equiv> b\<lparr>bu_compact := True, bu_byte_budget := budget, bu_items := selected_items (select_items xs max_items),
      bu_selection_truncated := int (length xs) - int (length (select_items xs max_items)) > 0,
      bu_omitted_items := int (length xs) - int (length (select_items xs max_items))\<rparr>"
  obtains t m where "trim_loop (incident_wire_size indent marshal) budget False b1 = (t, m)"
    and "r\<lparr>bu_byte_size := bu_byte_size b\<rparr>
      = (m\<lparr>bu_omitted_sources := Some (omitted_sources_of m),
           bu_truncated := bu_truncated m \<or> bu_selection_truncated m \<or> t,
           bu_byte_budget_truncated := bu_byte_budget_truncated m \<or> t\<rparr>)\<lparr>bu_byte_size := bu_byte_size b\<rparr>"
    and "bu_byte_size r = incident_wire_size indent marshal
      (m\<lparr>bu_omitted_sources := Some (omitted_sources_of m),
         bu_truncated := bu_truncated m \<or> bu_selection_truncated m \<or> t,
         bu_byte_budget_truncated := bu_byte_budget_truncated m \<or> t\<rparr>)"
proof -
  obtain t m where tm: "trim_loop (incident_wire_size indent marshal) budget False b1 = (t, m)" by fastforce
  have xs: "sort_items (bu_items (b\<lparr>bu_compact := True, bu_byte_budget := budget\<rparr>)) = xs" by (simp add: xs_def)
  have "r = (let b2 = m\<lparr>bu_omitted_sources := Some (omitted_sources_of m),
         bu_truncated := bu_truncated m \<or> bu_selection_truncated m \<or> t,
         bu_byte_budget_truncated := bu_byte_budget_truncated m \<or> t\<rparr>
      in b2\<lparr>bu_byte_size := incident_wire_size indent marshal b2\<rparr>)"
    unfolding r_def compact_incident_def Let_def xs b1_def [symmetric] trim_to_budget_def tm by simp
  with that [OF tm] show ?thesis by (simp add: Let_def)
qed

lemma selected_trim_inv:
  assumes ids: "distinct (map it_id items)" and mx: "0 \<le> mx"
  defines "xs \<equiv> sort_items items"
  shows "trim_inv xs (selected_items (select_items xs mx))
    \<and> length (select_items xs mx) = min (nat mx) (length items)
    \<and> length (selected_items (select_items xs mx)) = length (select_items xs mx)"
proof -
  have "mset (map it_id xs) = mset (map it_id items)" by (simp add: xs_def sorting_simps)
  then have ids': "distinct (map it_id xs)" using ids mset_eq_imp_distinct_iff by blast
  have len: "length xs = length items" by (simp add: xs_def sorting_simps)
  have sorted: "sort_items xs = xs" by (simp add: xs_def sort_items_idem)
  let ?S = "selected_set xs mx"
  have ok: "sel_ok xs (select_items xs mx)" and cl: "newest_closed xs ?S"
    and n: "length (select_items xs mx) = min (nat mx) (length xs)"
    and src: "it_source ` ?S = it_source ` set xs \<or> inj_on it_source ?S"
    using select_items_ok [OF ids' mx] by blast+
  have sel: "selected_items (select_items xs mx) = filter (\<lambda>it. it \<in> ?S) xs"
    unfolding selected_set_def by (rule selected_items_filter [OF ok ids' sorted])
  have S: "set (filter (\<lambda>it. it \<in> ?S) xs) = ?S" using ok by (auto simp: selected_set_def sel_ok_def)
  have "distinct (filter (\<lambda>it. it \<in> ?S) xs)" using ids' by (simp add: distinct_map)
  then have "it_source ` set (filter (\<lambda>it. it \<in> ?S) xs) = it_source ` set xs
      \<or> distinct (map it_source (filter (\<lambda>it. it \<in> ?S) xs))"
    using src unfolding S distinct_map by blast
  then have "trim_inv xs (filter (\<lambda>it. it \<in> ?S) xs)"
    unfolding trim_inv_def using newest_closed_suffix [OF cl] subseq_filter_left by blast
  moreover have "length (selected_items (select_items xs mx)) = length (select_items xs mx)"
    by (simp add: selected_items_def sorting_simps)
  ultimately show ?thesis using sel n len by simp
qed

text \<open>
  Property C30: the compact bundle has, in timeline order, at most \<open>max_items\<close> items; of each source
  it keeps the newest; it leaves a contributing source out only when no source has two items in the
  result; \<open>omitted_items\<close> is the number of items left out, and the two flags tell whether the item
  limit and the byte budget left any out.
\<close>
theorem compact_selection:
  fixes indent marshal b max_items budget
  defines "r \<equiv> compact_incident indent marshal b max_items budget"
  assumes ids: "distinct (map it_id (bu_items b))" and mx: "0 \<le> max_items"
  shows "subseq (bu_items r) (sort_items (bu_items b)) \<and> int (length (bu_items r)) \<le> max_items
    \<and> (\<forall>k. suffix (filter (\<lambda>it. it_source it = k) (bu_items r)) (filter (\<lambda>it. it_source it = k) (sort_items (bu_items b))))
    \<and> (it_source ` set (bu_items r) = it_source ` set (bu_items b) \<or> distinct (map it_source (bu_items r)))
    \<and> bu_omitted_items r + int (length (bu_items r)) = int (length (bu_items b))
    \<and> (bu_selection_truncated r \<longleftrightarrow> int (length (bu_items b)) > max_items)
    \<and> (bu_byte_budget_truncated r \<longleftrightarrow> bu_byte_budget_truncated b
         \<or> length (bu_items r) < min (nat max_items) (length (bu_items b)))"
proof -
  let ?xs = "sort_items (bu_items b)"
  let ?sel = "select_items ?xs max_items"
  let ?b1 = "b\<lparr>bu_compact := True, bu_byte_budget := budget, bu_items := selected_items ?sel,
      bu_selection_truncated := int (length ?xs) - int (length ?sel) > 0,
      bu_omitted_items := int (length ?xs) - int (length ?sel)\<rparr>"
  note sel = selected_trim_inv [OF ids mx]
  obtain t m where tm: "trim_loop (incident_wire_size indent marshal) budget False ?b1 = (t, m)"
    and r: "r\<lparr>bu_byte_size := bu_byte_size b\<rparr>
      = (m\<lparr>bu_omitted_sources := Some (omitted_sources_of m),
           bu_truncated := bu_truncated m \<or> bu_selection_truncated m \<or> t,
           bu_byte_budget_truncated := bu_byte_budget_truncated m \<or> t\<rparr>)\<lparr>bu_byte_size := bu_byte_size b\<rparr>"
    unfolding r_def by (rule compact_incident_parts)
  have f: "bu_items r = bu_items m" "bu_omitted_items r = bu_omitted_items m"
    "bu_selection_truncated r = bu_selection_truncated m"
    "bu_byte_budget_truncated r = (bu_byte_budget_truncated m \<or> t)"
    using r by (auto dest: arg_cong [of _ _ bu_items] arg_cong [of _ _ bu_omitted_items]
        arg_cong [of _ _ bu_selection_truncated] arg_cong [of _ _ bu_byte_budget_truncated])
  have inv1: "trim_inv ?xs (bu_items ?b1)" using sel by simp
  have n1: "bu_omitted_items ?b1 + int (length (bu_items ?b1)) = int (length (bu_items b))"
    using sel by (simp add: sorting_simps)
  have m: "trim_inv ?xs (bu_items m)" "bu_omitted_items m + int (length (bu_items m)) = int (length (bu_items b))"
    "t \<longleftrightarrow> length (bu_items m) < length (selected_items ?sel)" "length (bu_items m) \<le> length (selected_items ?sel)"
    using trim_loop_ok [OF inv1 n1 tm] by simp_all
  have m': "m = ?b1\<lparr>bu_items := bu_items m, bu_omitted_items := bu_omitted_items m\<rparr>"
    using trim_loop_spec [OF tm] by blast
  have st: "bu_selection_truncated m \<longleftrightarrow> int (length ?xs) - int (length ?sel) > 0"
    and bt: "bu_byte_budget_truncated m = bu_byte_budget_truncated b"
    by (subst m', simp)+
  have n: "length (selected_items ?sel) = min (nat max_items) (length (bu_items b))"
    "length ?sel = min (nat max_items) (length (bu_items b))" "length ?xs = length (bu_items b)"
    using sel by (simp_all add: sorting_simps)
  have "int (length (bu_items m)) \<le> max_items" using m(4) mx unfolding n(1) by linarith
  moreover have "bu_selection_truncated m \<longleftrightarrow> int (length (bu_items b)) > max_items"
    using mx unfolding st n by linarith
  moreover have "it_source ` set ?xs = it_source ` set (bu_items b)" by (simp add: sorting_simps)
  ultimately show ?thesis
    using m(1,2,3) bt unfolding f n(1) trim_inv_def by presburger
qed

lemma compact_selection_witness:
  "int (length (bu_items (compact_incident (\<lambda>_. Some []) (\<lambda>_. Some [])
      (sample_bundle\<lparr>bu_items := [sample_item ''a'' 1, sample_item ''b'' 2]\<rparr>) 1 8192))) \<le> 1"
  using compact_selection [of "sample_bundle\<lparr>bu_items := [sample_item ''a'' 1, sample_item ''b'' 2]\<rparr>" 1]
  by (simp add: sample_item_def)

lemma image_witness: "f ` {s \<in> A. (\<exists>s' \<in> A. f s' = f s \<and> P s') \<and> f s \<notin> X} = f ` {s \<in> A. P s} - X"
proof (rule set_eqI)
  fix k
  have "k \<in> f ` {s \<in> A. (\<exists>s' \<in> A. f s' = f s \<and> P s') \<and> f s \<notin> X}
      \<longleftrightarrow> (\<exists>s \<in> A. k = f s \<and> (\<exists>s' \<in> A. f s' = f s \<and> P s') \<and> f s \<notin> X)" by blast
  also have "\<dots> \<longleftrightarrow> (\<exists>s \<in> A. k = f s \<and> P s) \<and> k \<notin> X" by metis
  also have "\<dots> \<longleftrightarrow> k \<in> f ` {s \<in> A. P s} - X" by blast
  finally show "k \<in> f ` {s \<in> A. (\<exists>s' \<in> A. f s' = f s \<and> P s') \<and> f s \<notin> X} \<longleftrightarrow> k \<in> f ` {s \<in> A. P s} - X" .
qed

text \<open>
  Property C31: a compact bundle with items was within the byte budget when its size was last measured,
  that is, before \<open>truncated\<close>, \<open>byte_budget_truncated\<close> and \<open>omitted_sources\<close> were set; its
  \<open>omitted_sources\<close> are, sorted and without repetition, exactly the kinds of sources that collected
  items and have none in the bundle; its \<open>byte_size\<close> is the size of everything but \<open>byte_size\<close>.
\<close>
theorem compact_budget:
  fixes indent marshal b max_items budget
  defines "r \<equiv> compact_incident indent marshal b max_items budget"
  shows "(bu_items r = [] \<or> incident_wire_size indent marshal (r\<lparr>bu_truncated := bu_truncated b,
        bu_byte_budget_truncated := bu_byte_budget_truncated b, bu_omitted_sources := bu_omitted_sources b,
        bu_byte_size := bu_byte_size b\<rparr>) \<le> budget)
    \<and> bu_byte_size r = incident_wire_size indent marshal (r\<lparr>bu_byte_size := bu_byte_size b\<rparr>)
    \<and> (\<exists>os. bu_omitted_sources r = Some os \<and> sorted os \<and> distinct os
        \<and> set os = source_str ` ((so_kind ` {s \<in> set (bu_sources b). so_item_count s > 0}) - it_source ` set (bu_items r)))"
proof -
  let ?xs = "sort_items (bu_items b)"
  let ?sel = "select_items ?xs max_items" and ?wire = "incident_wire_size indent marshal"
  let ?b1 = "b\<lparr>bu_compact := True, bu_byte_budget := budget, bu_items := selected_items ?sel,
      bu_selection_truncated := int (length ?xs) - int (length ?sel) > 0,
      bu_omitted_items := int (length ?xs) - int (length ?sel)\<rparr>"
  obtain t m where tm: "trim_loop ?wire budget False ?b1 = (t, m)"
    and r: "r\<lparr>bu_byte_size := bu_byte_size b\<rparr>
      = (m\<lparr>bu_omitted_sources := Some (omitted_sources_of m),
           bu_truncated := bu_truncated m \<or> bu_selection_truncated m \<or> t,
           bu_byte_budget_truncated := bu_byte_budget_truncated m \<or> t\<rparr>)\<lparr>bu_byte_size := bu_byte_size b\<rparr>"
    and size: "bu_byte_size r = ?wire (m\<lparr>bu_omitted_sources := Some (omitted_sources_of m),
         bu_truncated := bu_truncated m \<or> bu_selection_truncated m \<or> t,
         bu_byte_budget_truncated := bu_byte_budget_truncated m \<or> t\<rparr>)"
    unfolding r_def by (rule compact_incident_parts)
  have m: "bu_items m = [] \<or> ?wire m \<le> budget" "m = ?b1\<lparr>bu_items := bu_items m, bu_omitted_items := bu_omitted_items m\<rparr>"
    using trim_loop_spec [OF tm] by blast+
  have frame: "bu_truncated m = bu_truncated b" "bu_byte_budget_truncated m = bu_byte_budget_truncated b"
    "bu_omitted_sources m = bu_omitted_sources b" "bu_byte_size m = bu_byte_size b" "bu_sources m = bu_sources b"
    by (subst m(2), simp)+
  have "r\<lparr>bu_truncated := bu_truncated b, bu_byte_budget_truncated := bu_byte_budget_truncated b,
        bu_omitted_sources := bu_omitted_sources b, bu_byte_size := bu_byte_size b\<rparr>
      = (r\<lparr>bu_byte_size := bu_byte_size b\<rparr>)\<lparr>bu_truncated := bu_truncated m,
          bu_byte_budget_truncated := bu_byte_budget_truncated m, bu_omitted_sources := bu_omitted_sources m\<rparr>"
    by (simp add: frame)
  also have "\<dots> = m" unfolding r by (simp flip: frame)
  finally have reset: "r\<lparr>bu_truncated := bu_truncated b, bu_byte_budget_truncated := bu_byte_budget_truncated b,
        bu_omitted_sources := bu_omitted_sources b, bu_byte_size := bu_byte_size b\<rparr> = m" .
  have items: "bu_items r = bu_items m" using arg_cong [OF r, of bu_items] by simp
  have om: "bu_omitted_sources r = Some (omitted_sources_of m)" using arg_cong [OF r, of bu_omitted_sources] by simp
  have "so_kind ` {s \<in> set (bu_sources b). source_had_items m (so_kind s) \<and> so_kind s \<notin> it_source ` set (bu_items m)}
      = so_kind ` {s \<in> set (bu_sources b). so_item_count s > 0} - it_source ` set (bu_items m)"
    unfolding source_had_items_def frame(5) list_ex_iff by (rule image_witness)
  then have "set (omitted_sources_of m)
      = source_str ` ((so_kind ` {s \<in> set (bu_sources b). so_item_count s > 0}) - it_source ` set (bu_items m))"
    by (simp add: omitted_sources_of_def set_keep_first frame(5) image_image [symmetric, of source_str so_kind])
  moreover have "sorted (omitted_sources_of m) \<and> distinct (omitted_sources_of m)"
    by (simp add: omitted_sources_of_def distinct_keep_first)
  moreover have "bu_byte_size r = ?wire (r\<lparr>bu_byte_size := bu_byte_size b\<rparr>)"
    unfolding r size by (simp flip: frame(4))
  ultimately show ?thesis using m(1) unfolding reset items om by blast
qed

text \<open>
  With encoders that write the identifiers of the items and the omitted sources, a result that was
  within a budget of 524 when measured has size 526.
\<close>

definition sketch_encoder :: encoder where
  "sketch_encoder b = Some (concat (map it_id (bu_items b))
     @ (case bu_omitted_sources b of None \<Rightarrow> ''null'' | Some os \<Rightarrow> ''['' @ str_join '','' os @ '']''))"

lemma compact_size_can_exceed_budget:
  "let r = compact_incident sketch_encoder sketch_encoder (sample_bundle\<lparr>bu_items := [sample_item ''a'' 1,
       (sample_item ''b'' 2)\<lparr>it_source := SourceGatus\<rparr>], bu_sources := [\<lparr>so_name = ''l'', so_kind = SourceLoki,
       so_status = StOk, so_reason = [], so_error = [], so_item_count = 1, so_complete = True, so_truncated = False,
       so_upstream_truncated = False, so_local_truncated = False, so_discarded = 0, so_omitted = 0,
       so_cache_state = [], so_cache_age = 0, so_duration_ms = 1\<rparr>]\<rparr>) 1 524
   in bu_items r \<noteq> [] \<and> bu_byte_size r > bu_byte_budget r"
  by code_simp

end
