(* ===== verification/Collect.thy ===== *)
theory Collect
  imports HttpClient Registry Compact
begin

text \<open>
  The collectors of the MCP server (\<open>internal/mcpserver/collectors.go\<close>): one source call under its
  timeout and slot, the outcome of a failure, the marks a collector puts on an outcome, the coverage
  of a multi-source result and the requested window. The adapters are records of functions, each the
  result of its calls; \<open>run_env\<close> holds what happened around one source call. Lemmas: every outcome
  stays in the vocabulary of the output schema, and it tells what the adapter reported.
\<close>

section \<open>Errors and contexts\<close>

text \<open>An error value: its text, and whether \<open>errors.Is(err, healthchecks.ErrNoMatch)\<close>.\<close>

record go_error =
  er_text :: string
  er_no_match :: bool

abbreviation plain_error :: "string \<Rightarrow> go_error" where
  "plain_error s \<equiv> \<lparr>er_text = s, er_no_match = False\<rparr>"

datatype ctx_err = CtxOk | CtxCanceled | CtxDeadline

fun ctx_error :: "ctx_err \<Rightarrow> go_error" where
  "ctx_error CtxCanceled = plain_error ''context canceled''"
| "ctx_error CtxDeadline = plain_error ''context deadline exceeded''"
| "ctx_error CtxOk = plain_error []"

text \<open>
  Around one call: the caller's context at the start and while it waits for a slot, both contexts
  after the call, the cache record of the call, its duration and the clock afterwards.
\<close>

record run_env =
  rn_entry :: ctx_err
  rn_wait :: ctx_err
  rn_parent :: ctx_err
  rn_source :: ctx_err
  rn_info :: request_info
  rn_ms :: int
  rn_now :: time

definition fn_ran :: "run_env \<Rightarrow> bool" where
  "fn_ran env \<longleftrightarrow> rn_entry env = CtxOk \<and> rn_wait env = CtxOk"

section \<open>One source call\<close>

definition sanitize_err :: "engine \<Rightarrow> string \<Rightarrow> string" where
  "sanitize_err eng msg = fst (truncate_runes (fst (redact_apply (Some eng) msg)) 300)"

definition reason_for_error :: "unicode \<Rightarrow> go_error \<Rightarrow> string" where
  "reason_for_error uc err =
     (if er_no_match err then ''unmatched_binding''
      else (let message = to_lower uc (er_text err)
            in if str_contains message ''authentication'' \<or> str_contains message '' 401'' \<or> str_contains message '' 403''
               then ''authentication_failed''
               else if str_contains message ''timeout'' then ''timeout'' else ''upstream_error''))"

definition source_error_outcome ::
  "unicode \<Rightarrow> engine \<Rightarrow> ctx_err \<Rightarrow> ctx_err \<Rightarrow> string \<Rightarrow> source_kind \<Rightarrow> go_error \<Rightarrow> int \<Rightarrow> source_outcome" where
  "source_error_outcome uc eng ctx source_ctx name kind err ms =
     (let (st, reason) =
        (if ctx = CtxCanceled \<or> source_ctx = CtxCanceled then (StCanceled, ''canceled'')
         else if source_ctx = CtxDeadline \<or> ctx = CtxDeadline then (StTimeout, ''timeout'')
         else (StError, reason_for_error uc err))
      in \<lparr>so_name = name, so_kind = kind, so_status = st, so_reason = reason,
          so_error = sanitize_err eng (er_text err), so_item_count = 0, so_complete = False,
          so_truncated = False, so_upstream_truncated = False, so_local_truncated = False,
          so_discarded = 0, so_omitted = 0, so_cache_state = [], so_cache_age = 0, so_duration_ms = ms\<rparr>)"

definition with_cache :: "string \<times> int \<Rightarrow> source_outcome \<Rightarrow> source_outcome" where
  "with_cache snap o1 = o1\<lparr>so_cache_state := fst snap, so_cache_age := snd snap\<rparr>"

definition with_source_timeout ::
  "unicode \<Rightarrow> engine \<Rightarrow> run_env \<Rightarrow> string \<Rightarrow> source_kind \<Rightarrow> go_error + item list \<Rightarrow> source_outcome \<times> item list" where
  "with_source_timeout uc eng env name kind result =
     (if rn_entry env \<noteq> CtxOk
      then (with_cache (info_snapshot (rn_now env) (Some new_request_info))
              (source_error_outcome uc eng (rn_entry env) (rn_entry env) name kind (ctx_error (rn_entry env)) (rn_ms env)), [])
      else if rn_wait env \<noteq> CtxOk
      then (with_cache (info_snapshot (rn_now env) (Some new_request_info))
              (source_error_outcome uc eng (rn_wait env) (rn_wait env) name kind (ctx_error (rn_wait env)) (rn_ms env)), [])
      else (let snap = info_snapshot (rn_now env) (Some (rn_info env))
            in (case result of
                 Inl err \<Rightarrow> (with_cache snap
                   (source_error_outcome uc eng (rn_parent env) (rn_source env) name kind err (rn_ms env)), [])
               | Inr items \<Rightarrow>
                   (\<lparr>so_name = name, so_kind = kind, so_status = StOk, so_reason = [], so_error = [],
                     so_item_count = int (length items), so_complete = True, so_truncated = False,
                     so_upstream_truncated = False, so_local_truncated = False, so_discarded = 0,
                     so_omitted = 0, so_cache_state = fst snap, so_cache_age = snd snap,
                     so_duration_ms = rn_ms env\<rparr>, items))))"

section \<open>Marks on an outcome\<close>

definition is_missing_item :: "item \<Rightarrow> bool" where
  "is_missing_item it \<longleftrightarrow> it_freshness it = FreshnessMissing \<or> map_of (it_attributes it) ''found'' = Some (ABool False)"

definition mark_unmatched :: "source_outcome \<Rightarrow> source_outcome" where
  "mark_unmatched o1 = o1\<lparr>so_reason := ''unmatched_binding'', so_complete := False\<rparr>"

definition mark_empty :: "source_outcome \<Rightarrow> source_outcome" where
  "mark_empty o1 =
     (if so_status o1 = StOk \<and> so_reason o1 = [] \<and> so_item_count o1 = 0
      then o1\<lparr>so_reason := ''empty_result''\<rparr> else o1)"

definition mark_truncated :: "bool \<Rightarrow> bool \<Rightarrow> source_outcome \<Rightarrow> source_outcome" where
  "mark_truncated upstream here o1 =
     (let o1 = o1\<lparr>so_upstream_truncated := upstream, so_local_truncated := here, so_truncated := upstream \<or> here\<rparr>
      in if so_truncated o1
         then o1\<lparr>so_complete := False, so_reason := (if so_reason o1 = [] then ''truncated'' else so_reason o1)\<rparr>
         else o1)"

definition mark_discarded :: "int \<Rightarrow> source_outcome \<Rightarrow> source_outcome" where
  "mark_discarded n o1 =
     (if n \<le> 0 then o1
      else o1\<lparr>so_discarded := n, so_complete := False, so_reason := ''partial_invalid_records''\<rparr>)"

definition mark_snapshot_history :: "time \<Rightarrow> time \<Rightarrow> source_outcome \<Rightarrow> source_outcome" where
  "mark_snapshot_history fin now o1 =
     (if so_status o1 \<noteq> StOk then o1
      else if fin < now - 30 * second then o1\<lparr>so_reason := ''unsupported_history'', so_complete := False\<rparr>
      else o1)"

definition filter_current_snapshots :: "time \<Rightarrow> time \<Rightarrow> item list \<Rightarrow> item list" where
  "filter_current_snapshots start fin items =
     map (\<lambda>it. it\<lparr>it_window_start := Some start, it_window_end := Some fin\<rparr>)
       (filter (\<lambda>it. \<not> (it_observed_at it < start \<or> it_observed_at it > fin + 30 * second)) items)"

section \<open>The adapters\<close>

text \<open>The healthchecks filter and the results of \<open>Transitions\<close> (\<open>adapters/healthchecks\<close>).\<close>

record hc_filter =
  hf_name :: string
  hf_tags :: "string list"
  hf_uuid :: string
  hf_unique_key :: string
  hf_status :: string

definition empty_filter :: hc_filter where
  "empty_filter = \<lparr>hf_name = [], hf_tags = [], hf_uuid = [], hf_unique_key = [], hf_status = []\<rparr>"

definition filter_from_ref :: "healthchecks_ref \<Rightarrow> hc_filter" where
  "filter_from_ref r = \<lparr>hf_name = hr_check_name r, hf_tags = hr_check_tags r, hf_uuid = hr_check_uuid r,
     hf_unique_key = hr_check_unique_key r, hf_status = hr_status_filter r\<rparr>"

record transition_result =
  tr_items :: "item list"
  tr_omitted :: int
  tr_discarded :: int
  tr_truncated :: bool
  tr_failures :: int
  tr_missing_identity :: int
  tr_requests :: int

record loki_query =
  lq_service_id :: string
  lq_selector :: string
  lq_start :: time
  lq_end :: time
  lq_limit :: int
  lq_text :: string
  lq_regex :: string

text \<open>One client of each kind: what its methods return. A method that returns items with a flag also
  returns the error, since the collector keeps the flag of a failed call.\<close>

record gatus_api =
  ga_status :: "string \<Rightarrow> string \<Rightarrow> go_error + item"
  ga_window :: "string \<Rightarrow> string \<Rightarrow> time \<Rightarrow> time \<Rightarrow> int \<Rightarrow> (item list \<times> bool) \<times> go_error option"

record hc_api =
  ha_status :: "string \<Rightarrow> hc_filter \<Rightarrow> go_error + item list"
  ha_failed :: "string \<Rightarrow> hc_filter \<Rightarrow> time \<Rightarrow> time \<Rightarrow> go_error + item list"
  ha_transitions :: "string \<Rightarrow> hc_filter \<Rightarrow> time \<Rightarrow> time \<Rightarrow> transition_result \<times> go_error option"

type_synonym snapshot_api = "string \<Rightarrow> string \<Rightarrow> go_error + item list"
type_synonym loki_api = "loki_query \<Rightarrow> ((item list \<times> bool) \<times> int) \<times> go_error option"
type_synonym ntfy_api = "string \<Rightarrow> string \<Rightarrow> time \<Rightarrow> time \<Rightarrow> int \<Rightarrow> (item list \<times> bool \<times> bool) \<times> go_error option"

record clients =
  cl_gatus :: "(string, gatus_api) gomap"
  cl_docker :: "(string, snapshot_api) gomap"
  cl_loki :: "(string, loki_api) gomap"
  cl_hc :: "(string, hc_api) gomap"
  cl_beszel :: "(string, snapshot_api) gomap"
  cl_ntfy :: "(string, ntfy_api) gomap"

text \<open>What every collector reads of the application.\<close>

record collect_ctx =
  cc_unicode :: unicode
  cc_engine :: engine
  cc_clients :: clients
  cc_limits :: limits

definition as_result :: "'a \<Rightarrow> go_error option \<Rightarrow> go_error + 'a" where
  "as_result x err = (case err of None \<Rightarrow> Inr x | Some e \<Rightarrow> Inl e)"

definition source_call ::
  "collect_ctx \<Rightarrow> run_env \<Rightarrow> string \<Rightarrow> source_kind \<Rightarrow> go_error + item list \<Rightarrow> source_outcome \<times> item list" where
  "source_call cc env name kind result =
     with_source_timeout (cc_unicode cc) (cc_engine cc) env name kind result"

section \<open>The collectors\<close>

definition collect_gatus_status ::
  "collect_ctx \<Rightarrow> run_env \<Rightarrow> string \<Rightarrow> gatus_ref \<Rightarrow> source_outcome \<times> item list" where
  "collect_gatus_status cc env sid ref =
     (let result = (case map_of (cl_gatus (cc_clients cc)) (gr_source ref) of
            None \<Rightarrow> Inl (plain_error ''gatus client missing'')
          | Some cli \<Rightarrow> (case ga_status cli sid (gr_endpoint_key ref) of Inl e \<Rightarrow> Inl e | Inr it \<Rightarrow> Inr [it]));
          (o1, items) = source_call cc env (gr_source ref) SourceGatus result;
          o1 = (if length items = 1 \<and> is_missing_item (hd items) then mark_unmatched o1 else o1)
      in (mark_empty o1, items))"

definition collect_gatus_window ::
  "collect_ctx \<Rightarrow> run_env \<Rightarrow> string \<Rightarrow> gatus_ref \<Rightarrow> time \<Rightarrow> time \<Rightarrow> int \<Rightarrow> source_outcome \<times> item list" where
  "collect_gatus_window cc env sid ref start fin mx =
     (let cap = li_max_evidence_items (cc_limits cc);
          mx = (if mx \<le> 0 \<or> mx > cap then cap else mx);
          (result, clipped) = (case map_of (cl_gatus (cc_clients cc)) (gr_source ref) of
            None \<Rightarrow> (Inl (plain_error ''gatus client missing''), False)
          | Some cli \<Rightarrow> (case ga_window cli sid (gr_endpoint_key ref) start fin mx of
              ((its, clipped), err) \<Rightarrow> (as_result its err, clipped)));
          (o1, items) = source_call cc env (gr_source ref) SourceGatus result;
          o1 = (if list_ex is_missing_item items then mark_unmatched o1 else o1)
      in (mark_empty (mark_truncated False (fn_ran env \<and> clipped) o1), items))"

definition snapshot_result ::
  "string \<Rightarrow> (string, snapshot_api) gomap \<Rightarrow> string \<Rightarrow> string \<Rightarrow> string \<Rightarrow> go_error + item list" where
  "snapshot_result missing clis source sid name =
     (case map_of clis source of None \<Rightarrow> Inl (plain_error missing) | Some cli \<Rightarrow> cli sid name)"

definition collect_docker_status ::
  "collect_ctx \<Rightarrow> run_env \<Rightarrow> string \<Rightarrow> docker_ref \<Rightarrow> source_outcome \<times> item list" where
  "collect_docker_status cc env sid ref =
     (let result = snapshot_result ''docker client missing'' (cl_docker (cc_clients cc)) (dr_source ref) sid (dr_container_name ref);
          (o1, items) = source_call cc env (dr_source ref) SourceDocker result;
          o1 = (if length items = 1 \<and> is_missing_item (hd items) then mark_unmatched o1 else o1)
      in (mark_empty o1, items))"

definition collect_docker_window ::
  "collect_ctx \<Rightarrow> run_env \<Rightarrow> string \<Rightarrow> docker_ref \<Rightarrow> time \<Rightarrow> time \<Rightarrow> source_outcome \<times> item list" where
  "collect_docker_window cc env sid ref start fin =
     (let result = map_sum (\<lambda>e. e) (filter_current_snapshots start fin)
            (snapshot_result ''docker client missing'' (cl_docker (cc_clients cc)) (dr_source ref) sid (dr_container_name ref));
          (o1, items) = source_call cc env (dr_source ref) SourceDocker result
      in (mark_empty (mark_snapshot_history fin (rn_now env) o1), items))"

definition collect_loki ::
  "collect_ctx \<Rightarrow> run_env \<Rightarrow> string \<Rightarrow> loki_ref \<Rightarrow> time \<Rightarrow> time \<Rightarrow> string \<Rightarrow> string \<Rightarrow> int \<Rightarrow> source_outcome \<times> item list" where
  "collect_loki cc env sid ref start fin text rx limit =
     (let (result, clipped, discarded) = (case map_of (cl_loki (cc_clients cc)) (lr_source ref) of
            None \<Rightarrow> (Inl (plain_error ''loki client missing''), False, 0)
          | Some cli \<Rightarrow> (case cli \<lparr>lq_service_id = sid, lq_selector = lr_selector ref, lq_start = start, lq_end = fin,
                lq_limit = limit, lq_text = text, lq_regex = rx\<rparr> of
              (((its, clipped), discarded), err) \<Rightarrow> (as_result its err, clipped, discarded)));
          (o1, items) = source_call cc env (lr_source ref) SourceLoki result;
          o1 = mark_truncated False (fn_ran env \<and> clipped) o1
      in (mark_empty (mark_discarded (if fn_ran env then discarded else 0) o1), items))"

definition collect_hc_status ::
  "collect_ctx \<Rightarrow> run_env \<Rightarrow> string \<Rightarrow> healthchecks_ref \<Rightarrow> source_outcome \<times> item list" where
  "collect_hc_status cc env sid ref =
     (let result = (case map_of (cl_hc (cc_clients cc)) (hr_source ref) of
            None \<Rightarrow> Inl (plain_error ''healthchecks client missing'')
          | Some cli \<Rightarrow> ha_status cli sid (filter_from_ref ref));
          (o1, items) = source_call cc env (hr_source ref) SourceHealthchecks result
      in (mark_empty o1, items))"

text \<open>The outcome of a history query that ran: its coverage is never complete.\<close>

definition mark_transitions :: "transition_result \<Rightarrow> nat \<Rightarrow> source_outcome \<Rightarrow> source_outcome" where
  "mark_transitions tr n o1 =
     (let o1 = o1\<lparr>so_omitted := tr_omitted tr, so_discarded := tr_discarded tr, so_local_truncated := tr_truncated tr,
            so_truncated := tr_truncated tr, so_complete := False, so_reason := ''unknown_history_coverage''\<rparr>
      in if tr_failures tr > 0
         then o1\<lparr>so_reason := ''partial_fetch'',
                 so_error := show_int (tr_failures tr) @ '' healthcheck history request(s) failed''\<rparr>
         else if tr_missing_identity tr > 0 \<and> n = 0
         then o1\<lparr>so_reason := ''missing_identity'', so_error := ''no selected check exposes a unique_key for history''\<rparr>
         else if tr_omitted tr > 0 then o1\<lparr>so_reason := ''omitted_checks''\<rparr>
         else if tr_truncated tr then o1\<lparr>so_reason := ''truncated''\<rparr>
         else o1)"

definition collect_hc_window ::
  "collect_ctx \<Rightarrow> run_env \<Rightarrow> string \<Rightarrow> healthchecks_ref \<Rightarrow> time \<Rightarrow> time \<Rightarrow> source_outcome \<times> item list" where
  "collect_hc_window cc env sid ref start fin =
     (let f = (filter_from_ref ref)\<lparr>hf_status := []\<rparr>;
          cli = map_of (cl_hc (cc_clients cc)) (hr_source ref);
          missing = plain_error ''healthchecks client missing''
      in if hr_history_mode ref = ''transitions''
         then (case (case cli of None \<Rightarrow> None | Some c \<Rightarrow> Some (ha_transitions c sid f start fin)) of
               None \<Rightarrow> source_call cc env (hr_source ref) SourceHealthchecks (Inl missing)
             | Some (tr, err) \<Rightarrow>
                 (let (o1, items) = source_call cc env (hr_source ref) SourceHealthchecks (as_result (tr_items tr) err)
                  in if so_status o1 \<noteq> StOk then (o1, items)
                     else (mark_transitions tr (length items) o1, items)))
         else (let result = (case cli of None \<Rightarrow> Inl missing | Some c \<Rightarrow> ha_failed c sid f start fin);
                   (o1, items) = source_call cc env (hr_source ref) SourceHealthchecks result
               in (mark_empty (mark_snapshot_history fin (rn_now env) o1), items)))"

definition collect_hc_all_failed ::
  "collect_ctx \<Rightarrow> run_env \<Rightarrow> string \<Rightarrow> hc_api \<Rightarrow> time \<Rightarrow> time \<Rightarrow> source_outcome \<times> item list" where
  "collect_hc_all_failed cc env name cli start fin =
     (let (o1, items) = source_call cc env name SourceHealthchecks (ha_failed cli [] empty_filter start fin)
      in (mark_empty (mark_snapshot_history fin (rn_now env) o1), items))"

definition collect_beszel ::
  "collect_ctx \<Rightarrow> run_env \<Rightarrow> string \<Rightarrow> beszel_ref \<Rightarrow> source_outcome \<times> item list" where
  "collect_beszel cc env sid ref =
     (let result = snapshot_result ''beszel client missing'' (cl_beszel (cc_clients cc)) (br_source ref) sid (br_system_name ref);
          (o1, items) = source_call cc env (br_source ref) SourceBeszel result;
          o1 = (if length items = 1 \<and> is_missing_item (hd items) then mark_unmatched o1 else o1)
      in (mark_empty o1, items))"

definition collect_beszel_window ::
  "collect_ctx \<Rightarrow> run_env \<Rightarrow> string \<Rightarrow> beszel_ref \<Rightarrow> time \<Rightarrow> time \<Rightarrow> source_outcome \<times> item list" where
  "collect_beszel_window cc env sid ref start fin =
     (let result = map_sum (\<lambda>e. e) (filter_current_snapshots start fin)
            (snapshot_result ''beszel client missing'' (cl_beszel (cc_clients cc)) (br_source ref) sid (br_system_name ref));
          (o1, items) = source_call cc env (br_source ref) SourceBeszel result
      in (mark_empty (mark_snapshot_history fin (rn_now env) o1), items))"

definition collect_ntfy ::
  "collect_ctx \<Rightarrow> run_env \<Rightarrow> string \<Rightarrow> ntfy_ref \<Rightarrow> time \<Rightarrow> time \<Rightarrow> int \<Rightarrow> source_outcome \<times> item list" where
  "collect_ntfy cc env sid ref start fin limit =
     (let (result, upstream, clipped) = (case map_of (cl_ntfy (cc_clients cc)) (nr_source ref) of
            None \<Rightarrow> (Inl (plain_error ''ntfy client missing''), False, False)
          | Some cli \<Rightarrow> (case cli sid (nr_topic ref) start fin limit of
              ((its, upstream, clipped), err) \<Rightarrow> (as_result its err, upstream, clipped)));
          (o1, items) = source_call cc env (nr_source ref) SourceNtfy result
      in (mark_empty (mark_truncated (fn_ran env \<and> upstream) (fn_ran env \<and> clipped) o1), items))"

section \<open>Coverage and window\<close>

definition normalize_outcome :: "source_outcome \<Rightarrow> source_outcome" where
  "normalize_outcome o1 =
     (if so_reason o1 \<noteq> [] then o1
      else if so_status o1 = StAbsent then o1\<lparr>so_reason := ''no_binding'', so_complete := True\<rparr>
      else if so_status o1 = StSkipped then o1\<lparr>so_reason := ''not_queried_by_tool'', so_complete := True\<rparr>
      else o1)"

definition normalize_outcomes :: "source_outcome list \<Rightarrow> source_outcome list" where
  "normalize_outcomes os = map normalize_outcome os"

fun outcome_coverage :: "source_outcome list \<Rightarrow> bool \<times> bool \<times> nat" where
  "outcome_coverage [] = (True, False, 0)"
| "outcome_coverage (s # ss) =
     (let (complete, any_ok, configured) = outcome_coverage ss
      in if so_status s = StAbsent \<or> so_status s = StSkipped then (complete, any_ok, configured)
         else (complete \<and> so_complete s, any_ok \<or> so_status s = StOk, configured + 1))"

definition audit_status :: "bool \<Rightarrow> bool \<Rightarrow> nat \<Rightarrow> string" where
  "audit_status complete any_ok configured =
     (if complete then ''ok'' else if configured > 0 \<and> \<not> any_ok then ''error'' else ''partial'')"

text \<open>\<open>parseWindow\<close>: \<open>parse\<close> is \<open>time.Parse\<close> with RFC 3339 as a UTC instant, \<open>duration\<close> is
  \<open>time.ParseDuration\<close>. The error texts are kept.\<close>

definition parse_window ::
  "(string \<Rightarrow> time option) \<Rightarrow> (string \<Rightarrow> duration option) \<Rightarrow> time \<Rightarrow> string \<Rightarrow> string \<Rightarrow> string \<Rightarrow>
   duration \<Rightarrow> duration \<Rightarrow> string + time \<times> time" where
  "parse_window parse duration now start_s end_s dur_s def mx =
     (case (if end_s \<noteq> [] then parse end_s else Some now) of
        None \<Rightarrow> Inl ''invalid end: want RFC3339''
      | Some fin \<Rightarrow>
          (case (if start_s \<noteq> []
                 then (case parse start_s of None \<Rightarrow> Inl ''invalid start: want RFC3339'' | Some t \<Rightarrow> Inr t)
                 else if dur_s \<noteq> []
                 then (case duration dur_s of
                         None \<Rightarrow> Inl ''invalid duration''
                       | Some d \<Rightarrow> if d \<le> 0 then Inl ''invalid duration''
                                  else if d > mx then Inl (''duration exceeds max window '' @ duration_string mx)
                                  else Inr (fin - d))
                 else Inr (fin - def)) of
             Inl e \<Rightarrow> Inl e
           | Inr start \<Rightarrow>
               if \<not> start < fin then Inl ''start must be before end''
               else if time_sub fin start > mx then Inl (''window exceeds max '' @ duration_string mx)
               else Inr (start, fin)))"

section \<open>The vocabulary of the output schema\<close>

text \<open>The closed vocabularies that \<open>applyStatusEnum\<close> of \<open>outputs.go\<close> writes into the schemas.\<close>

definition schema_statuses :: "string list" where
  "schema_statuses = [''ok'', ''error'', ''skipped'', ''timeout'', ''absent'', ''canceled'']"

definition schema_reasons :: "string list" where
  "schema_reasons = [[], ''empty_result'', ''no_binding'', ''unmatched_binding'', ''unsupported_history'',
     ''partial_invalid_records'', ''truncated'', ''timeout'', ''canceled'', ''upstream_error'',
     ''authentication_failed'', ''not_queried_by_tool'', ''unknown_history_coverage'', ''partial_fetch'',
     ''missing_identity'', ''omitted_checks'']"

definition schema_cache_states :: "string list" where
  "schema_cache_states = [[], ''hit'', ''miss'', ''disabled'']"

definition in_schema :: "source_outcome \<Rightarrow> bool" where
  "in_schema o1 \<longleftrightarrow> status_str (so_status o1) \<in> set schema_statuses \<and> so_reason o1 \<in> set schema_reasons
     \<and> so_cache_state o1 \<in> set schema_cache_states"

text \<open>A complete outcome hides no loss.\<close>

definition honest :: "source_outcome \<Rightarrow> item list \<Rightarrow> bool" where
  "honest o1 items \<longleftrightarrow> so_status o1 \<in> {StOk, StError, StTimeout, StCanceled}
     \<and> (so_status o1 \<noteq> StOk \<longrightarrow> items = [] \<and> \<not> so_complete o1) \<and> so_item_count o1 = int (length items)
     \<and> (so_complete o1 \<longrightarrow> \<not> so_truncated o1 \<and> \<not> so_upstream_truncated o1 \<and> \<not> so_local_truncated o1
          \<and> so_discarded o1 = 0 \<and> so_omitted o1 = 0 \<and> so_error o1 = []
          \<and> (so_reason o1 = [] \<or> so_reason o1 = ''empty_result'' \<and> items = []))"

definition good_outcome :: "string \<Rightarrow> source_kind \<Rightarrow> source_outcome \<Rightarrow> item list \<Rightarrow> bool" where
  "good_outcome name kind o1 items \<longleftrightarrow> in_schema o1 \<and> honest o1 items \<and> so_name o1 = name \<and> so_kind o1 = kind"

lemma status_in_schema [simp]: "status_str st \<in> set schema_statuses"
  by (cases st) (simp_all add: schema_statuses_def)

lemma reasons_in_schema [simp]:
  "[] \<in> set schema_reasons" "''empty_result'' \<in> set schema_reasons" "''no_binding'' \<in> set schema_reasons"
  "''unmatched_binding'' \<in> set schema_reasons" "''unsupported_history'' \<in> set schema_reasons"
  "''partial_invalid_records'' \<in> set schema_reasons" "''truncated'' \<in> set schema_reasons"
  "''timeout'' \<in> set schema_reasons" "''canceled'' \<in> set schema_reasons" "''upstream_error'' \<in> set schema_reasons"
  "''authentication_failed'' \<in> set schema_reasons" "''not_queried_by_tool'' \<in> set schema_reasons"
  "''unknown_history_coverage'' \<in> set schema_reasons" "''partial_fetch'' \<in> set schema_reasons"
  "''missing_identity'' \<in> set schema_reasons" "''omitted_checks'' \<in> set schema_reasons"
  by (simp_all add: schema_reasons_def)

lemma snapshot_in_schema [simp]: "fst (info_snapshot now info) \<in> set schema_cache_states"
  by (simp add: info_snapshot_def schema_cache_states_def Let_def split: option.splits)

lemma reason_for_error_in_schema: "reason_for_error uc err \<in> set schema_reasons"
  by (simp add: reason_for_error_def Let_def)

lemma source_error_good:
  "good_outcome name kind (with_cache (info_snapshot now info) (source_error_outcome uc eng c1 c2 name kind err ms)) []"
  by (auto simp: good_outcome_def in_schema_def honest_def with_cache_def source_error_outcome_def
      reason_for_error_in_schema Let_def split: prod.splits)

lemma source_call_good:
  "source_call cc env name kind result = (o1, items) \<Longrightarrow>
    good_outcome name kind o1 items \<and> (so_status o1 = StOk \<longrightarrow> so_error o1 = [] \<and> so_reason o1 = [])"
proof -
  assume h: "source_call cc env name kind result = (o1, items)"
  show ?thesis
  proof (cases "rn_entry env = CtxOk \<and> rn_wait env = CtxOk")
    case False
    then have st: "so_status o1 \<noteq> StOk"
      using h by (auto simp: source_call_def with_source_timeout_def with_cache_def source_error_outcome_def
          Let_def split: if_splits)
    with h False source_error_good show ?thesis
      by (auto simp: source_call_def with_source_timeout_def split: if_splits)
  next
    case True
    show ?thesis
    proof (cases result)
      case (Inl err)
      then have st: "so_status o1 \<noteq> StOk"
        using h True by (auto simp: source_call_def with_source_timeout_def with_cache_def source_error_outcome_def
            Let_def split: if_splits)
      with h True Inl source_error_good show ?thesis
        by (auto simp: source_call_def with_source_timeout_def Let_def)
    next
      case (Inr its)
      with h True have o1: "o1 = \<lparr>so_name = name, so_kind = kind, so_status = StOk, so_reason = [], so_error = [],
          so_item_count = int (length its), so_complete = True, so_truncated = False,
          so_upstream_truncated = False, so_local_truncated = False, so_discarded = 0, so_omitted = 0,
          so_cache_state = fst (info_snapshot (rn_now env) (Some (rn_info env))),
          so_cache_age = snd (info_snapshot (rn_now env) (Some (rn_info env))), so_duration_ms = rn_ms env\<rparr>"
        and its: "items = its"
        by (auto simp: source_call_def with_source_timeout_def Let_def)
      show ?thesis unfolding o1 its
        by (simp add: good_outcome_def in_schema_def honest_def schema_statuses_def)
    qed
  qed
qed

lemma mark_good [simp, intro]:
  assumes "good_outcome name kind o1 items"
  shows "good_outcome name kind (mark_empty o1) items"
    and "good_outcome name kind (mark_truncated up here o1) items"
    and "good_outcome name kind (mark_discarded n o1) items"
    and "good_outcome name kind (mark_snapshot_history fin now o1) items"
    and "good_outcome name kind (mark_unmatched o1) items"
    and "so_status o1 = StOk \<Longrightarrow> good_outcome name kind (mark_transitions tr k o1) items"
proof -
  show "good_outcome name kind (mark_empty o1) items"
    using assms by (auto simp: good_outcome_def in_schema_def honest_def mark_empty_def)
  show "good_outcome name kind (mark_truncated up here o1) items"
    using assms by (auto simp: good_outcome_def in_schema_def honest_def mark_truncated_def Let_def)
  show "good_outcome name kind (mark_discarded n o1) items"
    using assms by (auto simp: good_outcome_def in_schema_def honest_def mark_discarded_def)
  show "good_outcome name kind (mark_snapshot_history fin now o1) items"
    using assms by (auto simp: good_outcome_def in_schema_def honest_def mark_snapshot_history_def)
  show "good_outcome name kind (mark_unmatched o1) items"
    using assms by (auto simp: good_outcome_def in_schema_def honest_def mark_unmatched_def)
  show "good_outcome name kind (mark_transitions tr k o1) items" if "so_status o1 = StOk"
    using assms that by (auto simp: good_outcome_def in_schema_def honest_def mark_transitions_def Let_def)
qed

section \<open>Collections\<close>

text \<open>A collection a tool can start, with the window it passes on.\<close>

datatype collection =
    GatusStatus gatus_ref | GatusWindow gatus_ref time time int
  | DockerStatus docker_ref | DockerWindow docker_ref time time
  | LokiSearch loki_ref time time string string int
  | HcStatus healthchecks_ref | HcWindow healthchecks_ref time time | HcAllFailed string hc_api time time
  | Beszel beszel_ref | BeszelWindow beszel_ref time time
  | Ntfy ntfy_ref time time int

fun collect :: "collect_ctx \<Rightarrow> run_env \<Rightarrow> string \<Rightarrow> collection \<Rightarrow> source_outcome \<times> item list" where
  "collect cc env sid (GatusStatus ref) = collect_gatus_status cc env sid ref"
| "collect cc env sid (GatusWindow ref st fin mx) = collect_gatus_window cc env sid ref st fin mx"
| "collect cc env sid (DockerStatus ref) = collect_docker_status cc env sid ref"
| "collect cc env sid (DockerWindow ref st fin) = collect_docker_window cc env sid ref st fin"
| "collect cc env sid (LokiSearch ref st fin text rx limit) = collect_loki cc env sid ref st fin text rx limit"
| "collect cc env sid (HcStatus ref) = collect_hc_status cc env sid ref"
| "collect cc env sid (HcWindow ref st fin) = collect_hc_window cc env sid ref st fin"
| "collect cc env sid (HcAllFailed name cli st fin) = collect_hc_all_failed cc env name cli st fin"
| "collect cc env sid (Beszel ref) = collect_beszel cc env sid ref"
| "collect cc env sid (BeszelWindow ref st fin) = collect_beszel_window cc env sid ref st fin"
| "collect cc env sid (Ntfy ref st fin limit) = collect_ntfy cc env sid ref st fin limit"

fun collection_source :: "collection \<Rightarrow> string" where
  "collection_source (GatusStatus ref) = gr_source ref"
| "collection_source (GatusWindow ref _ _ _) = gr_source ref"
| "collection_source (DockerStatus ref) = dr_source ref"
| "collection_source (DockerWindow ref _ _) = dr_source ref"
| "collection_source (LokiSearch ref _ _ _ _ _) = lr_source ref"
| "collection_source (HcStatus ref) = hr_source ref"
| "collection_source (HcWindow ref _ _) = hr_source ref"
| "collection_source (HcAllFailed name _ _ _) = name"
| "collection_source (Beszel ref) = br_source ref"
| "collection_source (BeszelWindow ref _ _) = br_source ref"
| "collection_source (Ntfy ref _ _ _) = nr_source ref"

fun collection_kind :: "collection \<Rightarrow> source_kind" where
  "collection_kind (GatusStatus _) = SourceGatus"
| "collection_kind (GatusWindow _ _ _ _) = SourceGatus"
| "collection_kind (DockerStatus _) = SourceDocker"
| "collection_kind (DockerWindow _ _ _) = SourceDocker"
| "collection_kind (LokiSearch _ _ _ _ _ _) = SourceLoki"
| "collection_kind (HcStatus _) = SourceHealthchecks"
| "collection_kind (HcWindow _ _ _) = SourceHealthchecks"
| "collection_kind (HcAllFailed _ _ _ _) = SourceHealthchecks"
| "collection_kind (Beszel _) = SourceBeszel"
| "collection_kind (BeszelWindow _ _ _) = SourceBeszel"
| "collection_kind (Ntfy _ _ _ _) = SourceNtfy"

lemmas collector_defs = collect_gatus_status_def collect_gatus_window_def collect_docker_status_def
  collect_docker_window_def collect_loki_def collect_hc_status_def collect_hc_all_failed_def
  collect_beszel_def collect_beszel_window_def collect_ntfy_def

lemma collect_hc_window_good:
  assumes "collect_hc_window cc env sid ref st fin = (o1, items)"
  shows "good_outcome (hr_source ref) SourceHealthchecks o1 items"
proof (cases "hr_history_mode ref = ''transitions''")
  case False
  with assms show ?thesis
    by (auto simp: collect_hc_window_def Let_def split: prod.splits dest: source_call_good)
next
  case True
  show ?thesis
  proof (cases "map_of (cl_hc (cc_clients cc)) (hr_source ref)")
    case None
    with assms True show ?thesis by (auto simp: collect_hc_window_def Let_def dest: source_call_good)
  next
    case (Some c)
    obtain tr err where t: "ha_transitions c sid ((filter_from_ref ref)\<lparr>hf_status := []\<rparr>) st fin = (tr, err)" by fastforce
    obtain o2 its where c: "source_call cc env (hr_source ref) SourceHealthchecks (as_result (tr_items tr) err) = (o2, its)"
      by fastforce
    from assms True Some t c source_call_good [OF c] show ?thesis
      by (auto simp: collect_hc_window_def Let_def split: if_splits)
  qed
qed

lemma collect_good: "collect cc env sid c = (o1, items) \<Longrightarrow> good_outcome (collection_source c) (collection_kind c) o1 items"
  by (cases c) (auto simp: collector_defs Let_def dest: source_call_good collect_hc_window_good split: prod.splits if_splits)

section \<open>What the adapters report\<close>

text \<open>
  What one method of an adapter answers, read off the result of the call alone: the items or the error,
  whether it was cut upstream or here, and how many records it discarded and left out.
\<close>

record source_report =
  rep_result :: "go_error + item list"
  rep_upstream :: bool
  rep_clipped :: bool
  rep_discarded :: int
  rep_omitted :: int

definition plain_report :: "go_error + item list \<Rightarrow> source_report" where
  "plain_report r = \<lparr>rep_result = r, rep_upstream = False, rep_clipped = False, rep_discarded = 0, rep_omitted = 0\<rparr>"

text \<open>The snapshots that a window keeps: those observed in it, up to 30 seconds after its end.\<close>

definition window_snapshots :: "time \<Rightarrow> time \<Rightarrow> go_error + item list \<Rightarrow> go_error + item list" where
  "window_snapshots st fin r = (case r of Inl e \<Rightarrow> Inl e
     | Inr its \<Rightarrow> Inr [it\<lparr>it_window_start := Some st, it_window_end := Some fin\<rparr>.
         it \<leftarrow> its, st \<le> it_observed_at it \<and> it_observed_at it \<le> fin + 30 * second])"

text \<open>The report of a collection; \<open>None\<close> if no client has its source's name.\<close>

fun adapter_report :: "collect_ctx \<Rightarrow> string \<Rightarrow> collection \<Rightarrow> source_report option" where
  "adapter_report cc sid (GatusStatus ref) = map_option
     (\<lambda>cli. plain_report (case ga_status cli sid (gr_endpoint_key ref) of Inl e \<Rightarrow> Inl e | Inr it \<Rightarrow> Inr [it]))
     (map_of (cl_gatus (cc_clients cc)) (gr_source ref))"
| "adapter_report cc sid (GatusWindow ref st fin mx) = map_option
     (\<lambda>cli. let ((its, clipped), err) = ga_window cli sid (gr_endpoint_key ref) st fin
              (if 0 < mx \<and> mx \<le> li_max_evidence_items (cc_limits cc) then mx else li_max_evidence_items (cc_limits cc))
            in (plain_report (as_result its err))\<lparr>rep_clipped := clipped\<rparr>)
     (map_of (cl_gatus (cc_clients cc)) (gr_source ref))"
| "adapter_report cc sid (DockerStatus ref) = map_option (\<lambda>cli. plain_report (cli sid (dr_container_name ref)))
     (map_of (cl_docker (cc_clients cc)) (dr_source ref))"
| "adapter_report cc sid (DockerWindow ref st fin) = map_option
     (\<lambda>cli. plain_report (window_snapshots st fin (cli sid (dr_container_name ref))))
     (map_of (cl_docker (cc_clients cc)) (dr_source ref))"
| "adapter_report cc sid (LokiSearch ref st fin text rx limit) = map_option
     (\<lambda>cli. let (((its, clipped), discarded), err) = cli \<lparr>lq_service_id = sid, lq_selector = lr_selector ref,
              lq_start = st, lq_end = fin, lq_limit = limit, lq_text = text, lq_regex = rx\<rparr>
            in (plain_report (as_result its err))\<lparr>rep_clipped := clipped, rep_discarded := max 0 discarded\<rparr>)
     (map_of (cl_loki (cc_clients cc)) (lr_source ref))"
| "adapter_report cc sid (HcStatus ref) = map_option (\<lambda>cli. plain_report (ha_status cli sid (filter_from_ref ref)))
     (map_of (cl_hc (cc_clients cc)) (hr_source ref))"
| "adapter_report cc sid (HcWindow ref st fin) = map_option
     (\<lambda>cli. let f = (filter_from_ref ref)\<lparr>hf_status := []\<rparr>
            in if hr_history_mode ref = ''transitions''
               then (let (tr, err) = ha_transitions cli sid f st fin
                     in (plain_report (as_result (tr_items tr) err))
                       \<lparr>rep_clipped := tr_truncated tr, rep_discarded := tr_discarded tr, rep_omitted := tr_omitted tr\<rparr>)
               else plain_report (ha_failed cli sid f st fin))
     (map_of (cl_hc (cc_clients cc)) (hr_source ref))"
| "adapter_report cc sid (HcAllFailed name cli st fin) = Some (plain_report (ha_failed cli [] empty_filter st fin))"
| "adapter_report cc sid (Beszel ref) = map_option (\<lambda>cli. plain_report (cli sid (br_system_name ref)))
     (map_of (cl_beszel (cc_clients cc)) (br_source ref))"
| "adapter_report cc sid (BeszelWindow ref st fin) = map_option
     (\<lambda>cli. plain_report (window_snapshots st fin (cli sid (br_system_name ref))))
     (map_of (cl_beszel (cc_clients cc)) (br_source ref))"
| "adapter_report cc sid (Ntfy ref st fin limit) = map_option
     (\<lambda>cli. let ((its, upstream, clipped), err) = cli sid (nr_topic ref) st fin limit
            in (plain_report (as_result its err))\<lparr>rep_upstream := upstream, rep_clipped := clipped\<rparr>)
     (map_of (cl_ntfy (cc_clients cc)) (nr_source ref))"

text \<open>
  Where the items themselves cannot be all there is: the configured object was not found, a source
  without history was asked for a past window, or the history of checks was read, whose coverage the
  source does not vouch for.
\<close>

fun coverage_gap :: "collection \<Rightarrow> time \<Rightarrow> item list \<Rightarrow> bool" where
  "coverage_gap (GatusStatus _) now its \<longleftrightarrow> (\<exists>it. its = [it] \<and> is_missing_item it)"
| "coverage_gap (GatusWindow _ _ _ _) now its \<longleftrightarrow> (\<exists>it \<in> set its. is_missing_item it)"
| "coverage_gap (DockerStatus _) now its \<longleftrightarrow> (\<exists>it. its = [it] \<and> is_missing_item it)"
| "coverage_gap (DockerWindow _ _ fin) now its \<longleftrightarrow> fin < now - 30 * second"
| "coverage_gap (LokiSearch _ _ _ _ _ _) now its \<longleftrightarrow> False"
| "coverage_gap (HcStatus _) now its \<longleftrightarrow> False"
| "coverage_gap (HcWindow ref _ fin) now its \<longleftrightarrow> hr_history_mode ref = ''transitions'' \<or> fin < now - 30 * second"
| "coverage_gap (HcAllFailed _ _ _ fin) now its \<longleftrightarrow> fin < now - 30 * second"
| "coverage_gap (Beszel _) now its \<longleftrightarrow> (\<exists>it. its = [it] \<and> is_missing_item it)"
| "coverage_gap (BeszelWindow _ _ fin) now its \<longleftrightarrow> fin < now - 30 * second"
| "coverage_gap (Ntfy _ _ _ _) now its \<longleftrightarrow> False"

text \<open>An outcome that tells what was reported.\<close>

definition tells :: "engine \<Rightarrow> bool \<Rightarrow> source_report \<Rightarrow> source_outcome \<Rightarrow> item list \<Rightarrow> bool" where
  "tells eng gap rep o1 items \<longleftrightarrow>
     (case rep_result rep of
        Inl e \<Rightarrow> so_status o1 \<noteq> StOk \<and> so_error o1 = sanitize_err eng (er_text e)
      | Inr its \<Rightarrow> so_status o1 = StOk \<and> items = its
          \<and> so_upstream_truncated o1 = rep_upstream rep \<and> so_local_truncated o1 = rep_clipped rep
          \<and> so_truncated o1 = (rep_upstream rep \<or> rep_clipped rep)
          \<and> so_discarded o1 = rep_discarded rep \<and> so_omitted o1 = rep_omitted rep
          \<and> (so_complete o1 \<longleftrightarrow> \<not> rep_upstream rep \<and> \<not> rep_clipped rep \<and> rep_discarded rep = 0
                \<and> rep_omitted rep = 0 \<and> \<not> gap))"

lemma source_call_result:
  assumes "source_call cc env name kind result = (o1, items)"
  shows "(\<not> fn_ran env \<longrightarrow> so_status o1 \<noteq> StOk)
    \<and> (\<forall>e. result = Inl e \<longrightarrow> so_status o1 \<noteq> StOk \<and> (fn_ran env \<longrightarrow> so_error o1 = sanitize_err (cc_engine cc) (er_text e)))
    \<and> (\<forall>its. result = Inr its \<and> fn_ran env \<longrightarrow> items = its \<and> so_status o1 = StOk \<and> so_complete o1 \<and> so_reason o1 = []
         \<and> \<not> so_truncated o1 \<and> \<not> so_upstream_truncated o1 \<and> \<not> so_local_truncated o1 \<and> so_discarded o1 = 0
         \<and> so_omitted o1 = 0)"
  using assms
  by (cases result)
    (auto simp: source_call_def with_source_timeout_def fn_ran_def with_cache_def source_error_outcome_def Let_def
      split: if_splits prod.splits)

lemma mark_keeps [simp]:
  "so_status (mark_empty o1) = so_status o1" "so_error (mark_empty o1) = so_error o1"
  "so_complete (mark_empty o1) = so_complete o1" "so_truncated (mark_empty o1) = so_truncated o1"
  "so_upstream_truncated (mark_empty o1) = so_upstream_truncated o1" "so_local_truncated (mark_empty o1) = so_local_truncated o1"
  "so_discarded (mark_empty o1) = so_discarded o1" "so_omitted (mark_empty o1) = so_omitted o1"
  "so_status (mark_truncated u h o1) = so_status o1" "so_error (mark_truncated u h o1) = so_error o1"
  "so_discarded (mark_truncated u h o1) = so_discarded o1" "so_omitted (mark_truncated u h o1) = so_omitted o1"
  "so_status (mark_unmatched o1) = so_status o1" "so_error (mark_unmatched o1) = so_error o1"
  "so_status (mark_discarded n o1) = so_status o1" "so_error (mark_discarded n o1) = so_error o1"
  "so_status (mark_snapshot_history fin now o1) = so_status o1" "so_error (mark_snapshot_history fin now o1) = so_error o1"
  "so_status (mark_transitions tr k o1) = so_status o1"
  by (simp_all add: mark_empty_def mark_truncated_def mark_unmatched_def mark_discarded_def mark_snapshot_history_def mark_transitions_def Let_def)

lemma collect_unreported:
  assumes "collect cc env sid c = (o1, items)" and "\<not> fn_ran env \<or> adapter_report cc sid c = None"
  shows "so_status o1 \<noteq> StOk"
  using assms
  by (cases c)
    (auto simp: collector_defs collect_hc_window_def snapshot_result_def mark_unmatched_def Let_def
      dest!: source_call_result split: prod.splits if_splits option.splits)

lemma window_snapshots_eq: "map_sum (\<lambda>e. e) (filter_current_snapshots st fin) r = window_snapshots st fin r"
proof (cases r)
  case (Inr its)
  have "filter_current_snapshots st fin its = [it\<lparr>it_window_start := Some st, it_window_end := Some fin\<rparr>.
      it \<leftarrow> its, st \<le> it_observed_at it \<and> it_observed_at it \<le> fin + 30 * second]"
    by (induction its) (auto simp: filter_current_snapshots_def)
  with Inr show ?thesis by (simp add: window_snapshots_def)
qed (simp add: window_snapshots_def)

lemmas mark_defs = mark_truncated_def mark_discarded_def mark_snapshot_history_def mark_unmatched_def mark_transitions_def
lemmas report_defs = tells_def plain_report_def snapshot_result_def

lemma single_missing: "length its = 1 \<and> is_missing_item (hd its) \<longleftrightarrow> (\<exists>it. its = [it] \<and> is_missing_item it)"
  by (cases its) auto

text \<open>The marks that a collector of log lines or messages puts on an outcome.\<close>

lemma tells_marked:
  assumes "source_call cc env name kind r = (o2, items)" and "fn_ran env"
    and "rep_result rep = r" "rep_upstream rep = u" "rep_clipped rep = h" "rep_discarded rep = max 0 d" "rep_omitted rep = 0"
  shows "tells (cc_engine cc) g rep
    (mark_empty (mark_discarded d (mark_truncated u h (if g then mark_unmatched o2 else o2)))) items"
  using source_call_result [OF assms(1)] assms(2-7)
  by (cases r; cases u; cases h; cases g; cases "d \<le> 0") (simp_all add: tells_def mark_defs Let_def max_def)

lemma mark_discarded_none [simp]: "mark_discarded 0 o1 = o1"
  by (simp add: mark_discarded_def)

lemma tells_plain:
  assumes "source_call cc env name kind r = (o2, items)" and "fn_ran env"
  shows "tells (cc_engine cc) g (plain_report r) (mark_empty (if g then mark_unmatched o2 else o2)) items"
  using source_call_result [OF assms(1)] assms(2)
  by (cases r; cases g) (simp_all add: tells_def plain_report_def mark_unmatched_def)

lemma tells_history:
  assumes "source_call cc env name kind r = (o2, items)" and "fn_ran env"
  shows "tells (cc_engine cc) (fin < now - 30 * second) (plain_report r) (mark_empty (mark_snapshot_history fin now o2)) items"
  using source_call_result [OF assms(1)] assms(2)
  by (cases r; cases "fin < now - 30 * second") (simp_all add: tells_def plain_report_def mark_snapshot_history_def)

lemma collect_gatus_window_tells:
  assumes "collect cc env sid (GatusWindow ref st fin mx) = (o1, items)" and "fn_ran env" and "adapter_report cc sid (GatusWindow ref st fin mx) = Some rep"
  shows "tells (cc_engine cc) (coverage_gap (GatusWindow ref st fin mx) (rn_now env) items) rep o1 items"
proof -
  let ?mx = "if 0 < mx \<and> mx \<le> li_max_evidence_items (cc_limits cc) then mx else li_max_evidence_items (cc_limits cc)"
  have mx: "(if mx \<le> 0 \<or> mx > li_max_evidence_items (cc_limits cc) then li_max_evidence_items (cc_limits cc) else mx) = ?mx" by auto
  from assms(3) obtain cli where cli: "map_of (cl_gatus (cc_clients cc)) (gr_source ref) = Some cli" by auto
  obtain its h err where w: "ga_window cli sid (gr_endpoint_key ref) st fin ?mx = ((its, h), err)" by (metis prod.collapse)
  obtain o2 its2 where c: "source_call cc env (gr_source ref) SourceGatus (as_result its err) = (o2, its2)" by fastforce
  from assms(1) cli w c assms(2) have o1: "items = its2"
    "o1 = mark_empty (mark_truncated False h (if list_ex is_missing_item its2 then mark_unmatched o2 else o2))"
    by (auto simp: collect_gatus_window_def Let_def mx)
  from assms(3) cli w have rep: "rep = (plain_report (as_result its err))\<lparr>rep_clipped := h\<rparr>" by simp
  show ?thesis
    using tells_marked [OF c assms(2), of rep False h 0 "list_ex is_missing_item its2"] by (simp add: o1 rep plain_report_def list_ex_iff)
qed

lemma collect_loki_tells:
  assumes "collect cc env sid (LokiSearch ref st fin tx rx limit) = (o1, items)" and "fn_ran env" and "adapter_report cc sid (LokiSearch ref st fin tx rx limit) = Some rep"
  shows "tells (cc_engine cc) (coverage_gap (LokiSearch ref st fin tx rx limit) (rn_now env) items) rep o1 items"
proof -
  from assms(3) obtain cli where cli: "map_of (cl_loki (cc_clients cc)) (lr_source ref) = Some cli" by auto
  obtain its h d err where w: "cli \<lparr>lq_service_id = sid, lq_selector = lr_selector ref, lq_start = st, lq_end = fin,
      lq_limit = limit, lq_text = tx, lq_regex = rx\<rparr> = (((its, h), d), err)" by (metis prod.collapse)
  obtain o2 its2 where c: "source_call cc env (lr_source ref) SourceLoki (as_result its err) = (o2, its2)" by fastforce
  from assms(1) cli w c assms(2) have o1: "items = its2" "o1 = mark_empty (mark_discarded d (mark_truncated False h o2))"
    by (simp_all add: collect_loki_def)
  from assms(3) cli w have rep: "rep = (plain_report (as_result its err))\<lparr>rep_clipped := h, rep_discarded := max 0 d\<rparr>"
    by simp
  show ?thesis
    using tells_marked [OF c assms(2), of rep False h d False] by (simp add: o1 rep plain_report_def)
qed

lemma collect_hc_window_tells:
  assumes "collect cc env sid (HcWindow ref st fin) = (o1, items)" and "fn_ran env" and "adapter_report cc sid (HcWindow ref st fin) = Some rep"
  shows "tells (cc_engine cc) (coverage_gap (HcWindow ref st fin) (rn_now env) items) rep o1 items"
proof -
  from assms(3) obtain cli where cli: "map_of (cl_hc (cc_clients cc)) (hr_source ref) = Some cli" by auto
  show ?thesis
  proof (cases "hr_history_mode ref = ''transitions''")
    case False
    let ?r = "ha_failed cli sid ((filter_from_ref ref)\<lparr>hf_status := []\<rparr>) st fin"
    obtain o2 its2 where c: "source_call cc env (hr_source ref) SourceHealthchecks ?r = (o2, its2)" by fastforce
    from assms(1) cli c False have o1: "items = its2" "o1 = mark_empty (mark_snapshot_history fin (rn_now env) o2)"
      by (auto simp: collect_hc_window_def Let_def)
    from assms(3) cli False have rep: "rep = plain_report ?r" by simp
    show ?thesis using tells_history [OF c assms(2), of fin "rn_now env"] by (simp add: o1 rep False)
  next
    case True
    obtain tr err where w: "ha_transitions cli sid ((filter_from_ref ref)\<lparr>hf_status := []\<rparr>) st fin = (tr, err)" by fastforce
    obtain o2 its2 where c: "source_call cc env (hr_source ref) SourceHealthchecks (as_result (tr_items tr) err) = (o2, its2)"
      by fastforce
    from assms(1) cli w c True have o1: "items = its2"
      "o1 = (if so_status o2 \<noteq> StOk then o2 else mark_transitions tr (length its2) o2)"
      by (auto simp: collect_hc_window_def Let_def split: if_splits)
    from assms(3) cli w True have rep: "rep = (plain_report (as_result (tr_items tr) err))
        \<lparr>rep_clipped := tr_truncated tr, rep_discarded := tr_discarded tr, rep_omitted := tr_omitted tr\<rparr>" by simp
    from source_call_result [OF c] assms(2) show ?thesis
      by (cases err) (simp_all add: o1 rep True report_defs as_result_def mark_transitions_def Let_def)
  qed
qed

lemma collect_ntfy_tells:
  assumes "collect cc env sid (Ntfy ref st fin limit) = (o1, items)" and "fn_ran env" and "adapter_report cc sid (Ntfy ref st fin limit) = Some rep"
  shows "tells (cc_engine cc) (coverage_gap (Ntfy ref st fin limit) (rn_now env) items) rep o1 items"
proof -
  from assms(3) obtain cli where cli: "map_of (cl_ntfy (cc_clients cc)) (nr_source ref) = Some cli" by auto
  obtain its u h err where w: "cli sid (nr_topic ref) st fin limit = ((its, u, h), err)" by (metis prod.collapse)
  obtain o2 its2 where c: "source_call cc env (nr_source ref) SourceNtfy (as_result its err) = (o2, its2)" by fastforce
  from assms(1) cli w c assms(2) have o1: "items = its2" "o1 = mark_empty (mark_truncated u h o2)"
    by (simp_all add: collect_ntfy_def)
  from assms(3) cli w have rep: "rep = (plain_report (as_result its err))\<lparr>rep_upstream := u, rep_clipped := h\<rparr>" by simp
  show ?thesis
    using tells_marked [OF c assms(2), of rep u h 0 False] by (simp add: o1 rep plain_report_def)
qed

lemma collect_tells:
  assumes "collect cc env sid c = (o1, items)" and "fn_ran env" and "adapter_report cc sid c = Some rep"
  shows "tells (cc_engine cc) (coverage_gap c (rn_now env) items) rep o1 items"
proof (cases c)
  case (GatusStatus ref)
  from assms(3) GatusStatus obtain cli where cli: "map_of (cl_gatus (cc_clients cc)) (gr_source ref) = Some cli" by auto
  obtain o2 its2 where c: "source_call cc env (gr_source ref) SourceGatus (case ga_status cli sid (gr_endpoint_key ref) of Inl e \<Rightarrow> Inl e | Inr it \<Rightarrow> Inr [it]) = (o2, its2)" by fastforce
  from assms(1) GatusStatus cli c have o1: "items = its2" "o1 = mark_empty (if length its2 = 1 \<and> is_missing_item (hd its2) then mark_unmatched o2 else o2)"
    by (auto simp: collect_gatus_status_def snapshot_result_def Let_def)
  from assms(3) GatusStatus cli have rep: "rep = plain_report (case ga_status cli sid (gr_endpoint_key ref) of Inl e \<Rightarrow> Inl e | Inr it \<Rightarrow> Inr [it])" by simp
  show ?thesis
    using tells_plain [OF c assms(2), of "length its2 = 1 \<and> is_missing_item (hd its2)"] unfolding o1 rep GatusStatus coverage_gap.simps single_missing [symmetric] by simp
next
  case (GatusWindow ref st fin mx)
  with assms collect_gatus_window_tells show ?thesis by blast
next
  case (DockerStatus ref)
  from assms(3) DockerStatus obtain cli where cli: "map_of (cl_docker (cc_clients cc)) (dr_source ref) = Some cli" by auto
  obtain o2 its2 where c: "source_call cc env (dr_source ref) SourceDocker (cli sid (dr_container_name ref)) = (o2, its2)" by fastforce
  from assms(1) DockerStatus cli c have o1: "items = its2" "o1 = mark_empty (if length its2 = 1 \<and> is_missing_item (hd its2) then mark_unmatched o2 else o2)"
    by (auto simp: collect_docker_status_def snapshot_result_def Let_def)
  from assms(3) DockerStatus cli have rep: "rep = plain_report (cli sid (dr_container_name ref))" by simp
  show ?thesis
    using tells_plain [OF c assms(2), of "length its2 = 1 \<and> is_missing_item (hd its2)"] unfolding o1 rep DockerStatus coverage_gap.simps single_missing [symmetric] by simp
next
  case (DockerWindow ref st fin)
  from assms(3) DockerWindow obtain cli where cli: "map_of (cl_docker (cc_clients cc)) (dr_source ref) = Some cli" by auto
  obtain o2 its2 where c: "source_call cc env (dr_source ref) SourceDocker (window_snapshots st fin (cli sid (dr_container_name ref))) = (o2, its2)" by fastforce
  from assms(1) DockerWindow cli c have o1: "items = its2" "o1 = mark_empty (mark_snapshot_history fin (rn_now env) o2)"
    by (auto simp: collect_docker_window_def snapshot_result_def Let_def window_snapshots_eq)
  from assms(3) DockerWindow cli have rep: "rep = plain_report (window_snapshots st fin (cli sid (dr_container_name ref)))" by simp
  show ?thesis
    using tells_history [OF c assms(2), of fin "rn_now env"] unfolding o1 rep DockerWindow coverage_gap.simps single_missing [symmetric] by simp
next
  case (LokiSearch ref st fin tx rx limit)
  with assms collect_loki_tells show ?thesis by blast
next
  case (HcStatus ref)
  from assms(3) HcStatus obtain cli where cli: "map_of (cl_hc (cc_clients cc)) (hr_source ref) = Some cli" by auto
  obtain o2 its2 where c: "source_call cc env (hr_source ref) SourceHealthchecks (ha_status cli sid (filter_from_ref ref)) = (o2, its2)" by fastforce
  from assms(1) HcStatus cli c have o1: "items = its2" "o1 = mark_empty o2"
    by (auto simp: collect_hc_status_def snapshot_result_def Let_def)
  from assms(3) HcStatus cli have rep: "rep = plain_report (ha_status cli sid (filter_from_ref ref))" by simp
  show ?thesis
    using tells_plain [OF c assms(2), of False] unfolding o1 rep HcStatus coverage_gap.simps single_missing [symmetric] by simp
next
  case (HcWindow ref st fin)
  with assms collect_hc_window_tells show ?thesis by blast
next
  case (HcAllFailed name cli st fin)
  obtain o2 its2 where c: "source_call cc env name SourceHealthchecks (ha_failed cli [] empty_filter st fin) = (o2, its2)" by fastforce
  from assms(1) HcAllFailed c have o1: "items = its2" "o1 = mark_empty (mark_snapshot_history fin (rn_now env) o2)"
    by (auto simp: collect_hc_all_failed_def snapshot_result_def Let_def)
  from assms(3) HcAllFailed have rep: "rep = plain_report (ha_failed cli [] empty_filter st fin)" by simp
  show ?thesis
    using tells_history [OF c assms(2), of fin "rn_now env"] unfolding o1 rep HcAllFailed coverage_gap.simps single_missing [symmetric] by simp
next
  case (Beszel ref)
  from assms(3) Beszel obtain cli where cli: "map_of (cl_beszel (cc_clients cc)) (br_source ref) = Some cli" by auto
  obtain o2 its2 where c: "source_call cc env (br_source ref) SourceBeszel (cli sid (br_system_name ref)) = (o2, its2)" by fastforce
  from assms(1) Beszel cli c have o1: "items = its2" "o1 = mark_empty (if length its2 = 1 \<and> is_missing_item (hd its2) then mark_unmatched o2 else o2)"
    by (auto simp: collect_beszel_def snapshot_result_def Let_def)
  from assms(3) Beszel cli have rep: "rep = plain_report (cli sid (br_system_name ref))" by simp
  show ?thesis
    using tells_plain [OF c assms(2), of "length its2 = 1 \<and> is_missing_item (hd its2)"] unfolding o1 rep Beszel coverage_gap.simps single_missing [symmetric] by simp
next
  case (BeszelWindow ref st fin)
  from assms(3) BeszelWindow obtain cli where cli: "map_of (cl_beszel (cc_clients cc)) (br_source ref) = Some cli" by auto
  obtain o2 its2 where c: "source_call cc env (br_source ref) SourceBeszel (window_snapshots st fin (cli sid (br_system_name ref))) = (o2, its2)" by fastforce
  from assms(1) BeszelWindow cli c have o1: "items = its2" "o1 = mark_empty (mark_snapshot_history fin (rn_now env) o2)"
    by (auto simp: collect_beszel_window_def snapshot_result_def Let_def window_snapshots_eq)
  from assms(3) BeszelWindow cli have rep: "rep = plain_report (window_snapshots st fin (cli sid (br_system_name ref)))" by simp
  show ?thesis
    using tells_history [OF c assms(2), of fin "rn_now env"] unfolding o1 rep BeszelWindow coverage_gap.simps single_missing [symmetric] by simp
next
  case (Ntfy ref st fin limit)
  with assms collect_ntfy_tells show ?thesis by blast
qed

text \<open>
  Property C32: whatever the adapters return and however the contexts end, the outcome of every
  collector is about its source, uses only the statuses, reasons and cache states of the published
  schema, counts exactly the items that go with it, and delivers no item when it failed. A call that did
  not run, that failed or whose source has no client is never reported as ok, and an error keeps its
  cleaned text. A call that succeeded is ok with exactly the reported items, and what the adapter reported
  as cut upstream, cut here, discarded or left out is what the outcome says: it claims to be complete
  exactly when nothing was, the configured object was found and the source covers the window.
\<close>
theorem collected_outcomes_honest:
  assumes "collect cc env sid c = (o1, items)"
  shows "in_schema o1 \<and> honest o1 items \<and> so_name o1 = collection_source c \<and> so_kind o1 = collection_kind c
    \<and> (\<not> fn_ran env \<or> adapter_report cc sid c = None \<longrightarrow> so_status o1 \<noteq> StOk)
    \<and> (\<forall>rep. fn_ran env \<and> adapter_report cc sid c = Some rep \<longrightarrow>
          tells (cc_engine cc) (coverage_gap c (rn_now env) items) rep o1 items)"
  using collect_good [OF assms] collect_tells [OF assms] collect_unreported [OF assms] by (simp add: good_outcome_def)

text \<open>A context with one Docker client that finds a container, and a call that nothing disturbs.\<close>

definition example_cc :: collect_ctx where
  "example_cc = \<lparr>cc_unicode = ascii_tables, cc_engine = \<lparr>en_exact = [], en_regexps = []\<rparr>,
     cc_clients = \<lparr>cl_gatus = [], cl_docker = [(''d'', \<lambda>sid name. Inr [sample_item ''e1'' 5])], cl_loki = [],
       cl_hc = [], cl_beszel = [], cl_ntfy = []\<rparr>,
     cc_limits = cf_limits example_config\<rparr>"

definition calm_run :: run_env where
  "calm_run = \<lparr>rn_entry = CtxOk, rn_wait = CtxOk, rn_parent = CtxOk, rn_source = CtxOk,
     rn_info = new_request_info, rn_ms = 3, rn_now = 10\<rparr>"

text \<open>The same with a Loki client that returns one line, says that there were more and that two were unusable.\<close>

definition example_search :: "collection \<times> collect_ctx" where
  "example_search = (LokiSearch \<lparr>lr_source = ''l'', lr_selector = ''{}''\<rparr> 0 10 [] [] 1,
     example_cc\<lparr>cc_clients := (cc_clients example_cc)\<lparr>cl_loki := [(''l'', \<lambda>q. ((([sample_item ''e1'' 5], True), 2), None))]\<rparr>\<rparr>)"

lemma collected_outcomes_honest_witness:
  "case example_search of (c, cc) \<Rightarrow> case collect cc calm_run ''media'' c of (o1, items) \<Rightarrow>
     so_status o1 = StOk \<and> items = [sample_item ''e1'' 5] \<and> so_local_truncated o1 \<and> so_discarded o1 = 2 \<and> \<not> so_complete o1"
proof -
  obtain c cc where s: "example_search = (c, cc)" by fastforce
  obtain o1 items where c: "collect cc calm_run ''media'' c = (o1, items)" by fastforce
  have rep: "adapter_report cc ''media'' c = Some \<lparr>rep_result = Inr [sample_item ''e1'' 5], rep_upstream = False, rep_clipped = True,
      rep_discarded = 2, rep_omitted = 0\<rparr>" (is "_ = Some ?rep")
    using s by (auto simp: example_search_def example_cc_def plain_report_def as_result_def)
  have "fn_ran calm_run" by (simp add: fn_ran_def calm_run_def)
  with collected_outcomes_honest [OF c] rep have "tells (cc_engine cc) (coverage_gap c (rn_now calm_run) items) ?rep o1 items" by blast
  then show ?thesis by (simp add: s c tells_def)
qed

text \<open>
  Property C33: an accepted window is not empty and not longer than the maximum, even for dates whose
  distance a \<open>time.Duration\<close> cannot hold, and it ends where the request says, or now.
\<close>
theorem parse_window_bounds:
  assumes "parse_window parse duration now start_s end_s dur_s def mx = Inr (start, fin)" and "mx < max_int64"
  shows "start < fin \<and> fin - start \<le> mx
    \<and> (if end_s = [] then fin = now else parse end_s = Some fin)
    \<and> (if start_s \<noteq> [] then parse start_s = Some start
       else if dur_s \<noteq> [] then duration dur_s = Some (fin - start) else fin - start = def)"
proof -
  have w: "start < fin" "\<not> time_sub fin start > mx"
    using assms(1) by (auto simp: parse_window_def split: option.splits sum.splits if_splits)
  have "fin - start \<le> mx"
    using w assms(2) by (auto simp: time_sub_def sat64_def min_int64_def max_int64_def split: if_splits)
  moreover have "(if end_s = [] then fin = now else parse end_s = Some fin)"
    using assms(1) by (auto simp: parse_window_def split: option.splits sum.splits if_splits)
  moreover have "if start_s \<noteq> [] then parse start_s = Some start
       else if dur_s \<noteq> [] then duration dur_s = Some (fin - start) else fin - start = def"
    using assms(1) by (auto simp: parse_window_def split: option.splits sum.splits if_splits)
  ultimately show ?thesis using w(1) by blast
qed

lemma parse_window_bounds_witness:
  "parse_window (\<lambda>_. None) (\<lambda>_. None) (99 * minute) [] [] [] hour hour = Inr (39 * minute, 99 * minute)
     \<and> (99 * minute :: time) - 39 * minute \<le> hour"
proof -
  have w: "parse_window (\<lambda>_. None) (\<lambda>_. None) (99 * minute) [] [] [] hour hour = Inr (39 * minute, 99 * minute)"
    by (simp add: parse_window_def time_sub_def sat64_def duration_defs min_int64_def max_int64_def)
  from parse_window_bounds [OF w] w show ?thesis by (simp add: duration_defs min_int64_def max_int64_def)
qed

text \<open>The coverage flags, without the loop.\<close>

lemma outcome_coverage_eq:
  "outcome_coverage os =
     (let queried = filter (\<lambda>s. so_status s \<noteq> StAbsent \<and> so_status s \<noteq> StSkipped) os
      in (\<forall>s \<in> set queried. so_complete s, \<exists>s \<in> set queried. so_status s = StOk, length queried))"
  by (induction os) (auto simp: Let_def)

end
