(* ===== verification/Correlation.thy ===== *)
theory Correlation
  imports Evidence
begin

text \<open>
  The timeline (\<open>internal/correlation/correlate.go\<close>): \<open>BuildTimeline\<close> selects and orders the items
  and derives the warnings and the factual summary; \<open>time.Format(time.RFC3339)\<close> is defined for UTC.
  The clock reading is an argument. Lemmas: the bundle depends only on the multiset of collected
  items, its items are the newest in timeline order, and its warnings are distinct.
\<close>

section \<open>RFC 3339\<close>

definition day_ns :: int where "day_ns = 86400000000000"

fun month_of :: "nat list \<Rightarrow> nat \<Rightarrow> nat \<Rightarrow> nat \<times> nat" where
  "month_of [] m d = (m, d)"
| "month_of (n # ns) m d = (if d < n then (m, d) else month_of ns (m + 1) (d - n))"

text \<open>Year, month and day of a day number counted from 1 January of year 1.\<close>

definition civil_date :: "int \<Rightarrow> int \<times> nat \<times> nat" where
  "civil_date days =
     (let n400 = days div 146097; d1 = days mod 146097;
          n100 = min 3 (d1 div 36524); d2 = d1 - n100 * 36524;
          n4 = d2 div 1461; d3 = d2 mod 1461;
          n1 = min 3 (d3 div 365); yday = d3 - n1 * 365;
          leap = (n1 = 3 \<and> (n4 \<noteq> 24 \<or> n100 = 3));
          (m, d) = month_of [31, if leap then 29 else 28, 31, 30, 31, 30, 31, 31, 30, 31, 30, 31]
                     1 (nat yday)
      in (400 * n400 + 100 * n100 + 4 * n4 + n1 + 1, m, d + 1))"

definition pad :: "nat \<Rightarrow> string \<Rightarrow> string" where
  "pad n s = replicate (n - length s) (CHR ''0'') @ s"

definition rfc3339 :: "time \<Rightarrow> string" where
  "rfc3339 t =
     (let (y, m, d) = civil_date (t div day_ns); s = (t mod day_ns) div second
      in (if y < 0 then CHR ''-'' # pad 4 (show_int (- y)) else pad 4 (show_int y)) @ ''-''
         @ pad 2 (show_nat m) @ ''-'' @ pad 2 (show_nat d) @ ''T''
         @ pad 2 (show_int (s div 3600)) @ '':'' @ pad 2 (show_int (s div 60 mod 60)) @ '':''
         @ pad 2 (show_int (s mod 60)) @ ''Z'')"

section \<open>BuildTimeline\<close>

definition outcome_label :: "source_outcome \<Rightarrow> string" where
  "outcome_label s = ''source '' @ so_name s @ '' ('' @ source_str (so_kind s) @ ''): ''"

definition outcome_failed :: "source_outcome \<Rightarrow> bool" where
  "outcome_failed s \<longleftrightarrow> so_status s \<in> {StError, StTimeout, StCanceled}"

definition outcome_incomplete :: "source_outcome \<Rightarrow> bool" where
  "outcome_incomplete s \<longleftrightarrow> so_status s = StOk \<and> \<not> so_complete s"

text \<open>The warnings one source adds, in the order of the loop body.\<close>

definition outcome_warnings :: "source_outcome \<Rightarrow> string list" where
  "outcome_warnings s =
     (if so_truncated s then [outcome_label s @ ''truncated upstream=''
        @ show_bool (so_upstream_truncated s) @ '' local='' @ show_bool (so_local_truncated s)] else [])
     @ (if so_discarded s > 0 then [outcome_label s @ show_int (so_discarded s)
        @ '' unusable source record(s)''] else [])
     @ (if outcome_failed s then [outcome_label s @ status_str (so_status s) @ '' (''
        @ so_reason s @ '')''] else [])
     @ (if so_status s = StOk \<and> \<not> so_complete s \<and> so_reason s \<noteq> [] \<and> so_reason s \<noteq> ''truncated''
           \<and> so_reason s \<noteq> ''partial_invalid_records''
        then [outcome_label s @ ''incomplete ('' @ so_reason s @ '')''] else [])"

definition stale_warning :: "item \<Rightarrow> string list" where
  "stale_warning it =
     (if it_freshness it = FreshnessStale
         \<and> (it_severity it = SeverityError \<or> it_severity it = SeverityCritical)
      then [''stale '' @ severity_str (it_severity it) @ '' evidence from '' @ source_str (it_source it)
            @ '' (observed '' @ rfc3339 (it_observed_at it) @ '')''] else [])"

definition unique_strings :: "string list \<Rightarrow> string list" where
  "unique_strings xs = keep_first [] (filter (\<lambda>s. s \<noteq> []) xs)"

text \<open>Which severities count as bad for each source.\<close>

fun bad_item :: "item \<Rightarrow> bool" where
  "bad_item it = (case it_source it of
     SourceGatus \<Rightarrow> it_severity it \<in> {SeverityError, SeverityCritical}
   | SourceDocker \<Rightarrow> it_severity it \<in> {SeverityError, SeverityWarning}
   | SourceLoki \<Rightarrow> it_severity it \<in> {SeverityError, SeverityCritical}
   | SourceHealthchecks \<Rightarrow> it_severity it \<in> {SeverityError, SeverityWarning}
   | SourceBeszel \<Rightarrow> it_severity it \<in> {SeverityError, SeverityWarning}
   | SourceNtfy \<Rightarrow> it_severity it \<in> {SeverityError, SeverityCritical, SeverityWarning})"

definition bad_count :: "source_kind \<Rightarrow> item list \<Rightarrow> nat" where
  "bad_count k items = length (filter (\<lambda>it. it_source it = k \<and> bad_item it) items)"

definition summary_order :: "source_kind list" where
  "summary_order = [SourceGatus, SourceDocker, SourceLoki, SourceHealthchecks, SourceBeszel, SourceNtfy]"

definition factual_summary ::
  "string \<Rightarrow> time \<Rightarrow> time \<Rightarrow> item list \<Rightarrow> nat \<Rightarrow> nat \<Rightarrow> nat \<Rightarrow> string" where
  "factual_summary service_id start fin items ok failed incomplete =
     ''Service '' @ service_id @ '': '' @ show_nat (length items) @ '' evidence item(s) between ''
     @ rfc3339 start @ '' and '' @ rfc3339 fin @ '' UTC.''
     @ '' Sources with status ok='' @ show_nat ok
     @ ''. Sources with status error, timeout, or canceled='' @ show_nat failed @ ''.''
     @ '' Sources with incomplete coverage='' @ show_nat incomplete @ ''.''
     @ (if sum_list (map (\<lambda>k. bad_count k items) summary_order) = 0
        then '' The collected set has no error-severity items.''
          @ '' If there is no evidence, this does not prove that no event occurred.''
        else '' These are the counts by source with warning/error severity:''
          @ concat (map (\<lambda>k. if bad_count k items > 0
                     then '' '' @ source_str k @ ''='' @ show_nat (bad_count k items) else [])
                   summary_order) @ ''.'')
     @ '' The timeline uses observed_at order. Correlation does not identify a root cause.''"

definition build_timeline ::
  "time \<Rightarrow> string \<Rightarrow> time \<Rightarrow> time \<Rightarrow> item list \<Rightarrow> source_outcome list \<Rightarrow> int \<Rightarrow> bundle_t" where
  "build_timeline now service_id start fin items sources max_items =
     (let (cp, timeline_truncated) = keep_newest items max_items;
          ok = length (filter (\<lambda>s. so_status s = StOk) sources);
          incomplete = length (filter outcome_incomplete sources);
          failed = length (filter outcome_failed sources);
          warnings = concat (map outcome_warnings sources)
            @ (if timeline_truncated then [''timeline truncated to '' @ show_int max_items @ '' items'']
               else [])
            @ concat (map stale_warning cp)
      in \<lparr>bu_service_id = service_id, bu_requested_start = start, bu_requested_end = fin,
          bu_effective_start = start, bu_effective_end = fin, bu_items = cp, bu_sources = sources,
          bu_complete = False, bu_truncated = timeline_truncated \<or> list_ex so_truncated sources,
          bu_compact = False, bu_byte_budget = 0, bu_byte_size = 0,
          bu_selection_truncated = False, bu_byte_budget_truncated = False, bu_omitted_items = 0,
          bu_omitted_sources = None, bu_warnings = unique_strings warnings,
          bu_factual_summary = factual_summary service_id start fin cp ok failed incomplete,
          bu_retrieved_at = now\<rparr>)"

section \<open>Properties\<close>

lemma unique_strings_ok:
  "distinct (unique_strings xs)" "set (unique_strings xs) = set xs - {[]}"
  by (auto simp: unique_strings_def distinct_keep_first set_keep_first)

lemma build_timeline_items: "bu_items (build_timeline now sid st fin items sources mx)
    = fst (keep_newest items mx)"
  by (simp add: build_timeline_def Let_def split: prod.split)

text \<open>
  Property C17: the timeline does not depend on the order in which the collectors delivered the
  items: two collections with the same items (with different identifiers) give the same bundle.
\<close>
theorem build_timeline_order_independent:
  assumes "mset xs = mset ys" and "distinct (map it_id xs)"
  shows "build_timeline now sid st fin xs sources mx = build_timeline now sid st fin ys sources mx"
  unfolding build_timeline_def keep_newest_perm [OF assms] ..

lemma build_timeline_order_independent_witness:
  "build_timeline 9 ''web'' 0 9 [sample_item ''a'' 5, sample_item ''b'' 3] [] 10
   = build_timeline 9 ''web'' 0 9 [sample_item ''b'' 3, sample_item ''a'' 5] [] 10"
  by (rule build_timeline_order_independent) (simp_all add: sample_item_def)

text \<open>
  Property C18: the items of the bundle are in timeline order and are the newest: every collected
  item that is left out precedes every item that is kept, at most the allowed number is kept, and
  the bundle says so whenever an item is missing or a source was truncated.
\<close>
theorem build_timeline_newest:
  assumes "0 < mx"
  shows "\<exists>old. sort_items items = old @ bu_items (build_timeline now sid st fin items sources mx)
    \<and> int (length (bu_items (build_timeline now sid st fin items sources mx))) = min (int (length items)) mx
    \<and> sorted (map item_key (bu_items (build_timeline now sid st fin items sources mx)))
    \<and> bu_truncated (build_timeline now sid st fin items sources mx)
      = (old \<noteq> [] \<or> list_ex so_truncated sources)"
proof -
  obtain old where old: "sort_items items = old @ fst (keep_newest items mx)"
    "snd (keep_newest items mx) = (old \<noteq> [])"
    using keep_newest_split [of items mx] by blast
  have "bu_truncated (build_timeline now sid st fin items sources mx)
      = (snd (keep_newest items mx) \<or> list_ex so_truncated sources)"
    by (simp add: build_timeline_def Let_def split: prod.split)
  moreover have "int (length (fst (keep_newest items mx))) = min (int (length items)) mx"
    using assms by (simp add: keep_newest_length of_nat_min)
  ultimately show ?thesis
    using old keep_newest_sorted by (intro exI [of _ old]) (simp add: build_timeline_items)
qed

lemma build_timeline_newest_witness:
  "int (length (bu_items (build_timeline 9 ''web'' 0 9 [sample_item ''a'' 5, sample_item ''b'' 3] [] 1))) = 1"
  using build_timeline_newest [of 1 "[sample_item ''a'' 5, sample_item ''b'' 3]" 9 "''web''" 0 9 "[]"]
  by auto

text \<open>
  No warning is lost and none is repeated: the warnings are distinct and non-empty,
  and each failed source, each truncated source and each source with unusable records has one.
\<close>
lemma build_timeline_warnings:
  assumes "s \<in> set sources" and "w \<in> set (outcome_warnings s)"
  shows "w \<in> set (bu_warnings (build_timeline now sid st fin items sources mx))
    \<and> distinct (bu_warnings (build_timeline now sid st fin items sources mx))
    \<and> (outcome_failed s \<longrightarrow> outcome_label s @ status_str (so_status s) @ '' ('' @ so_reason s @ '')''
         \<in> set (bu_warnings (build_timeline now sid st fin items sources mx)))"
proof -
  let ?b = "build_timeline now sid st fin items sources mx"
  have in_b: "v \<in> set (bu_warnings ?b)" if "v \<in> set (outcome_warnings s)" for v
  proof -
    have "v \<noteq> []" using that by (auto simp: outcome_warnings_def outcome_label_def split: if_splits)
    with that assms(1) show ?thesis
      by (auto simp: build_timeline_def Let_def unique_strings_ok(2) split: prod.split)
  qed
  have "distinct (bu_warnings ?b)"
    by (simp add: build_timeline_def Let_def unique_strings_ok(1) split: prod.split)
  moreover have "outcome_failed s \<Longrightarrow>
      outcome_label s @ status_str (so_status s) @ '' ('' @ so_reason s @ '')'' \<in> set (outcome_warnings s)"
    by (simp add: outcome_warnings_def)
  ultimately show ?thesis using in_b assms(2) by blast
qed

definition sample_outcome :: "string \<Rightarrow> status \<Rightarrow> source_outcome" where
  "sample_outcome n st = \<lparr>so_name = n, so_kind = SourceLoki, so_status = st, so_reason = ''r'',
     so_error = [], so_item_count = 0, so_complete = False, so_truncated = False,
     so_upstream_truncated = False, so_local_truncated = False, so_discarded = 0, so_omitted = 0,
     so_cache_state = [], so_cache_age = 0, so_duration_ms = 0\<rparr>"

end
