(* ===== verification/EvidenceCache.thy ===== *)
theory EvidenceCache
  imports Evidence
begin

text \<open>
  The evidence cache (\<open>internal/evidence/cache.go\<close>): a map from identifiers to entries, the
  identifiers in insertion order, and the number of serialized bytes held. The clock readings of an
  operation are its arguments (\<open>Put\<close> reads the clock twice); the mutex makes every operation one
  step. \<open>json.Marshal\<close> is the argument \<open>marshal\<close>, \<open>None\<close> for its error. The eviction loop is run
  with \<open>while_option\<close>. Lemmas: the structural invariant and the limits are kept by every operation,
  every operation returns, and the cache is a queue from whose head entries leave.
\<close>

section \<open>State and operations\<close>


record cache_entry =
  ce_item :: item
  ce_expires :: time
  ce_size :: int

record ecache =
  ec_ttl :: duration
  ec_max :: int
  ec_max_bytes :: int
  ec_bytes :: int
  ec_items :: "(string, cache_entry) gomap"
  ec_order :: "string list"
  ec_evictions :: "64 word"
  ec_expired :: "64 word"
  ec_oversized :: "64 word"

record cache_stats =
  cs_items :: int
  cs_bytes :: int
  cs_max_items :: int
  cs_max_bytes :: int
  cs_evictions :: "64 word"
  cs_expired :: "64 word"
  cs_oversized :: "64 word"

definition new_cache :: "duration \<Rightarrow> int \<Rightarrow> int \<Rightarrow> ecache" where
  "new_cache ttl mx max_bytes =
     (let ttl = (if ttl \<le> 0 then 5 * minute else ttl);
          mx = (if mx > max_cache_items then max_cache_items else mx);
          max_bytes = (if max_bytes \<le> 0 then default_cache_max_bytes else max_bytes);
          max_bytes = (if max_bytes > max_cache_bytes then max_cache_bytes else max_bytes)
      in \<lparr>ec_ttl = ttl, ec_max = mx, ec_max_bytes = max_bytes, ec_bytes = 0, ec_items = [],
          ec_order = [], ec_evictions = 0, ec_expired = 0, ec_oversized = 0\<rparr>)"

definition serialized_item_size :: "(item \<Rightarrow> string option) \<Rightarrow> item \<Rightarrow> int" where
  "serialized_item_size marshal it =
     (case marshal it of None \<Rightarrow> 0 | Some raw \<Rightarrow> int (length raw))"

definition remove_locked :: "string \<Rightarrow> ecache \<Rightarrow> ecache" where
  "remove_locked key c = (case map_of (ec_items c) key of
     None \<Rightarrow> c
   | Some e \<Rightarrow> c\<lparr>ec_bytes := ec_bytes c - ce_size e,
                 ec_items := AList.delete key (ec_items c),
                 ec_order := filter (\<lambda>k. k \<noteq> key) (ec_order c)\<rparr>)"

definition expire_step :: "time \<Rightarrow> ecache \<Rightarrow> string \<times> cache_entry \<Rightarrow> ecache" where
  "expire_step now c p =
     (if now > ce_expires (snd p)
      then (remove_locked (fst p) c)\<lparr>ec_expired := ec_expired c + 1\<rparr> else c)"

definition expire_locked :: "time \<Rightarrow> ecache \<Rightarrow> ecache" where
  "expire_locked now c = foldl (expire_step now) c (ec_items c)"

definition over_limits :: "ecache \<Rightarrow> bool" where
  "over_limits c \<longleftrightarrow> gm_len (ec_items c) > ec_max c \<or> ec_bytes c > ec_max_bytes c"

definition evict_oldest :: "ecache \<Rightarrow> ecache" where
  "evict_oldest c =
     (remove_locked (hd (ec_order c)) c)\<lparr>ec_evictions := ec_evictions c + 1\<rparr>"

definition store_entry :: "string \<Rightarrow> cache_entry \<Rightarrow> ecache \<Rightarrow> ecache" where
  "store_entry key e c = c\<lparr>ec_items := AList.update key e (ec_items c),
     ec_order := ec_order c @ [key], ec_bytes := ec_bytes c + ce_size e\<rparr>"

definition cache_put ::
  "(item \<Rightarrow> string option) \<Rightarrow> item \<Rightarrow> time \<Rightarrow> time \<Rightarrow> ecache \<Rightarrow> ecache option" where
  "cache_put marshal it now1 now2 c =
     (if ec_max c \<le> 0 \<or> it_id it = [] then Some c
      else (let size = serialized_item_size marshal it; c = expire_locked now1 c in
        if size > ec_max_bytes c
        then Some ((remove_locked (it_id it) c)\<lparr>ec_oversized := ec_oversized c + 1\<rparr>)
        else (let c = remove_locked (it_id it) c;
                  c = store_entry (it_id it)
                        \<lparr>ce_item = it, ce_expires = now2 + ec_ttl c, ce_size = size\<rparr> c
              in while_option (\<lambda>c. over_limits c \<and> ec_order c \<noteq> []) evict_oldest c)))"

fun cache_put_all ::
  "(item \<Rightarrow> string option) \<Rightarrow> (item \<times> time \<times> time) list \<Rightarrow> ecache \<Rightarrow> ecache option" where
  "cache_put_all marshal [] c = Some c"
| "cache_put_all marshal ((it, now1, now2) # xs) c =
     (case cache_put marshal it now1 now2 c of
        None \<Rightarrow> None | Some c' \<Rightarrow> cache_put_all marshal xs c')"

definition cache_get :: "string \<Rightarrow> time \<Rightarrow> ecache \<Rightarrow> item option \<times> ecache" where
  "cache_get key now c =
     (if key = [] then (None, c)
      else (let c = expire_locked now c in
        case map_of (ec_items c) key of
          None \<Rightarrow> (None, c)
        | Some e \<Rightarrow> (Some ((ce_item e)\<lparr>it_freshness := FreshnessCached\<rparr>), c)))"

definition cache_stats_of :: "time \<Rightarrow> ecache \<Rightarrow> cache_stats \<times> ecache" where
  "cache_stats_of now c =
     (let c = expire_locked now c in
      (\<lparr>cs_items = gm_len (ec_items c), cs_bytes = ec_bytes c, cs_max_items = ec_max c,
        cs_max_bytes = ec_max_bytes c, cs_evictions = ec_evictions c, cs_expired = ec_expired c,
        cs_oversized = ec_oversized c\<rparr>, c))"

section \<open>Invariant\<close>

definition entries_size :: "(string, cache_entry) gomap \<Rightarrow> int" where
  "entries_size m = sum_list (map (\<lambda>p. ce_size (snd p)) m)"

definition ec_inv :: "ecache \<Rightarrow> bool" where
  "ec_inv c \<longleftrightarrow> gm_ok (ec_items c) \<and> distinct (ec_order c)
     \<and> set (ec_order c) = fst ` set (ec_items c)
     \<and> ec_bytes c = entries_size (ec_items c)
     \<and> (\<forall>p \<in> set (ec_items c). 0 \<le> ce_size (snd p) \<and> ce_size (snd p) \<le> ec_max_bytes c
           \<and> it_id (ce_item (snd p)) = fst p)"

definition ec_within :: "ecache \<Rightarrow> bool" where
  "ec_within c \<longleftrightarrow> gm_len (ec_items c) \<le> max 0 (ec_max c) \<and> ec_bytes c \<le> ec_max_bytes c"

definition ec_ok :: "ecache \<Rightarrow> bool" where
  "ec_ok c \<longleftrightarrow> ec_inv c \<and> ec_within c \<and> 0 < ec_ttl c \<and> ec_max c \<le> max_cache_items
     \<and> 0 < ec_max_bytes c \<and> ec_max_bytes c \<le> max_cache_bytes"

lemma size_nonneg: "0 \<le> serialized_item_size marshal it"
  by (simp add: serialized_item_size_def split: option.split)

text \<open>The fields no operation writes.\<close>

lemma remove_locked_frame [simp]:
  "ec_ttl (remove_locked key c) = ec_ttl c" "ec_max (remove_locked key c) = ec_max c"
  "ec_max_bytes (remove_locked key c) = ec_max_bytes c"
  by (simp_all add: remove_locked_def split: option.split)

lemma expire_step_frame [simp]:
  "ec_ttl (expire_step now c p) = ec_ttl c" "ec_max (expire_step now c p) = ec_max c"
  "ec_max_bytes (expire_step now c p) = ec_max_bytes c"
  by (simp_all add: expire_step_def)

lemma foldl_expire_frame:
  "ec_ttl (foldl (expire_step now) c ps) = ec_ttl c
   \<and> ec_max (foldl (expire_step now) c ps) = ec_max c
   \<and> ec_max_bytes (foldl (expire_step now) c ps) = ec_max_bytes c"
  by (induction ps arbitrary: c) simp_all

lemma expire_locked_frame [simp]:
  "ec_ttl (expire_locked now c) = ec_ttl c" "ec_max (expire_locked now c) = ec_max c"
  "ec_max_bytes (expire_locked now c) = ec_max_bytes c"
  using foldl_expire_frame by (simp_all add: expire_locked_def)

lemma store_entry_frame [simp]:
  "ec_ttl (store_entry key e c) = ec_ttl c" "ec_max (store_entry key e c) = ec_max c"
  "ec_max_bytes (store_entry key e c) = ec_max_bytes c"
  by (simp_all add: store_entry_def)

lemma evict_oldest_frame [simp]:
  "ec_ttl (evict_oldest c) = ec_ttl c" "ec_max (evict_oldest c) = ec_max c"
  "ec_max_bytes (evict_oldest c) = ec_max_bytes c"
  by (simp_all add: evict_oldest_def)

text \<open>A removal takes the key out of the map and out of the order.\<close>

lemma entries_size_append [simp]: "entries_size (xs @ ys) = entries_size xs + entries_size ys"
  by (simp add: entries_size_def)

lemma entries_size_Nil [simp]: "entries_size [] = 0"
  and entries_size_Cons [simp]: "entries_size (p # ps) = ce_size (snd p) + entries_size ps"
  by (simp_all add: entries_size_def)

lemma remove_locked_items [simp]: "map_of (ec_items (remove_locked key c)) = (map_of (ec_items c))(key := None)"
  by (auto simp: remove_locked_def gomap_simps fun_eq_iff split: option.split)

lemma remove_locked_order:
  assumes "ec_inv c"
  shows "ec_order (remove_locked key c) = filter (\<lambda>k. k \<noteq> key) (ec_order c)"
proof (cases "map_of (ec_items c) key")
  case None
  with assms have "key \<notin> set (ec_order c)" by (simp add: ec_inv_def map_of_eq_None_iff)
  then have "filter (\<lambda>k. k \<noteq> key) (ec_order c) = ec_order c" by (simp add: filter_id_conv) blast
  with None show ?thesis by (simp add: remove_locked_def)
qed (simp add: remove_locked_def)

lemma remove_locked_split:
  assumes "ec_inv c" and "map_of (ec_items c) key = Some e"
  obtains xs ys where "ec_items c = xs @ (key, e) # ys" and "ec_items (remove_locked key c) = xs @ ys"
    and "key \<notin> fst ` set xs" and "key \<notin> fst ` set ys"
proof -
  from assms(1) have g: "gm_ok (ec_items c)" by (simp add: ec_inv_def)
  from g assms(2) obtain xs ys where xs: "ec_items c = xs @ (key, e) # ys"
      "AList.delete key (ec_items c) = xs @ ys"
    by (rule delete_split)
  moreover from g xs have "key \<notin> fst ` set xs" "key \<notin> fst ` set ys" by (auto simp: gm_ok_def)
  moreover have "ec_items (remove_locked key c) = xs @ ys"
    using assms(2) xs(2) by (simp add: remove_locked_def)
  ultimately show ?thesis using that by blast
qed

lemma remove_locked_inv:
  assumes "ec_inv c"
  shows "ec_inv (remove_locked key c)"
proof (cases "map_of (ec_items c) key")
  case None
  with assms show ?thesis by (simp add: remove_locked_def)
next
  case (Some e)
  obtain xs ys where xs: "ec_items c = xs @ (key, e) # ys" "ec_items (remove_locked key c) = xs @ ys"
    and f: "key \<notin> fst ` set xs" "key \<notin> fst ` set ys"
    using remove_locked_split [OF assms Some] by blast
  have keys: "set (ec_order (remove_locked key c)) = fst ` set (xs @ ys)"
  proof -
    have "set (ec_order c) = insert key (fst ` set (xs @ ys))"
      using assms xs(1) by (simp add: ec_inv_def image_Un)
    moreover have "key \<notin> fst ` set (xs @ ys)" using f by auto
    ultimately show ?thesis by (simp only: remove_locked_order [OF assms] set_filter) blast
  qed
  have bytes: "ec_bytes (remove_locked key c) = entries_size (xs @ ys)"
    using assms xs(1) Some by (simp add: remove_locked_def ec_inv_def)
  show ?thesis
    unfolding ec_inv_def xs(2) keys bytes using assms xs(1)
    by (simp add: ec_inv_def gm_ok_def remove_locked_order [OF assms])
qed

lemma remove_locked_smaller:
  assumes "ec_inv c"
  shows "length (ec_items (remove_locked key c)) \<le> length (ec_items c)
    \<and> ec_bytes (remove_locked key c) \<le> ec_bytes c"
proof (cases "map_of (ec_items c) key")
  case (Some e)
  with assms have "0 \<le> ce_size e" by (force simp: ec_inv_def dest: map_of_SomeD)
  with Some show ?thesis by (simp add: remove_locked_def length_delete_le)
qed (simp add: remove_locked_def)

lemma expire_step_inv: "ec_inv c \<Longrightarrow> ec_inv (expire_step now c p)"
  using remove_locked_inv [of c "fst p"] by (simp add: expire_step_def ec_inv_def)

lemma evict_oldest_inv: "ec_inv c \<Longrightarrow> ec_inv (evict_oldest c)"
  using remove_locked_inv [of c "hd (ec_order c)"] by (simp add: evict_oldest_def ec_inv_def)

lemma foldl_expire_inv:
  "ec_inv c \<Longrightarrow> ec_inv (foldl (expire_step now) c ps)
     \<and> length (ec_items (foldl (expire_step now) c ps)) \<le> length (ec_items c)
     \<and> ec_bytes (foldl (expire_step now) c ps) \<le> ec_bytes c"
proof (induction ps arbitrary: c)
  case (Cons p ps)
  have "length (ec_items (expire_step now c p)) \<le> length (ec_items c)
      \<and> ec_bytes (expire_step now c p) \<le> ec_bytes c"
    using remove_locked_smaller [OF Cons.prems] by (simp add: expire_step_def)
  moreover note Cons.IH [OF expire_step_inv [OF Cons.prems, of now p]]
  ultimately show ?case by (simp only: foldl_Cons) (meson order_trans)
qed simp

lemma expire_locked_inv: "ec_inv c \<Longrightarrow> ec_inv (expire_locked now c)"
  and expire_locked_smaller: "ec_inv c \<Longrightarrow> length (ec_items (expire_locked now c)) \<le> length (ec_items c)
    \<and> ec_bytes (expire_locked now c) \<le> ec_bytes c"
  unfolding expire_locked_def using foldl_expire_inv by blast+

lemma expire_locked_ok: "ec_ok c \<Longrightarrow> ec_ok (expire_locked now c)"
  using expire_locked_inv [of c now] expire_locked_smaller [of c now]
  by (auto simp: ec_ok_def ec_within_def gm_len_def)

lemma store_entry_inv:
  assumes "ec_inv c" and "map_of (ec_items c) key = None" and "0 \<le> ce_size e"
    and "ce_size e \<le> ec_max_bytes c" and "it_id (ce_item e) = key"
  shows "ec_inv (store_entry key e c)"
proof -
  have f: "key \<notin> fst ` set (ec_items c)" using assms(2) by (simp add: map_of_eq_None_iff)
  then have "AList.update key e (ec_items c) = ec_items c @ [(key, e)]" by (rule update_fresh)
  with assms f show ?thesis by (auto simp: ec_inv_def store_entry_def gm_ok_def)
qed

section \<open>Eviction\<close>

lemma evict_oldest_order:
  assumes "ec_inv c" and "ec_order c \<noteq> []"
  shows "ec_order (evict_oldest c) = tl (ec_order c)"
proof -
  obtain k ks where o: "ec_order c = k # ks" using assms(2) by (cases "ec_order c") auto
  with assms(1) have "k \<notin> set ks" by (auto simp: ec_inv_def)
  then have "filter (\<lambda>j. j \<noteq> k) ks = ks" by (simp add: filter_id_conv) blast
  with o show ?thesis by (simp add: evict_oldest_def remove_locked_order [OF assms(1)])
qed

interpretation ec: fifo_evict ec_inv ec_order evict_oldest
  by unfold_locales (simp_all add: evict_oldest_inv evict_oldest_order)

section \<open>The cache as a queue\<close>

text \<open>
  The abstract cache: the entries in insertion order. A removal filters, an expiry filters, a
  store appends, and shrinking drops from the head until the limits hold.
\<close>

type_synonym ec_queue_t = "(string \<times> cache_entry) list"

definition ec_queue :: "ecache \<Rightarrow> ec_queue_t" where
  "ec_queue c = map (\<lambda>k. (k, the (map_of (ec_items c) k))) (ec_order c)"

definition q_remove :: "string \<Rightarrow> ec_queue_t \<Rightarrow> ec_queue_t" where
  "q_remove key q = filter (\<lambda>p. fst p \<noteq> key) q"

definition q_expire :: "time \<Rightarrow> ec_queue_t \<Rightarrow> ec_queue_t" where
  "q_expire now q = filter (\<lambda>p. now \<le> ce_expires (snd p)) q"

definition q_over :: "int \<Rightarrow> int \<Rightarrow> ec_queue_t \<Rightarrow> bool" where
  "q_over mx mb q \<longleftrightarrow> int (length q) > mx \<or> entries_size q > mb"

fun q_shrink :: "int \<Rightarrow> int \<Rightarrow> ec_queue_t \<Rightarrow> ec_queue_t" where
  "q_shrink mx mb [] = []"
| "q_shrink mx mb (p # q) = (if q_over mx mb (p # q) then q_shrink mx mb q else p # q)"

definition q_put :: "int \<Rightarrow> int \<Rightarrow> time \<Rightarrow> string \<Rightarrow> cache_entry \<Rightarrow> ec_queue_t \<Rightarrow> ec_queue_t" where
  "q_put mx mb now key e q =
     (let q = q_remove key (q_expire now q)
      in if ce_size e > mb then q else q_shrink mx mb (q @ [(key, e)]))"

lemma map_fst_ec_queue [simp]: "map fst (ec_queue c) = ec_order c"
  by (simp add: ec_queue_def o_def)

lemma ec_queue_eq_Nil [simp]: "ec_queue c = [] \<longleftrightarrow> ec_order c = []"
  by (simp add: ec_queue_def)

lemma mset_ec_queue:
  assumes "ec_inv c"
  shows "mset (ec_queue c) = mset (ec_items c)"
proof -
  from assms have d: "distinct (map fst (ec_items c))" "distinct (ec_order c)"
      "set (ec_order c) = fst ` set (ec_items c)"
    by (simp_all add: ec_inv_def gm_ok_def)
  have "set (ec_queue c) = (\<lambda>k. (k, the (map_of (ec_items c) k))) ` fst ` set (ec_items c)"
    using d(3) by (simp add: ec_queue_def)
  also have "\<dots> = set (ec_items c)"
    using d(1) by (force simp: image_image image_iff)
  finally have "set (ec_queue c) = set (ec_items c)" .
  moreover have "distinct (ec_queue c)" "distinct (ec_items c)"
    using d by (metis map_fst_ec_queue distinct_map)+
  ultimately show ?thesis by (simp add: set_eq_iff_mset_eq_distinct)
qed

lemma entries_size_mset:
  assumes "mset p = mset q"
  shows "entries_size p = entries_size q"
proof -
  have "sum_mset (mset (map (\<lambda>p. ce_size (snd p)) p)) = sum_mset (mset (map (\<lambda>p. ce_size (snd p)) q))"
    using assms by simp
  then show ?thesis by (simp only: sum_mset_sum_list entries_size_def)
qed

lemma ec_queue_size:
  assumes "ec_inv c"
  shows "length (ec_queue c) = length (ec_items c)" and "entries_size (ec_queue c) = ec_bytes c"
proof -
  show "length (ec_queue c) = length (ec_items c)"
    using mset_ec_queue [OF assms] by (rule mset_eq_length)
  show "entries_size (ec_queue c) = ec_bytes c"
    using entries_size_mset [OF mset_ec_queue [OF assms]] assms by (simp add: ec_inv_def)
qed

lemma over_limits_queue: "ec_inv c \<Longrightarrow> over_limits c \<longleftrightarrow> q_over (ec_max c) (ec_max_bytes c) (ec_queue c)"
  by (simp add: over_limits_def q_over_def gm_len_def ec_queue_size)

lemma map_of_ec_queue:
  assumes "ec_inv c"
  shows "map_of (ec_queue c) = map_of (ec_items c)"
proof
  fix k
  have "k \<in> set (ec_order c) \<longleftrightarrow> map_of (ec_items c) k \<noteq> None"
    using assms by (simp add: ec_inv_def map_of_eq_None_iff)
  then show "map_of (ec_queue c) k = map_of (ec_items c) k"
    by (auto simp: ec_queue_def map_of_map_restrict restrict_map_def)
qed

lemma ec_queue_remove:
  assumes "ec_inv c"
  shows "ec_queue (remove_locked key c) = q_remove key (ec_queue c)"
  by (auto simp: ec_queue_def q_remove_def remove_locked_order [OF assms] filter_map o_def)

lemma ec_queue_expired_field [simp]: "ec_queue (c\<lparr>ec_expired := n\<rparr>) = ec_queue c"
  "ec_queue (c\<lparr>ec_evictions := n\<rparr>) = ec_queue c" "ec_queue (c\<lparr>ec_oversized := n\<rparr>) = ec_queue c"
  by (simp_all add: ec_queue_def)

lemma ec_queue_foldl_expire:
  "ec_inv c \<Longrightarrow> ec_queue (foldl (expire_step now) c ps) =
     filter (\<lambda>p. \<not> (\<exists>p' \<in> set ps. fst p' = fst p \<and> now > ce_expires (snd p'))) (ec_queue c)"
proof (induction ps arbitrary: c)
  case (Cons x ps)
  have "ec_queue (expire_step now c x) =
      filter (\<lambda>p. \<not> (fst x = fst p \<and> now > ce_expires (snd x))) (ec_queue c)"
    by (auto simp: expire_step_def ec_queue_remove [OF Cons.prems] q_remove_def intro!: filter_cong)
  with Cons.IH [OF expire_step_inv [OF Cons.prems, of now x]] show ?case
    by (auto intro!: filter_cong)
qed simp

lemma ec_queue_expire:
  assumes "ec_inv c"
  shows "ec_queue (expire_locked now c) = q_expire now (ec_queue c)"
  unfolding expire_locked_def ec_queue_foldl_expire [OF assms] q_expire_def
proof (rule filter_cong [OF refl])
  fix p assume "p \<in> set (ec_queue c)"
  then have p: "p \<in> set (ec_items c)" using mset_ec_queue [OF assms] by (metis mset_eq_setD)
  have "p' = p" if "p' \<in> set (ec_items c)" "fst p' = fst p" for p'
    using that p assms by (simp add: ec_inv_def gm_ok_def distinct_map) (blast dest: inj_onD)
  with p show "(\<not> (\<exists>p' \<in> set (ec_items c). fst p' = fst p \<and> now > ce_expires (snd p')))
      = (now \<le> ce_expires (snd p))" by (metis not_less)
qed

lemma ec_queue_store:
  assumes "ec_inv c" and "map_of (ec_items c) key = None"
  shows "ec_queue (store_entry key e c) = ec_queue c @ [(key, e)]"
proof -
  have "key \<notin> set (ec_order c)" using assms by (simp add: ec_inv_def map_of_eq_None_iff)
  then show ?thesis
    by (auto simp: ec_queue_def store_entry_def gomap_simps)
qed

lemma ec_queue_evict:
  assumes "ec_inv c" and "ec_order c \<noteq> []"
  shows "ec_queue (evict_oldest c) = tl (ec_queue c)"
proof -
  obtain k ks where o: "ec_order c = k # ks" using assms(2) by (cases "ec_order c") auto
  with assms(1) have "k \<notin> set ks" by (auto simp: ec_inv_def)
  then have "filter (\<lambda>p. fst p \<noteq> k) (map (\<lambda>k. (k, the (map_of (ec_items c) k))) ks)
      = map (\<lambda>k. (k, the (map_of (ec_items c) k))) ks"
    by (auto simp: filter_id_conv)
  with o show ?thesis
    by (simp add: evict_oldest_def ec_queue_remove [OF assms(1)] q_remove_def) (simp add: ec_queue_def)
qed

lemma ec_queue_evict_pow:
  "ec_inv c \<Longrightarrow> n \<le> length (ec_order c) \<Longrightarrow>
     ec_inv ((evict_oldest ^^ n) c) \<and> ec_queue ((evict_oldest ^^ n) c) = drop n (ec_queue c)
     \<and> ec_max ((evict_oldest ^^ n) c) = ec_max c
     \<and> ec_max_bytes ((evict_oldest ^^ n) c) = ec_max_bytes c
     \<and> ec_ttl ((evict_oldest ^^ n) c) = ec_ttl c"
proof (induction n)
  case (Suc n)
  let ?d = "(evict_oldest ^^ n) c"
  from Suc have IH: "ec_inv ?d" "ec_queue ?d = drop n (ec_queue c)" "ec_max ?d = ec_max c"
      "ec_max_bytes ?d = ec_max_bytes c" "ec_ttl ?d = ec_ttl c" by simp_all
  have "length (ec_queue c) = length (ec_order c)" by (simp add: ec_queue_def)
  with Suc.prems IH(2) have "ec_order ?d \<noteq> []" by (metis ec_queue_eq_Nil Suc_le_lessD drop_eq_Nil not_le)
  with IH show ?case
    by (simp add: evict_oldest_inv ec_queue_evict tl_drop drop_Suc)
qed simp

lemma q_shrink_drop:
  assumes "\<forall>m < n. q_over mx mb (drop m q)" and "n \<le> length q"
    and "\<not> q_over mx mb (drop n q) \<or> drop n q = []"
  shows "q_shrink mx mb q = drop n q"
  using assms
proof (induction n arbitrary: q)
  case 0
  then show ?case by (cases q) auto
next
  case (Suc n)
  from Suc.prems(2) obtain p r where q: "q = p # r" by (cases q) auto
  have "q_over mx mb (drop (Suc m) q)" if "m < n" for m
    using Suc.prems(1) that by simp
  then have over: "\<forall>m < n. q_over mx mb (drop m r)" by (simp only: q drop_Suc_Cons) blast
  have len: "n \<le> length r" using Suc.prems(2) by (simp add: q)
  have stop: "\<not> q_over mx mb (drop n r) \<or> drop n r = []"
    using Suc.prems(3) by (simp only: q drop_Suc_Cons)
  from over len stop have "q_shrink mx mb r = drop n r" by (rule Suc.IH)
  moreover have "q_over mx mb (p # r)"
    using Suc.prems(1) [THEN spec, of 0] by (simp only: q drop0)
  ultimately show ?case using q by simp
qed

text \<open>The loop of \<open>Put\<close> ends, and what it leaves is the shrunk queue.\<close>

lemma evict_loop:
  assumes "ec_inv c"
  obtains d where "while_option (\<lambda>c. over_limits c \<and> ec_order c \<noteq> []) evict_oldest c = Some d"
    and "ec_inv d" and "ec_queue d = q_shrink (ec_max c) (ec_max_bytes c) (ec_queue c)"
    and "\<not> over_limits d \<or> ec_order d = []"
    and "ec_max d = ec_max c" and "ec_max_bytes d = ec_max_bytes c" and "ec_ttl d = ec_ttl c"
proof -
  obtain d where d: "while_option (\<lambda>c. over_limits c \<and> ec_order c \<noteq> []) evict_oldest c = Some d"
    using ec.evict_terminates [OF assms, of over_limits] by blast
  note r = ec.evict_result [OF assms d]
  from r(3) obtain n where n: "n \<le> length (ec_order c)" "d = (evict_oldest ^^ n) c"
      "\<forall>m < n. over_limits ((evict_oldest ^^ m) c)" by blast
  note pow = ec_queue_evict_pow [OF assms]
  have len: "length (ec_queue c) = length (ec_order c)" by (simp add: ec_queue_def)
  have over: "over_limits ((evict_oldest ^^ m) c) = q_over (ec_max c) (ec_max_bytes c) (drop m (ec_queue c))"
    if "m \<le> length (ec_order c)" for m
    using pow [OF that] by (simp add: over_limits_queue)
  have "q_shrink (ec_max c) (ec_max_bytes c) (ec_queue c) = drop n (ec_queue c)"
  proof (rule q_shrink_drop)
    show "\<forall>m < n. q_over (ec_max c) (ec_max_bytes c) (drop m (ec_queue c))"
      using n(1,3) over by (meson less_imp_le le_trans)
    show "n \<le> length (ec_queue c)" using n(1) len by simp
    show "\<not> q_over (ec_max c) (ec_max_bytes c) (drop n (ec_queue c)) \<or> drop n (ec_queue c) = []"
      using r(2) over [OF n(1)] pow [OF n(1)] ec_queue_eq_Nil [of d]
      by (simp only: n(2))
  qed
  with that [OF d r(1)] r(2) pow [OF n(1)] n(2) show ?thesis by simp
qed

lemma entries_size_nonneg: "(\<forall>p \<in> set q. 0 \<le> ce_size (snd p)) \<Longrightarrow> 0 \<le> entries_size q"
  by (induction q) auto

lemma q_shrink_keeps_last:
  assumes "0 < mx" and "ce_size (snd p) \<le> mb"
  shows "\<exists>r. q_shrink mx mb (q @ [p]) = r @ [p] \<and> suffix r q"
proof (induction q)
  case Nil
  with assms show ?case by (simp add: q_over_def)
next
  case (Cons a q)
  then obtain r where r: "q_shrink mx mb (q @ [p]) = r @ [p]" "suffix r q" by blast
  show ?case
  proof (cases "q_over mx mb (a # q @ [p])")
    case True
    with r show ?thesis by (auto intro: suffix_ConsI)
  next
    case False
    then show ?thesis by (intro exI [of _ "a # q"]) simp
  qed
qed

lemma q_shrink_bound: "q_shrink mx mb q = [] \<or> \<not> q_over mx mb (q_shrink mx mb q)"
  by (induction q) auto

section \<open>The operations on the queue\<close>

definition new_entry :: "(item \<Rightarrow> string option) \<Rightarrow> item \<Rightarrow> time \<Rightarrow> ecache \<Rightarrow> cache_entry" where
  "new_entry marshal it now c =
     \<lparr>ce_item = it, ce_expires = now + ec_ttl c, ce_size = serialized_item_size marshal it\<rparr>"

lemma ec_ok_inv: "ec_ok c \<Longrightarrow> ec_inv c"
  by (simp add: ec_ok_def)

lemma within_of_shrunk:
  assumes "ec_inv d" and "\<not> over_limits d \<or> ec_order d = []" and "0 < ec_max_bytes d"
  shows "ec_within d"
proof (cases "ec_order d = []")
  case True
  with assms(1) have "ec_items d = []" by (auto simp: ec_inv_def)
  with assms(1,3) show ?thesis by (simp add: ec_within_def ec_inv_def gm_len_def)
next
  case False
  with assms(2) show ?thesis by (auto simp: over_limits_def ec_within_def)
qed

lemma cache_put_queue:
  assumes ok: "ec_ok c" and act: "0 < ec_max c" "it_id it \<noteq> []"
  obtains d where "cache_put marshal it now1 now2 c = Some d" and "ec_ok d"
    and "ec_queue d = q_put (ec_max c) (ec_max_bytes c) now1 (it_id it)
           (new_entry marshal it now2 c) (ec_queue c)"
    and "ec_ttl d = ec_ttl c" and "ec_max d = ec_max c" and "ec_max_bytes d = ec_max_bytes c"
proof -
  let ?e = "new_entry marshal it now2 c" and ?k = "it_id it"
  let ?c1 = "expire_locked now1 c"
  let ?c2 = "remove_locked ?k ?c1"
  have i1: "ec_inv ?c1" using ok by (simp add: ec_ok_inv expire_locked_inv)
  have i2: "ec_inv ?c2" by (rule remove_locked_inv [OF i1])
  have q2: "ec_queue ?c2 = q_remove ?k (q_expire now1 (ec_queue c))"
    using ec_queue_remove [OF i1] ec_queue_expire [OF ec_ok_inv [OF ok]] by simp
  have put: "cache_put marshal it now1 now2 c =
      (if ce_size ?e > ec_max_bytes c then Some (?c2\<lparr>ec_oversized := ec_oversized ?c1 + 1\<rparr>)
       else while_option (\<lambda>c. over_limits c \<and> ec_order c \<noteq> []) evict_oldest (store_entry ?k ?e ?c2))"
    using act by (simp add: cache_put_def new_entry_def Let_def remove_locked_def split: option.split)
  show ?thesis
  proof (cases "ce_size ?e > ec_max_bytes c")
    case True
    let ?d = "?c2\<lparr>ec_oversized := ec_oversized ?c1 + 1\<rparr>"
    have "ec_ok ?d"
      using expire_locked_ok [OF ok, of now1] i2 remove_locked_smaller [OF i1, of ?k]
      by (auto simp: ec_ok_def ec_within_def gm_len_def ec_inv_def)
    with that [of ?d] True put q2 show ?thesis by (simp add: q_put_def Let_def)
  next
    case False
    have i3: "ec_inv (store_entry ?k ?e ?c2)"
      by (rule store_entry_inv [OF i2]) (use False in \<open>simp_all add: new_entry_def size_nonneg\<close>)
    have q3: "ec_queue (store_entry ?k ?e ?c2) = ec_queue ?c2 @ [(?k, ?e)]"
      by (rule ec_queue_store [OF i2]) simp
    from evict_loop [OF i3] obtain d where
        d: "while_option (\<lambda>c. over_limits c \<and> ec_order c \<noteq> []) evict_oldest (store_entry ?k ?e ?c2) = Some d"
      and i: "ec_inv d" and q: "ec_queue d = q_shrink (ec_max c) (ec_max_bytes c) (ec_queue ?c2 @ [(?k, ?e)])"
      and stop: "\<not> over_limits d \<or> ec_order d = []"
      and fr: "ec_max d = ec_max c" "ec_max_bytes d = ec_max_bytes c" "ec_ttl d = ec_ttl c"
      by (auto simp: q3)
    have "ec_within d" using within_of_shrunk [OF i stop] ok fr by (simp add: ec_ok_def)
    then have "ec_ok d" using ok i fr by (simp add: ec_ok_def)
    with that [of d] put False d q q2 fr show ?thesis by (simp add: q_put_def Let_def)
  qed
qed

lemma cache_put_ok:
  assumes "ec_ok c"
  shows "\<exists>d. cache_put marshal it now1 now2 c = Some d \<and> ec_ok d"
proof (cases "0 < ec_max c \<and> it_id it \<noteq> []")
  case True
  then show ?thesis using cache_put_queue [OF assms, of it] by blast
qed (use assms in \<open>auto simp: cache_put_def\<close>)

lemma cache_put_all_ok: "ec_ok c \<Longrightarrow> \<exists>d. cache_put_all marshal xs c = Some d \<and> ec_ok d"
proof (induction xs arbitrary: c)
  case (Cons x xs)
  obtain it n1 n2 where x: "x = (it, n1, n2)" by (cases x) auto
  from cache_put_ok [OF Cons.prems] obtain d where "cache_put marshal it n1 n2 c = Some d" "ec_ok d"
    by blast
  with Cons.IH x show ?case by simp
qed simp

lemma cache_get_ok: "ec_ok c \<Longrightarrow> ec_ok (snd (cache_get key now c))"
  by (auto simp: cache_get_def Let_def expire_locked_ok split: option.split)

lemma cache_get_queue:
  assumes "ec_ok c"
  shows "fst (cache_get key now c) =
    (if key = [] then None
     else map_option (\<lambda>e. (ce_item e)\<lparr>it_freshness := FreshnessCached\<rparr>)
            (map_of (q_expire now (ec_queue c)) key))"
proof -
  have "map_of (ec_items (expire_locked now c)) = map_of (q_expire now (ec_queue c))"
    using map_of_ec_queue [OF expire_locked_inv] ec_queue_expire ec_ok_inv [OF assms] by metis
  then show ?thesis by (simp add: cache_get_def Let_def split: option.split)
qed

lemma new_cache_ok: "ec_ok (new_cache ttl mx mb)"
  by (auto simp: new_cache_def Let_def ec_ok_def ec_inv_def ec_within_def gm_len_def
      max_cache_items_def max_cache_bytes_def default_cache_max_bytes_def duration_defs)

section \<open>Runs of operations\<close>

datatype cache_op = OpPut item time time | OpGet string time | OpStats time

fun cache_step :: "(item \<Rightarrow> string option) \<Rightarrow> cache_op \<Rightarrow> ecache \<Rightarrow> ecache option" where
  "cache_step marshal (OpPut it now1 now2) c = cache_put marshal it now1 now2 c"
| "cache_step marshal (OpGet key now) c = Some (snd (cache_get key now c))"
| "cache_step marshal (OpStats now) c = Some (snd (cache_stats_of now c))"

fun cache_run :: "(item \<Rightarrow> string option) \<Rightarrow> cache_op list \<Rightarrow> ecache \<Rightarrow> ecache option" where
  "cache_run marshal [] c = Some c"
| "cache_run marshal (x # xs) c =
     (case cache_step marshal x c of None \<Rightarrow> None | Some c' \<Rightarrow> cache_run marshal xs c')"

lemma cache_step_ok: "ec_ok c \<Longrightarrow> \<exists>d. cache_step marshal x c = Some d \<and> ec_ok d"
  using cache_put_ok cache_get_ok expire_locked_ok
  by (cases x) (auto simp: cache_stats_of_def Let_def)

lemma cache_run_ok: "ec_ok c \<Longrightarrow> \<exists>d. cache_run marshal xs c = Some d \<and> ec_ok d"
proof (induction xs arbitrary: c)
  case (Cons x xs)
  from cache_step_ok [OF Cons.prems] obtain d where "cache_step marshal x c = Some d" "ec_ok d" by blast
  with Cons.IH show ?case by simp
qed simp

text \<open>The item of the last \<open>Put\<close> under an identifier.\<close>

fun last_put :: "string \<Rightarrow> cache_op list \<Rightarrow> item option" where
  "last_put key [] = None"
| "last_put key (x # xs) = (case last_put key xs of
     Some it \<Rightarrow> Some it
   | None \<Rightarrow> (case x of OpPut it _ _ \<Rightarrow> if it_id it = key then Some it else None | _ \<Rightarrow> None))"

lemma last_put_snoc:
  "last_put key (xs @ [x]) = (case x of
     OpPut it _ _ \<Rightarrow> if it_id it = key then Some it else last_put key xs | _ \<Rightarrow> last_put key xs)"
  by (induction xs) (auto split: option.split cache_op.split)

lemma cache_run_snoc:
  "cache_run marshal (xs @ [x]) c = Option.bind (cache_run marshal xs c) (cache_step marshal x)"
  by (induction xs arbitrary: c) (auto split: option.split)

lemma set_q_shrink: "set (q_shrink mx mb q) \<subseteq> set q"
  by (induction q) auto

lemma set_q_put: "set (q_put mx mb now k e q) \<subseteq> insert (k, e) {p \<in> set q. fst p \<noteq> k}"
  using set_q_shrink [of mx mb "q_remove k (q_expire now q) @ [(k, e)]"]
  by (auto simp: q_put_def q_remove_def q_expire_def Let_def)

definition holds_last_puts :: "cache_op list \<Rightarrow> ecache \<Rightarrow> bool" where
  "holds_last_puts ops c \<longleftrightarrow> (\<forall>p \<in> set (ec_queue c).
     fst p \<noteq> [] \<and> last_put (fst p) ops = Some (ce_item (snd p)))"

lemma holds_last_puts_expire:
  "ec_ok c \<Longrightarrow> holds_last_puts ops c \<Longrightarrow> holds_last_puts ops (expire_locked now c)"
  by (auto simp: holds_last_puts_def ec_queue_expire ec_ok_inv q_expire_def)

lemma holds_last_puts_step:
  assumes ok: "ec_ok c" and h: "holds_last_puts ops c" and d: "cache_step marshal x c = Some d"
  shows "holds_last_puts (ops @ [x]) d"
proof (cases x)
  case (OpPut it now1 now2)
  show ?thesis
  proof (cases "0 < ec_max c \<and> it_id it \<noteq> []")
    case True
    with cache_put_queue [OF ok, of it] d OpPut
    have "ec_queue d = q_put (ec_max c) (ec_max_bytes c) now1 (it_id it)
        (new_entry marshal it now2 c) (ec_queue c)"
      by (metis cache_step.simps(1) option.inject)
    then have "set (ec_queue d) \<subseteq>
        insert (it_id it, new_entry marshal it now2 c) {p \<in> set (ec_queue c). fst p \<noteq> it_id it}"
      by (simp add: set_q_put)
    with h True OpPut show ?thesis
      by (auto simp: holds_last_puts_def last_put_snoc new_entry_def)
  next
    case False
    then have c: "d = c" using d OpPut by (auto simp: cache_put_def)
    show ?thesis
    proof (cases "it_id it = []")
      case True
      with h c OpPut show ?thesis by (auto simp: holds_last_puts_def last_put_snoc)
    next
      case nonempty: False
      with False ok have "ec_items c = []" by (simp add: ec_ok_def ec_within_def gm_len_def)
      then have "ec_queue c = []" using ec_queue_size(1) [OF ec_ok_inv [OF ok]] by simp
      with c show ?thesis by (simp add: holds_last_puts_def del: ec_queue_eq_Nil)
    qed
  qed
next
  case (OpGet key now)
  then have "d = c \<or> d = expire_locked now c"
    using d by (auto simp: cache_get_def Let_def split: option.splits)
  with OpGet h holds_last_puts_expire [OF ok h] show ?thesis
    by (auto simp: holds_last_puts_def last_put_snoc)
next
  case (OpStats now)
  with d holds_last_puts_expire [OF ok h, of now] show ?thesis
    by (auto simp: holds_last_puts_def last_put_snoc cache_stats_of_def Let_def)
qed

lemma holds_last_puts_run:
  assumes "cache_run marshal ops (new_cache ttl mx mb) = Some c"
  shows "ec_ok c \<and> holds_last_puts ops c"
  using assms
proof (induction ops arbitrary: c rule: rev_induct)
  case Nil
  then have "ec_queue c = []" by (auto simp: new_cache_def Let_def)
  with Nil show ?case by (auto simp: holds_last_puts_def new_cache_ok simp del: ec_queue_eq_Nil)
next
  case (snoc x xs)
  then obtain d where d: "cache_run marshal xs (new_cache ttl mx mb) = Some d"
      "cache_step marshal x d = Some c"
    by (auto simp: cache_run_snoc bind_eq_Some_conv)
  with snoc.IH holds_last_puts_step cache_step_ok show ?case by (metis option.inject)
qed

section \<open>Properties\<close>

text \<open>
  Property C8: every operation of the evidence cache returns, and after any sequence of puts, gets
  and statistics reads the number of items is within the (capped) item limit, the byte counter is
  exactly the size of the stored entries and within the byte budget of at most 64 MiB, and the
  insertion order lists exactly the stored identifiers, each once.
\<close>

theorem evidence_cache_bounded:
  "\<exists>c. cache_run marshal ops (new_cache ttl mx mb) = Some c
     \<and> gm_len (ec_items c) \<le> max 0 (ec_max c) \<and> ec_max c \<le> 1000
     \<and> ec_bytes c = entries_size (ec_items c)
     \<and> ec_bytes c \<le> ec_max_bytes c \<and> ec_max_bytes c \<le> 64 * 2 ^ 20
     \<and> distinct (ec_order c) \<and> set (ec_order c) = fst ` set (ec_items c)"
  using cache_run_ok [OF new_cache_ok, of marshal ops ttl mx mb]
  by (auto simp: ec_ok_def ec_within_def ec_inv_def max_cache_items_def max_cache_bytes_def)

text \<open>
  Whatever happened before, a \<open>Get\<close> that finds an item returns the item of the last
  \<open>Put\<close> under that identifier, marked as cached and otherwise unchanged.
\<close>

lemma evidence_cache_get_latest:
  assumes "cache_run marshal ops (new_cache ttl mx mb) = Some c"
    and "fst (cache_get key now c) = Some it"
  shows "\<exists>it'. last_put key ops = Some it' \<and> it = it'\<lparr>it_freshness := FreshnessCached\<rparr>"
proof -
  from holds_last_puts_run [OF assms(1)] have ok: "ec_ok c" and h: "holds_last_puts ops c" by blast+
  from assms(2) obtain e where e: "map_of (q_expire now (ec_queue c)) key = Some e"
      "it = (ce_item e)\<lparr>it_freshness := FreshnessCached\<rparr>"
    by (auto simp: cache_get_queue [OF ok] split: if_splits)
  from map_of_SomeD [OF e(1)] have "(key, e) \<in> set (ec_queue c)" by (simp add: q_expire_def)
  with h have "last_put key ops = Some (ce_item e)" by (auto simp: holds_last_puts_def)
  with e(2) show ?thesis by blast
qed

text \<open>
  Property C14: \<open>Put\<close> implements the queue: expired entries leave, an older entry under the same
  identifier leaves, the item goes to the tail unless it alone exceeds the byte budget, and entries
  leave from the head until the limits hold.
\<close>

theorem cache_put_refines:
  assumes "ec_ok c" and "0 < ec_max c" and "it_id it \<noteq> []"
  shows "\<exists>d. cache_put marshal it now1 now2 c = Some d \<and> ec_ok d
    \<and> ec_queue d = q_put (ec_max c) (ec_max_bytes c) now1 (it_id it)
        \<lparr>ce_item = it, ce_expires = now2 + ec_ttl c, ce_size = serialized_item_size marshal it\<rparr>
        (ec_queue c)"
  using cache_put_queue [OF assms] unfolding new_entry_def by blast

text \<open>An item that fits the byte budget is there right after its \<open>Put\<close> and until its time to live has
  passed, whatever had to be evicted for it.\<close>

lemma cache_put_then_get:
  assumes "ec_ok c" and "0 < ec_max c" and "it_id it \<noteq> []"
    and "serialized_item_size marshal it \<le> ec_max_bytes c" and "now3 \<le> now2 + ec_ttl c"
  shows "\<exists>d. cache_put marshal it now1 now2 c = Some d
    \<and> fst (cache_get (it_id it) now3 d) = Some (it\<lparr>it_freshness := FreshnessCached\<rparr>)"
proof -
  let ?e = "new_entry marshal it now2 c" and ?k = "it_id it"
  obtain d where d: "cache_put marshal it now1 now2 c = Some d" "ec_ok d"
    and q: "ec_queue d = q_put (ec_max c) (ec_max_bytes c) now1 ?k ?e (ec_queue c)"
    using cache_put_queue [OF assms(1-3)] by blast
  have "ce_size ?e \<le> ec_max_bytes c" using assms(4) by (simp add: new_entry_def)
  with q_shrink_keeps_last [OF assms(2), of "(?k, ?e)"] q obtain r where
      r: "ec_queue d = r @ [(?k, ?e)]" "suffix r (q_remove ?k (q_expire now1 (ec_queue c)))"
    by (auto simp: q_put_def Let_def)
  from set_mono_suffix [OF r(2)] have "?k \<notin> fst ` set r" by (auto simp: q_remove_def)
  then have none: "map_of (q_expire now3 r) ?k = None"
    by (auto simp: q_expire_def map_of_eq_None_iff)
  have "q_expire now3 (ec_queue d) = q_expire now3 r @ [(?k, ?e)]"
    using r(1) assms(5) by (simp add: q_expire_def new_entry_def)
  with none have "map_of (q_expire now3 (ec_queue d)) ?k = Some ?e"
    by (simp add: map_add_def)
  with d assms(3) cache_get_queue [OF d(2), of ?k now3] show ?thesis
    by (simp add: new_entry_def)
qed

lemma cache_put_limits:
  assumes "ec_ok c" and "cache_put marshal it now1 now2 c = Some d"
  shows "ec_ok d \<and> ec_ttl d = ec_ttl c \<and> ec_max d = ec_max c \<and> ec_max_bytes d = ec_max_bytes c"
proof (cases "0 < ec_max c \<and> it_id it \<noteq> []")
  case True
  then have "0 < ec_max c" "it_id it \<noteq> []" by simp_all
  from cache_put_queue [OF assms(1) this, of marshal now1 now2] assms(2) show ?thesis
    by (metis option.inject)
next
  case False
  then have "cache_put marshal it now1 now2 c = Some c" by (auto simp: cache_put_def)
  with assms show ?thesis by simp
qed

text \<open>The last of several puts is there afterwards.\<close>

lemma cache_put_all_last:
  assumes "ec_ok c" and "cache_put_all marshal (xs @ [(it, now1, now2)]) c = Some d"
    and "0 < ec_max c" and "it_id it \<noteq> []" and "serialized_item_size marshal it \<le> ec_max_bytes c"
    and "now3 \<le> now2 + ec_ttl c"
  shows "fst (cache_get (it_id it) now3 d) = Some (it\<lparr>it_freshness := FreshnessCached\<rparr>)"
  using assms
proof (induction xs arbitrary: c)
  case Nil
  with cache_put_then_get [OF Nil(1,3,4,5,6), of now1] show ?case by (auto split: option.splits)
next
  case (Cons x xs)
  obtain jt n1 n2 where x: "x = (jt, n1, n2)" by (cases x) auto
  with Cons.prems(2) obtain c1 where c1: "cache_put marshal jt n1 n2 c = Some c1"
    "cache_put_all marshal (xs @ [(it, now1, now2)]) c1 = Some d" by (auto split: option.splits)
  from cache_put_limits [OF Cons.prems(1) c1(1)] Cons.IH [OF _ c1(2)] Cons.prems(3-6) show ?case by simp
qed

section \<open>Witnesses\<close>

lemmas cache_eval = cache_put_def cache_get_def new_cache_def expire_locked_def expire_step_def
  remove_locked_def store_entry_def over_limits_def evict_oldest_def gm_len_def
  serialized_item_size_def Let_def max_cache_items_def max_cache_bytes_def
  default_cache_max_bytes_def duration_defs

lemma cache_put_refines_witness:
  "\<exists>d. cache_put (\<lambda>_. Some ''{}'') (sample_item ''ev_1'' 5) 10 10 (new_cache 0 8 0) = Some d
     \<and> ec_queue d = [(''ev_1'', \<lparr>ce_item = sample_item ''ev_1'' 5, ce_expires = 10 + 5 * minute, ce_size = 2\<rparr>)]"
proof -
  have ok: "ec_ok (new_cache 0 8 0)" by (rule new_cache_ok)
  have f: "ec_max (new_cache 0 8 0) = 8" "ec_max_bytes (new_cache 0 8 0) = default_cache_max_bytes"
      "ec_ttl (new_cache 0 8 0) = 5 * minute" "ec_queue (new_cache 0 8 0) = []"
    by (simp_all add: cache_eval)
  have n: "0 < ec_max (new_cache 0 8 0)" "it_id (sample_item ''ev_1'' 5) = ''ev_1''"
    by (simp_all add: f sample_item_def)
  obtain d where "cache_put (\<lambda>_. Some ''{}'') (sample_item ''ev_1'' 5) 10 10 (new_cache 0 8 0) = Some d"
    and "ec_queue d = q_put 8 default_cache_max_bytes 10 ''ev_1''
      \<lparr>ce_item = sample_item ''ev_1'' 5, ce_expires = 10 + 5 * minute, ce_size = 2\<rparr> []"
    using cache_put_refines [OF ok n(1), of "sample_item ''ev_1'' 5" "\<lambda>_. Some ''{}''" 10 10]
    by (auto simp: f n serialized_item_size_def simp del: ec_queue_eq_Nil)
  then show ?thesis
    by (auto simp: q_put_def q_remove_def q_expire_def q_over_def default_cache_max_bytes_def)
qed

end
