(* ===== verification/ToolBudget.thy ===== *)
theory ToolBudget
  imports Prelude
begin

text \<open>
  The tool budget (\<open>toolBudget\<close> in \<open>internal/mcpserver/app.go\<close>). \<open>acquire\<close> is two atomic actions: the
  non-blocking send on the semaphore channel, and the section under the mutex, between which other
  calls run; \<open>release\<close> is one. \<open>budget_step\<close> is their interleaving over any number of callers with
  a clock that does not go back. Lemmas: the semaphore counts exactly the calls in progress, so no
  release is lost and the concurrency limit holds, and in any minute at most twice the configured
  number of calls is admitted.
\<close>

section \<open>The budget\<close>

record tool_budget =
  tb_per_min :: int
  tb_window :: time
  tb_count :: int
  tb_cap :: int
  tb_sem :: int

definition new_tool_budget :: "int \<Rightarrow> int \<Rightarrow> time \<Rightarrow> tool_budget" where
  "new_tool_budget per_min concurrent now =
     \<lparr>tb_per_min = (if per_min \<le> 0 then 120 else per_min), tb_window = now, tb_count = 0,
      tb_cap = (if concurrent \<le> 0 then 8 else concurrent), tb_sem = 0\<rparr>"

text \<open>The send on the channel; \<open>None\<close> is the error for too many concurrent calls.\<close>

definition try_enter :: "tool_budget \<Rightarrow> tool_budget option" where
  "try_enter b = (if tb_sem b < tb_cap b then Some (b\<lparr>tb_sem := tb_sem b + 1\<rparr>) else None)"

text \<open>The locked section: \<open>True\<close> admits the call, \<open>False\<close> is the rate-limit error, which gives the
  place in the channel back.\<close>

definition admit :: "time \<Rightarrow> tool_budget \<Rightarrow> bool \<times> tool_budget" where
  "admit now b =
     (let b = (if time_sub now (tb_window b) \<ge> minute then b\<lparr>tb_window := now, tb_count := 0\<rparr> else b)
      in if tb_count b \<ge> tb_per_min b then (False, b\<lparr>tb_sem := tb_sem b - 1\<rparr>)
         else (True, b\<lparr>tb_count := tb_count b + 1\<rparr>))"

text \<open>The receive of \<open>release\<close>, which does nothing on an empty channel.\<close>

definition release_budget :: "tool_budget \<Rightarrow> tool_budget" where
  "release_budget b = (if tb_sem b > 0 then b\<lparr>tb_sem := tb_sem b - 1\<rparr> else b)"

section \<open>Interleavings\<close>

datatype phase = Idle | Entered | Running

text \<open>
  A caller is idle, between the two actions of \<open>acquire\<close>, or running its tool. \<open>bs_log\<close> records
  each admission with the start of its window, latest first.
\<close>

record budget_sys =
  bs_budget :: tool_budget
  bs_phase :: "nat \<Rightarrow> phase"
  bs_now :: time
  bs_log :: "(time \<times> time) list"

inductive budget_step :: "budget_sys \<Rightarrow> budget_sys \<Rightarrow> bool" where
  enter: "bs_phase s p = Idle \<Longrightarrow> try_enter (bs_budget s) = Some b \<Longrightarrow>
    budget_step s (s\<lparr>bs_budget := b, bs_phase := (bs_phase s)(p := Entered)\<rparr>)"
| full: "bs_phase s p = Idle \<Longrightarrow> try_enter (bs_budget s) = None \<Longrightarrow> budget_step s s"
| admitted: "bs_phase s p = Entered \<Longrightarrow> admit (bs_now s) (bs_budget s) = (True, b) \<Longrightarrow>
    budget_step s (s\<lparr>bs_budget := b, bs_phase := (bs_phase s)(p := Running),
      bs_log := (bs_now s, tb_window b) # bs_log s\<rparr>)"
| limited: "bs_phase s p = Entered \<Longrightarrow> admit (bs_now s) (bs_budget s) = (False, b) \<Longrightarrow>
    budget_step s (s\<lparr>bs_budget := b, bs_phase := (bs_phase s)(p := Idle)\<rparr>)"
| release: "bs_phase s p = Running \<Longrightarrow>
    budget_step s (s\<lparr>bs_budget := release_budget (bs_budget s), bs_phase := (bs_phase s)(p := Idle)\<rparr>)"
| tick: "bs_now s \<le> t \<Longrightarrow> budget_step s (s\<lparr>bs_now := t\<rparr>)"

inductive_cases budget_stepE: "budget_step s s'"

inductive budget_reach :: "int \<Rightarrow> int \<Rightarrow> time \<Rightarrow> budget_sys \<Rightarrow> bool" for per_min concurrent t0 where
  start: "budget_reach per_min concurrent t0
    \<lparr>bs_budget = new_tool_budget per_min concurrent t0, bs_phase = (\<lambda>_. Idle), bs_now = t0, bs_log = []\<rparr>"
| step: "budget_reach per_min concurrent t0 s \<Longrightarrow> budget_step s s' \<Longrightarrow>
    budget_reach per_min concurrent t0 s'"

section \<open>Invariants\<close>

definition active :: "budget_sys \<Rightarrow> nat set" where
  "active s = {p. bs_phase s p \<noteq> Idle}"

definition sem_inv :: "budget_sys \<Rightarrow> bool" where
  "sem_inv s \<longleftrightarrow> finite (active s) \<and> tb_sem (bs_budget s) = int (card (active s))
     \<and> tb_sem (bs_budget s) \<le> tb_cap (bs_budget s)"

lemma active_update:
  "active (s\<lparr>bs_budget := b, bs_phase := (bs_phase s)(p := ph)\<rparr>)
     = (if ph = Idle then active s - {p} else insert p (active s))"
  "active (s\<lparr>bs_budget := b, bs_phase := (bs_phase s)(p := ph), bs_log := l\<rparr>)
     = (if ph = Idle then active s - {p} else insert p (active s))"
  "active (s\<lparr>bs_now := t\<rparr>) = active s"
  by (auto simp: active_def)

lemma admit_frame:
  "admit now b = (ok, b') \<Longrightarrow> tb_sem b' = (if ok then tb_sem b else tb_sem b - 1)
     \<and> tb_cap b' = tb_cap b \<and> tb_per_min b' = tb_per_min b"
  by (auto simp: admit_def Let_def split: if_splits)

lemma card_remove_int: "finite A \<Longrightarrow> p \<in> A \<Longrightarrow> int (card (A - {p})) = int (card A) - 1 \<and> 0 < card A"
  using card_Suc_Diff1 [of A p] by linarith

lemma sem_inv_step:
  assumes "budget_step s s'" and "sem_inv s"
  shows "sem_inv s' \<and> tb_cap (bs_budget s') = tb_cap (bs_budget s)
    \<and> tb_per_min (bs_budget s') = tb_per_min (bs_budget s)"
  using assms
proof (cases rule: budget_step.cases)
  case (enter p b)
  then have "p \<notin> active s" by (simp add: active_def)
  with enter assms(2) show ?thesis
    by (auto simp: sem_inv_def active_update try_enter_def split: if_splits)
next
  case (admitted p b)
  then have "p \<in> active s" by (simp add: active_def)
  with admitted(1) assms(2) admit_frame [OF admitted(3)] show ?thesis
    by (simp add: sem_inv_def active_update insert_absorb)
next
  case (limited p b)
  then have p: "p \<in> active s" by (simp add: active_def)
  from assms(2) have "finite (active s)" by (simp add: sem_inv_def)
  from card_remove_int [OF this p] limited(1) assms(2) admit_frame [OF limited(3)] show ?thesis
    by (simp add: sem_inv_def active_update)
next
  case (release p)
  then have p: "p \<in> active s" by (simp add: active_def)
  from assms(2) have "finite (active s)" by (simp add: sem_inv_def)
  from card_remove_int [OF this p] release(1) assms(2) show ?thesis
    by (simp add: sem_inv_def active_update release_budget_def)
qed (simp_all add: active_update sem_inv_def)

text \<open>
  The log: admissions carry the window they were counted in; the latest window is the current one
  and holds \<open>tb_count\<close> admissions; different windows start at least a minute apart.
\<close>

definition window_count :: "(time \<times> time) list \<Rightarrow> time \<Rightarrow> nat" where
  "window_count log w = length (filter (\<lambda>a. snd a = w) log)"

definition log_inv :: "budget_sys \<Rightarrow> bool" where
  "log_inv s \<longleftrightarrow>
     (let b = bs_budget s in
      0 < tb_per_min b \<and> 0 \<le> tb_count b \<and> tb_count b \<le> tb_per_min b \<and> tb_window b \<le> bs_now s
      \<and> int (window_count (bs_log s) (tb_window b)) = tb_count b
      \<and> (\<forall>(t, w) \<in> set (bs_log s). w \<le> t \<and> t < w + minute \<and> w \<le> tb_window b
           \<and> (w \<noteq> tb_window b \<longrightarrow> w + minute \<le> tb_window b)
           \<and> int (window_count (bs_log s) w) \<le> tb_per_min b)
      \<and> (\<forall>w \<in> snd ` set (bs_log s). \<forall>w' \<in> snd ` set (bs_log s). w < w' \<longrightarrow> w + minute \<le> w'))"

lemma time_sub_minute: "time_sub now w \<ge> minute \<longleftrightarrow> now - w \<ge> minute"
  by (simp add: time_sub_def sat64_def minute_def second_def min_int64_def max_int64_def)

lemma admit_True:
  assumes "admit now b = (True, b')" and "0 < tb_per_min b"
  shows "(minute \<le> now - tb_window b \<and> tb_window b' = now \<and> tb_count b' = 1)
    \<or> (now - tb_window b < minute \<and> tb_window b' = tb_window b \<and> tb_count b < tb_per_min b
        \<and> tb_count b' = tb_count b + 1)"
  using assms by (auto simp: admit_def Let_def time_sub_minute split: if_splits)

lemma admit_False:
  "admit now b = (False, b') \<Longrightarrow> 0 < tb_per_min b \<Longrightarrow> b' = b\<lparr>tb_sem := tb_sem b - 1\<rparr>"
  by (auto simp: admit_def Let_def split: if_splits)

lemma window_count_Cons [simp]:
  "window_count ((t, w) # log) v = (if v = w then Suc (window_count log v) else window_count log v)"
  by (simp add: window_count_def)

lemma window_count_0: "w \<notin> snd ` set log \<Longrightarrow> window_count log w = 0"
  by (auto simp: window_count_def filter_empty_conv)

lemma window_count_filter: "window_count (filter P log) w \<le> window_count log w"
  by (induction log) (auto simp: window_count_def)

lemma minute_pos: "0 < minute"
  by (simp add: duration_defs)

lemma log_inv_admitted:
  assumes inv: "log_inv s" and adm: "admit (bs_now s) (bs_budget s) = (True, b)"
  shows "log_inv (s\<lparr>bs_budget := b, bs_phase := ph, bs_log := (bs_now s, tb_window b) # bs_log s\<rparr>)"
proof -
  let ?b = "bs_budget s" and ?log = "bs_log s" and ?now = "bs_now s"
  have i: "0 < tb_per_min ?b" "0 \<le> tb_count ?b" "tb_window ?b \<le> ?now"
    "int (window_count ?log (tb_window ?b)) = tb_count ?b"
    and all: "\<And>t w. (t, w) \<in> set ?log \<Longrightarrow> w \<le> t \<and> t < w + minute \<and> w \<le> tb_window ?b
           \<and> (w \<noteq> tb_window ?b \<longrightarrow> w + minute \<le> tb_window ?b)
           \<and> int (window_count ?log w) \<le> tb_per_min ?b"
    and apart: "\<And>w w'. w \<in> snd ` set ?log \<Longrightarrow> w' \<in> snd ` set ?log \<Longrightarrow> w < w' \<Longrightarrow> w + minute \<le> w'"
    using inv by (auto simp: log_inv_def Let_def)
  have frame: "tb_per_min b = tb_per_min ?b" using admit_frame [OF adm] by simp
  from admit_True [OF adm i(1)] show ?thesis
  proof
    assume new: "minute \<le> ?now - tb_window ?b \<and> tb_window b = ?now \<and> tb_count b = 1"
    have older: "w + minute \<le> ?now \<and> w \<noteq> ?now" if "w \<in> snd ` set ?log" for w
      using that all new minute_pos by fastforce
    then have none: "window_count ?log ?now = 0" by (intro window_count_0) blast
    show ?thesis
      unfolding log_inv_def Let_def
      using i(1) new frame none older all apart minute_pos
      by (fastforce simp: image_iff)
  next
    assume same: "?now - tb_window ?b < minute \<and> tb_window b = tb_window ?b
      \<and> tb_count ?b < tb_per_min ?b \<and> tb_count b = tb_count ?b + 1"
    show ?thesis
      unfolding log_inv_def Let_def
      using i same frame all apart by (fastforce simp: image_iff)
  qed
qed

lemma log_inv_step:
  assumes "budget_step s s'" and "log_inv s"
  shows "log_inv s'"
  using assms
proof (cases rule: budget_step.cases)
  case (enter p b)
  with assms(2) show ?thesis by (auto simp: log_inv_def Let_def try_enter_def split: if_splits)
next
  case (admitted p b)
  with log_inv_admitted [OF assms(2) admitted(3)] show ?thesis by simp
next
  case (limited p b)
  have "b = bs_budget s\<lparr>tb_sem := tb_sem (bs_budget s) - 1\<rparr>"
    using admit_False [OF limited(3)] assms(2) by (simp add: log_inv_def Let_def)
  with limited(1) assms(2) show ?thesis by (simp add: log_inv_def Let_def)
next
  case (release p)
  with assms(2) show ?thesis by (simp add: log_inv_def Let_def release_budget_def)
next
  case (tick t)
  with assms(2) show ?thesis by (auto simp: log_inv_def Let_def)
qed simp

lemma budget_reach_inv:
  assumes "budget_reach per_min concurrent t0 s"
  shows "sem_inv s \<and> log_inv s
    \<and> tb_cap (bs_budget s) = (if concurrent \<le> 0 then 8 else concurrent)
    \<and> tb_per_min (bs_budget s) = (if per_min \<le> 0 then 120 else per_min)"
  using assms
proof (induction rule: budget_reach.induct)
  case start
  have "active \<lparr>bs_budget = b, bs_phase = (\<lambda>_. Idle), bs_now = t0, bs_log = l\<rparr> = {}" for b l
    by (simp add: active_def)
  then show ?case
    by (simp add: sem_inv_def log_inv_def Let_def new_tool_budget_def window_count_def)
next
  case (step s s')
  then show ?case using sem_inv_step log_inv_step by metis
qed

text \<open>Admissions of one minute fall into at most two windows.\<close>

lemma two_windows:
  fixes ws :: "time set"
  assumes "finite ws" and apart: "\<And>w w'. w \<in> ws \<Longrightarrow> w' \<in> ws \<Longrightarrow> w < w' \<Longrightarrow> w + minute \<le> w'"
    and near: "\<And>w. w \<in> ws \<Longrightarrow> s - minute < w \<and> w < s + minute"
  shows "card ws \<le> 2"
proof (cases "ws = {}")
  case False
  define a where "a = Min ws"
  have a: "a \<in> ws" "\<And>w. w \<in> ws \<Longrightarrow> a \<le> w" using False assms(1) by (simp_all add: a_def)
  have "w = w'" if "w \<in> ws - {a}" "w' \<in> ws - {a}" for w w'
  proof (rule ccontr)
    assume "w \<noteq> w'"
    then consider "w < w'" | "w' < w" by linarith
    then show False
    proof cases
      case 1
      with apart [of a w] apart [of w w'] a near [of a] near [of w'] that show False by force
    next
      case 2
      with apart [of a w'] apart [of w' w] a near [of a] near [of w] that show False by force
    qed
  qed
  then have "card (ws - {a}) \<le> Suc 0"
    using card_le_Suc0_iff_eq [of "ws - {a}"] assms(1) by blast
  with assms(1) a(1) show ?thesis by (simp add: card_Diff_singleton)
qed simp

lemma filter_length_le_windows:
  assumes "finite ws" and "snd ` set xs \<subseteq> ws" and "\<And>w. w \<in> ws \<Longrightarrow> window_count xs w \<le> n"
  shows "length xs \<le> card ws * n"
proof -
  have "length xs = (\<Sum>w \<in> ws. window_count xs w)"
    using assms(1,2)
  proof (induction xs)
    case (Cons x xs)
    obtain t w where x: "x = (t, w)" by fastforce
    have "(\<Sum>v \<in> ws. window_count (x # xs) v) = (\<Sum>v \<in> ws. (if v = w then 1 else 0) + window_count xs v)"
      by (intro sum.cong) (simp_all add: x)
    with Cons show ?case by (simp add: sum.distrib x)
  qed (simp add: window_count_def)
  also have "\<dots> \<le> (\<Sum>w \<in> ws. n)" by (intro sum_mono) (rule assms(3))
  finally show ?thesis by simp
qed

section \<open>Properties\<close>

text \<open>
  Property C28: with any interleaving of callers, the semaphore counts exactly the calls that are in
  progress, and their number never exceeds the configured limit.
\<close>
theorem concurrency_is_bounded:
  assumes "budget_reach per_min concurrent t0 s"
  shows "finite {p. bs_phase s p = Running}
    \<and> int (card {p. bs_phase s p = Running}) \<le> (if concurrent \<le> 0 then 8 else concurrent)
    \<and> tb_sem (bs_budget s) = int (card {p. bs_phase s p \<noteq> Idle})"
proof -
  have inv: "sem_inv s" and cap: "tb_cap (bs_budget s) = (if concurrent \<le> 0 then 8 else concurrent)"
    using budget_reach_inv [OF assms] by blast+
  have sub: "{p. bs_phase s p = Running} \<subseteq> active s" by (auto simp: active_def)
  moreover have "card {p. bs_phase s p = Running} \<le> card (active s)"
    using sub inv by (intro card_mono) (simp_all add: sem_inv_def)
  moreover have "finite {p. bs_phase s p = Running}"
    using sub inv finite_subset by (auto simp: sem_inv_def)
  ultimately show ?thesis using inv cap by (simp add: sem_inv_def active_def)
qed

text \<open>
  Property C29: the calls admitted in any interval of one minute are at most twice the configured
  number per minute, whatever the interleaving and however the windows fall.
\<close>
theorem rate_is_bounded:
  assumes "budget_reach per_min concurrent t0 s"
  shows "int (length (filter (\<lambda>(t, w). a \<le> t \<and> t < a + minute) (bs_log s)))
    \<le> 2 * (if per_min \<le> 0 then 120 else per_min)"
proof -
  let ?xs = "filter (\<lambda>(t, w). a \<le> t \<and> t < a + minute) (bs_log s)"
  let ?n = "if per_min \<le> 0 then 120 else per_min"
  let ?ws = "snd ` set ?xs"
  have inv: "log_inv s" and n: "tb_per_min (bs_budget s) = ?n"
    using budget_reach_inv [OF assms] by blast+
  have "card ?ws \<le> 2"
  proof (rule two_windows [of _ a])
    show "w + minute \<le> w'" if "w \<in> ?ws" "w' \<in> ?ws" "w < w'" for w w'
      using inv that by (auto simp: log_inv_def Let_def)
    show "a - minute < w \<and> w < a + minute" if "w \<in> ?ws" for w
      using inv that by (force simp: log_inv_def Let_def)
  qed simp
  moreover have "length ?xs \<le> card ?ws * nat ?n"
  proof (rule filter_length_le_windows)
    show "window_count ?xs w \<le> nat ?n" if "w \<in> ?ws" for w
    proof -
      have "int (window_count (bs_log s) w) \<le> ?n"
        using inv n that by (force simp: log_inv_def Let_def)
      moreover have "window_count ?xs w \<le> window_count (bs_log s) w"
        by (rule window_count_filter)
      ultimately show ?thesis by linarith
    qed
  qed simp_all
  ultimately have "length ?xs \<le> 2 * nat ?n" by (meson mult_le_mono1 order_trans)
  then show ?thesis by (simp split: if_splits)
qed

text \<open>A run with one admitted call.\<close>

lemma budget_example: "budget_reach 1 1 0
    \<lparr>bs_budget = \<lparr>tb_per_min = 1, tb_window = 0, tb_count = 1, tb_cap = 1, tb_sem = 1\<rparr>,
     bs_phase = (\<lambda>_. Idle)(0 := Running), bs_now = 0, bs_log = [(0, 0)]\<rparr>"
proof -
  let ?s0 = "\<lparr>bs_budget = new_tool_budget 1 1 0, bs_phase = (\<lambda>_. Idle), bs_now = 0, bs_log = []\<rparr>"
  let ?b = "\<lparr>tb_per_min = 1, tb_window = 0, tb_count = 0, tb_cap = 1, tb_sem = 1\<rparr>"
  have "try_enter (new_tool_budget 1 1 0) = Some ?b"
    by (simp add: try_enter_def new_tool_budget_def)
  then have "budget_step ?s0 (?s0\<lparr>bs_budget := ?b, bs_phase := (bs_phase ?s0)(0 := Entered)\<rparr>)"
    by (intro budget_step.enter) simp_all
  with budget_reach.start have r1: "budget_reach 1 1 0
      \<lparr>bs_budget = ?b, bs_phase = (\<lambda>_. Idle)(0 := Entered), bs_now = 0, bs_log = []\<rparr>"
    using budget_reach.step by fastforce
  have "admit 0 ?b = (True, ?b\<lparr>tb_count := 1\<rparr>)"
    by (simp add: admit_def time_sub_def sat64_def duration_defs min_int64_def max_int64_def)
  then have "budget_step \<lparr>bs_budget = ?b, bs_phase = (\<lambda>_. Idle)(0 := Entered), bs_now = 0, bs_log = []\<rparr>
      \<lparr>bs_budget = ?b\<lparr>tb_count := 1\<rparr>, bs_phase = (\<lambda>_. Idle)(0 := Running), bs_now = 0, bs_log = [(0, 0)]\<rparr>"
    using budget_step.admitted [of "\<lparr>bs_budget = ?b, bs_phase = (\<lambda>_. Idle)(0 := Entered), bs_now = 0, bs_log = []\<rparr>"
        0 "?b\<lparr>tb_count := 1\<rparr>"] by simp
  from budget_reach.step [OF r1 this] show ?thesis by simp
qed

lemma concurrency_is_bounded_witness:
  "\<exists>s. budget_reach 1 1 0 s \<and> bs_phase s 0 = Running \<and> int (card {p. bs_phase s p = Running}) \<le> 1
     \<and> tb_sem (bs_budget s) = int (card {p. bs_phase s p \<noteq> Idle})"
  using budget_example concurrency_is_bounded [OF budget_example]
  by (intro exI [of _ "\<lparr>bs_budget = \<lparr>tb_per_min = 1, tb_window = 0, tb_count = 1, tb_cap = 1, tb_sem = 1\<rparr>,
     bs_phase = (\<lambda>_. Idle)(0 := Running), bs_now = 0, bs_log = [(0, 0)]\<rparr>"]) simp

lemma rate_is_bounded_witness:
  "\<exists>s. budget_reach 1 1 0 s \<and> bs_log s = [(0, 0)]
     \<and> int (length (filter (\<lambda>(t, w). 0 \<le> t \<and> t < 0 + minute) (bs_log s))) \<le> 2 * 1"
  using budget_example rate_is_bounded [OF budget_example, of 0]
  by (intro exI [of _ "\<lparr>bs_budget = \<lparr>tb_per_min = 1, tb_window = 0, tb_count = 1, tb_cap = 1, tb_sem = 1\<rparr>,
     bs_phase = (\<lambda>_. Idle)(0 := Running), bs_now = 0, bs_log = [(0, 0)]\<rparr>"]) simp

end
