(* ===== verification/AuditLog.thy ===== *)
theory AuditLog
  imports GoText
begin

text \<open>
  The audit log (\<open>internal/audit\<close>): the size-limited file with numbered rotation (\<open>rotating.go\<close>) over
  a file system whose operations may fail, and the logger on top of it (\<open>audit.go\<close>). Lemmas: what an
  open admits, the frame of each file operation, and what a fault-free rotation leaves on the disk.
  The mutex makes each write one step, so writes are applied one after the other.
\<close>

section \<open>The file system\<close>

text \<open>
  A directory entry names an inode or is a symbolic link. \<open>fs_outcomes\<close> are the outcomes of the
  operations to come, after which all work: an operation works, fails without effect, writes only
  some bytes, or works after another process replaced the directory.
\<close>

datatype entry = Regular nat | Special nat | Symlink string

datatype outcome = Works | Fails | Short nat | Swapped "string \<Rightarrow> entry option"

record fs =
  fs_entries :: "string \<Rightarrow> entry option"
  fs_bytes :: "nat \<Rightarrow> string"
  fs_mode :: "nat \<Rightarrow> nat"
  fs_next :: nat
  fs_outcomes :: "outcome list"

text \<open>Start an operation: whether it fails, its limit on bytes, and the file system it acts on.\<close>

definition next_op :: "fs \<Rightarrow> bool \<times> nat option \<times> fs" where
  "next_op w = (case fs_outcomes w of
       [] \<Rightarrow> (False, None, w)
     | Works # os \<Rightarrow> (False, None, w\<lparr>fs_outcomes := os\<rparr>)
     | Fails # os \<Rightarrow> (True, None, w\<lparr>fs_outcomes := os\<rparr>)
     | Short k # os \<Rightarrow> (False, Some k, w\<lparr>fs_outcomes := os\<rparr>)
     | Swapped m # os \<Rightarrow> (False, None, w\<lparr>fs_outcomes := os, fs_entries := m\<rparr>))"

text \<open>An operation whose only effect here is that it can fail.\<close>

definition op_check :: "fs \<Rightarrow> bool \<times> fs" where
  "op_check w = (case next_op w of (failed, _, w) \<Rightarrow> (\<not> failed, w))"

fun resolve_link :: "nat \<Rightarrow> (string \<Rightarrow> entry option) \<Rightarrow> string \<Rightarrow> string option" where
  "resolve_link 0 names p = None"
| "resolve_link (Suc n) names p = (case names p of Some (Symlink q) \<Rightarrow> resolve_link n names q | _ \<Rightarrow> Some p)"

text \<open>\<open>os.OpenFile\<close> with \<open>O_CREATE|O_WRONLY\<close> and mode 0600: it follows symbolic links.\<close>

definition os_open :: "string \<Rightarrow> fs \<Rightarrow> nat option \<times> fs" where
  "os_open p w = (case next_op w of (failed, _, w) \<Rightarrow>
     if failed then (None, w)
     else (case resolve_link 40 (fs_entries w) p of
         None \<Rightarrow> (None, w)
       | Some q \<Rightarrow> (case fs_entries w q of
             Some (Regular n) \<Rightarrow> (Some n, w)
           | Some (Special n) \<Rightarrow> (Some n, w)
           | Some (Symlink _) \<Rightarrow> (None, w)
           | None \<Rightarrow> (Some (fs_next w),
               w\<lparr>fs_entries := (fs_entries w)(q \<mapsto> Regular (fs_next w)), fs_bytes := (fs_bytes w)(fs_next w := []),
                 fs_mode := (fs_mode w)(fs_next w := 384), fs_next := fs_next w + 1\<rparr>))))"

text \<open>\<open>os.Lstat\<close>: the entry itself, links not followed.\<close>

definition os_lstat :: "string \<Rightarrow> fs \<Rightarrow> entry option \<times> fs" where
  "os_lstat p w = (case next_op w of (failed, _, w) \<Rightarrow> (if failed then None else fs_entries w p, w))"

datatype os_error = NotExist | OtherError

definition os_remove :: "string \<Rightarrow> fs \<Rightarrow> os_error option \<times> fs" where
  "os_remove p w = (case next_op w of (failed, _, w) \<Rightarrow>
     if failed then (Some OtherError, w)
     else if fs_entries w p = None then (Some NotExist, w)
     else (None, w\<lparr>fs_entries := (fs_entries w)(p := None)\<rparr>))"

definition os_rename :: "string \<Rightarrow> string \<Rightarrow> fs \<Rightarrow> os_error option \<times> fs" where
  "os_rename p q w = (case next_op w of (failed, _, w) \<Rightarrow>
     if failed then (Some OtherError, w)
     else (case fs_entries w p of
         None \<Rightarrow> (Some NotExist, w)
       | Some e \<Rightarrow> (None, w\<lparr>fs_entries := (fs_entries w)(p := None, q \<mapsto> e)\<rparr>)))"

definition f_chmod :: "nat \<Rightarrow> nat \<Rightarrow> fs \<Rightarrow> bool \<times> fs" where
  "f_chmod h m w = (case op_check w of (ok, w) \<Rightarrow> (ok, if ok then w\<lparr>fs_mode := (fs_mode w)(h := m)\<rparr> else w))"

definition f_truncate :: "nat \<Rightarrow> fs \<Rightarrow> bool \<times> fs" where
  "f_truncate h w = (case op_check w of (ok, w) \<Rightarrow> (ok, if ok then w\<lparr>fs_bytes := (fs_bytes w)(h := [])\<rparr> else w))"

text \<open>A write to a handle appends: it was opened with \<open>O_APPEND\<close>, or truncated and only written to
  by this process.\<close>

definition f_write :: "nat \<Rightarrow> string \<Rightarrow> fs \<Rightarrow> nat \<times> bool \<times> fs" where
  "f_write h p w = (case next_op w of (failed, k, w) \<Rightarrow>
     let n = (if failed then 0 else case k of None \<Rightarrow> length p | Some k \<Rightarrow> min k (length p))
     in (n, n = length p \<and> \<not> failed, w\<lparr>fs_bytes := (fs_bytes w)(h := fs_bytes w h @ take n p)\<rparr>))"

section \<open>The rotating file\<close>

datatype audit_error = PathRequired | OsError | StorageUnavailable | ClosedPipe | TooLarge | WriteFailed

record rotating_file =
  rf_path :: string
  rf_max_bytes :: int
  rf_max_files :: int
  rf_size :: int
  rf_f :: "nat option"
  rf_closed :: bool

text \<open>\<open>openRegularAuditFile\<close>: open, then check that the path still names that very regular file.\<close>

definition open_regular_audit_file :: "string \<Rightarrow> bool \<Rightarrow> fs \<Rightarrow> nat option \<times> fs" where
  "open_regular_audit_file path appending w = (case os_open path w of
       (None, w) \<Rightarrow> (None, w)
     | (Some h, w) \<Rightarrow> (case os_lstat path w of (info, w) \<Rightarrow>
         (case info of
             None \<Rightarrow> (None, snd (op_check w))
           | Some (Symlink _) \<Rightarrow> (None, snd (op_check w))
           | Some (Special _) \<Rightarrow> (None, snd (op_check w))
           | Some (Regular n) \<Rightarrow> (case op_check w of (ok, w) \<Rightarrow>
               if \<not> ok \<or> n \<noteq> h then (None, snd (op_check w))
               else (case f_chmod h 384 w of (ok, w) \<Rightarrow>
                 if \<not> ok then (None, snd (op_check w))
                 else if appending then (Some h, w)
                 else (case f_truncate h w of (ok, w) \<Rightarrow>
                   if ok then (Some h, w) else (None, snd (op_check w))))))))"

definition file_size :: "nat \<Rightarrow> fs \<Rightarrow> int option \<times> fs" where
  "file_size h w = (case op_check w of (ok, w) \<Rightarrow> (if ok then Some (int (length (fs_bytes w h))) else None, w))"

definition reopen_locked :: "rotating_file \<Rightarrow> fs \<Rightarrow> audit_error option \<times> rotating_file \<times> fs" where
  "reopen_locked r w = (case open_regular_audit_file (rf_path r) True w of
       (None, w) \<Rightarrow> (Some StorageUnavailable, r, w)
     | (Some h, w) \<Rightarrow> (case file_size h w of
           (None, w) \<Rightarrow> (Some StorageUnavailable, r, snd (op_check w))
         | (Some n, w) \<Rightarrow> (None, r\<lparr>rf_f := Some h, rf_size := n\<rparr>, w)))"

text \<open>The numbered names, and the loop of \<open>rotateLocked\<close> from \<open>i\<close> down to 1.\<close>

definition backup_name :: "string \<Rightarrow> nat \<Rightarrow> string" where
  "backup_name path i = path @ ''.'' @ show_int (int i)"

fun shift_backups :: "string \<Rightarrow> nat \<Rightarrow> fs \<Rightarrow> bool \<times> fs" where
  "shift_backups path 0 w = (True, w)"
| "shift_backups path (Suc i) w =
     (let source = (if i \<ge> 1 then backup_name path i else path); target = backup_name path (Suc i)
      in case os_remove target w of (err, w) \<Rightarrow>
        if err \<noteq> None \<and> err \<noteq> Some NotExist then (False, w)
        else (case os_rename source target w of (err, w) \<Rightarrow>
          if err \<noteq> None \<and> err \<noteq> Some NotExist then (False, w)
          else shift_backups path i w))"

definition rotate_locked :: "rotating_file \<Rightarrow> fs \<Rightarrow> audit_error option \<times> rotating_file \<times> fs" where
  "rotate_locked r w =
     (let (ok, r, w) = (if rf_f r \<noteq> None
        then (case op_check w of (ok, w) \<Rightarrow> (ok, r\<lparr>rf_f := None\<rparr>, w))
        else (True, r, w))
      in if \<not> ok then (Some StorageUnavailable, r, w)
      else case shift_backups (rf_path r) (nat (rf_max_files r - 1)) w of (ok, w) \<Rightarrow>
        if \<not> ok then (Some StorageUnavailable, r, w)
        else (case open_regular_audit_file (rf_path r) False w of
            (None, w) \<Rightarrow> (Some StorageUnavailable, r, w)
          | (Some h, w) \<Rightarrow> (None, r\<lparr>rf_f := Some h, rf_size := 0\<rparr>, w)))"

text \<open>\<open>Write\<close> returns the number of bytes written and an error.\<close>

definition rf_write :: "string \<Rightarrow> rotating_file \<Rightarrow> fs \<Rightarrow> (nat \<times> audit_error option) \<times> rotating_file \<times> fs" where
  "rf_write p r w =
     (if rf_closed r then ((0, Some ClosedPipe), r, w)
      else if int (length p) > rf_max_bytes r then ((0, Some TooLarge), r, w)
      else case (if rf_f r = None then reopen_locked r w else (None, r, w)) of
          (Some e, r, w) \<Rightarrow> ((0, Some e), r, w)
        | (None, r, w) \<Rightarrow> (case (if rf_size r + int (length p) > rf_max_bytes r then rotate_locked r w else (None, r, w)) of
              (Some e, r, w) \<Rightarrow> ((0, Some e), r, w)
            | (None, r, w) \<Rightarrow> (case f_write (the (rf_f r)) p w of (n, ok, w) \<Rightarrow>
                ((n, if ok then None else Some WriteFailed), r\<lparr>rf_size := rf_size r + int n\<rparr>, w))))"

definition rf_close :: "rotating_file \<Rightarrow> fs \<Rightarrow> audit_error option \<times> rotating_file \<times> fs" where
  "rf_close r w =
     (let r = r\<lparr>rf_closed := True\<rparr>
      in if rf_f r = None then (None, r, w)
         else case op_check w of (ok, w) \<Rightarrow> (if ok then None else Some OsError, r\<lparr>rf_f := None\<rparr>, w))"

text \<open>\<open>OpenRotating\<close>; \<open>dir_of\<close> is \<open>filepath.Dir\<close>. Directories are not part of the model, so
  \<open>os.MkdirAll\<close> only works or fails.\<close>

definition open_rotating ::
  "(string \<Rightarrow> string) \<Rightarrow> string \<Rightarrow> int \<Rightarrow> int \<Rightarrow> fs \<Rightarrow> (audit_error + rotating_file) \<times> fs" where
  "open_rotating dir_of path max_bytes max_files w =
     (if path = [] then (Inl PathRequired, w)
      else let max_bytes = (if max_bytes \<le> 0 then 10 * 2 ^ 20 else max_bytes);
               max_files = (if max_files \<le> 0 then 3 else max_files)
      in case op_check w of (ok, w) \<Rightarrow>
        if \<not> ok \<and> dir_of path \<noteq> ''.'' then (Inl OsError, w)
        else (case open_regular_audit_file path True w of
            (None, w) \<Rightarrow> (Inl OsError, w)
          | (Some h, w) \<Rightarrow> (case file_size h w of
                (None, w) \<Rightarrow> (Inl OsError, snd (op_check w))
              | (Some n, w) \<Rightarrow> (Inr \<lparr>rf_path = path, rf_max_bytes = max_bytes, rf_max_files = max_files,
                    rf_size = n, rf_f = Some h, rf_closed = False\<rparr>, w))))"

section \<open>The logger\<close>

text \<open>
  The state is the writer's own state, the text of the diagnostic stream and \<open>failureReported\<close>;
  \<open>write\<close> is the writer, \<open>marshal\<close> is \<open>json.Marshal\<close>.
\<close>

record audit_event =
  ae_time :: time
  ae_action :: string
  ae_tool :: string
  ae_service_id :: string
  ae_status :: string
  ae_duration_ms :: int
  ae_detail :: string

record 's logger =
  lg_out :: 's
  lg_diagnostic :: string
  lg_failure_reported :: bool

definition audit_failed :: string where
  "audit_failed = ''audit write failed'' @ [CHR 0x0A]"

definition log_event ::
  "(audit_event \<Rightarrow> string option) \<Rightarrow> (string \<Rightarrow> 's \<Rightarrow> nat \<times> bool \<times> 's) \<Rightarrow> time \<Rightarrow> audit_event \<Rightarrow> 's logger \<Rightarrow> 's logger" where
  "log_event marshal write now e l =
     (let e = (if ae_time e = 0 then e\<lparr>ae_time := now\<rparr> else e)
      in case marshal e of
          None \<Rightarrow> l
        | Some b \<Rightarrow>
            (let line = b @ [CHR 0x0A]; (n, ok, s) = write line (lg_out l); l = l\<lparr>lg_out := s\<rparr>
             in if ok \<and> n = length line then l\<lparr>lg_failure_reported := False\<rparr>
                else if lg_failure_reported l then l
                else l\<lparr>lg_failure_reported := True, lg_diagnostic := lg_diagnostic l @ audit_failed\<rparr>))"

section \<open>Frames of the operations\<close>

definition swap_free :: "outcome list \<Rightarrow> bool" where
  "swap_free os \<longleftrightarrow> (\<forall>x \<in> set os. \<forall>m. x \<noteq> Swapped m)"

lemma next_op_frame:
  assumes "next_op w = (failed, k, w')"
  shows "fs_bytes w' = fs_bytes w \<and> fs_mode w' = fs_mode w \<and> fs_next w' = fs_next w
    \<and> fs_outcomes w' = tl (fs_outcomes w) \<and> (swap_free (fs_outcomes w) \<longrightarrow> fs_entries w' = fs_entries w)"
  using assms by (auto simp: next_op_def swap_free_def split: list.splits outcome.splits)

lemma op_check_frame:
  assumes "op_check w = (ok, w')"
  shows "fs_bytes w' = fs_bytes w \<and> fs_mode w' = fs_mode w \<and> fs_next w' = fs_next w
    \<and> fs_outcomes w' = tl (fs_outcomes w) \<and> (swap_free (fs_outcomes w) \<longrightarrow> fs_entries w' = fs_entries w)"
proof -
  obtain failed k w1 where n: "next_op w = (failed, k, w1)" by (cases "next_op w") auto
  with assms have "w' = w1" by (simp add: op_check_def)
  with next_op_frame [OF n] show ?thesis by simp
qed

lemma op_check_bytes [simp]: "fs_bytes (snd (op_check w)) = fs_bytes w"
  using op_check_frame [of w] by (metis prod.collapse)

lemma swap_free_tl: "swap_free (drop n os) \<Longrightarrow> swap_free (drop (Suc n) os)"
  by (metis drop_Suc in_set_dropD swap_free_def tl_drop drop_drop plus_1_eq_Suc)

lemma os_open_frame:
  assumes "os_open path w = (r, w')"
  shows "fs_outcomes w' = tl (fs_outcomes w) \<and> fs_next w \<le> fs_next w'
    \<and> (\<forall>n. n \<noteq> fs_next w \<longrightarrow> fs_bytes w' n = fs_bytes w n)
    \<and> (\<forall>h. r = Some h \<longrightarrow> fs_bytes w' h = (if h = fs_next w \<and> fs_next w' \<noteq> fs_next w then [] else fs_bytes w h))"
proof -
  obtain failed k w1 where n: "next_op w = (failed, k, w1)" by (cases "next_op w") auto
  have eq: "os_open path w = (if failed then (None, w1)
     else (case resolve_link 40 (fs_entries w1) path of
         None \<Rightarrow> (None, w1)
       | Some q \<Rightarrow> (case fs_entries w1 q of
             Some (Regular n) \<Rightarrow> (Some n, w1)
           | Some (Special n) \<Rightarrow> (Some n, w1)
           | Some (Symlink _) \<Rightarrow> (None, w1)
           | None \<Rightarrow> (Some (fs_next w1),
               w1\<lparr>fs_entries := (fs_entries w1)(q \<mapsto> Regular (fs_next w1)), fs_bytes := (fs_bytes w1)(fs_next w1 := []),
                 fs_mode := (fs_mode w1)(fs_next w1 := 384), fs_next := fs_next w1 + 1\<rparr>))))"
    by (simp add: os_open_def n)
  from assms next_op_frame [OF n] show ?thesis
    unfolding eq by (auto split: if_splits option.splits entry.splits)
qed

lemma open_regular_Some:
  assumes "open_regular_audit_file path appending w = (Some h, w')"
  obtains w1 w2 w3 w4 where "os_open path w = (Some h, w1)" "os_lstat path w1 = (Some (Regular h), w2)"
    "op_check w2 = (True, w3)" "f_chmod h 384 w3 = (True, w4)"
    "if appending then w' = w4 else f_truncate h w4 = (True, w')"
proof -
  obtain o1 w1 where 1: "os_open path w = (o1, w1)" by fastforce
  obtain o2 w2 where 2: "os_lstat path w1 = (o2, w2)" by fastforce
  obtain o3 w3 where 3: "op_check w2 = (o3, w3)" by fastforce
  obtain o4 w4 where 4: "f_chmod h 384 w3 = (o4, w4)" by fastforce
  obtain o5 w5 where 5: "f_truncate h w4 = (o5, w5)" by fastforce
  have o1: "o1 = Some h"
    using assms unfolding open_regular_audit_file_def 1
    by (auto split: option.splits entry.splits if_splits prod.splits)
  have o2: "o2 = Some (Regular h)"
    using assms unfolding open_regular_audit_file_def 1 o1
    by (auto simp: 2 split: option.splits entry.splits if_splits prod.splits)
  from assms have "o3 \<and> o4 \<and> (if appending then w' = w4 else o5 \<and> w' = w5)"
    unfolding open_regular_audit_file_def 1 o1
    by (auto simp: 2 3 4 5 o2 split: if_splits)
  with 1 2 3 4 5 o1 o2 that show ?thesis by (auto split: if_splits)
qed

lemma os_lstat_frame:
  "os_lstat path w = (i, w') \<Longrightarrow> fs_bytes w' = fs_bytes w \<and> fs_mode w' = fs_mode w \<and> fs_next w' = fs_next w
    \<and> fs_outcomes w' = tl (fs_outcomes w) \<and> (i \<noteq> None \<longrightarrow> fs_entries w' path = i)"
  by (cases "next_op w") (auto simp: os_lstat_def split: if_splits dest: next_op_frame)

lemma f_chmod_True:
  assumes "f_chmod h m w = (True, w')"
  shows "fs_mode w' h = m \<and> fs_bytes w' = fs_bytes w \<and> fs_next w' = fs_next w \<and> fs_outcomes w' = tl (fs_outcomes w)
    \<and> (swap_free (fs_outcomes w) \<longrightarrow> fs_entries w' = fs_entries w)"
  using assms by (cases "op_check w") (auto simp: f_chmod_def dest: op_check_frame)

lemma f_truncate_True:
  assumes "f_truncate h w = (True, w')"
  shows "fs_mode w' = fs_mode w \<and> fs_bytes w' = (fs_bytes w)(h := []) \<and> fs_outcomes w' = tl (fs_outcomes w)
    \<and> (swap_free (fs_outcomes w) \<longrightarrow> fs_entries w' = fs_entries w)"
  using assms by (cases "op_check w") (auto simp: f_truncate_def dest: op_check_frame)

text \<open>
  Property C25: an open that succeeds, whatever the operations before it did and even when another
  process replaces the directory before the open or before the check of the path, yields the regular
  file that the path names, not one behind a symbolic link, with mode 0600; opening for rotation
  leaves it empty, opening for append leaves its content, and no other existing file changes.
\<close>
theorem audit_open_is_checked:
  assumes opened: "open_regular_audit_file path appending w = (Some h, w')"
    and stable: "swap_free (drop 2 (fs_outcomes w))"
  shows "fs_entries w' path = Some (Regular h) \<and> fs_mode w' h = 384
    \<and> (\<not> appending \<longrightarrow> fs_bytes w' h = [])
    \<and> (\<forall>n. n \<noteq> fs_next w \<longrightarrow> (appending \<or> n \<noteq> h) \<longrightarrow> fs_bytes w' n = fs_bytes w n)"
proof -
  obtain w1 w2 w3 w4 where s: "os_open path w = (Some h, w1)" "os_lstat path w1 = (Some (Regular h), w2)"
    "op_check w2 = (True, w3)" "f_chmod h 384 w3 = (True, w4)"
    "if appending then w' = w4 else f_truncate h w4 = (True, w')"
    using opened by (rule open_regular_Some)
  note f1 = os_open_frame [OF s(1)] and f2 = os_lstat_frame [OF s(2)] and f3 = op_check_frame [OF s(3)]
    and f4 = f_chmod_True [OF s(4)]
  have o2: "swap_free (fs_outcomes w2)" using stable f1 f2 by (simp add: drop_Suc eval_nat_numeral)
  have o3: "swap_free (fs_outcomes w3)" using swap_free_tl [of 0] o2 f3 by (simp add: drop_Suc)
  have o4: "swap_free (fs_outcomes w4)" using swap_free_tl [of 0] o3 f4 by (simp add: drop_Suc)
  have e4: "fs_entries w4 path = Some (Regular h)" using f2 f3 f4 o2 o3 by simp
  have b4: "fs_bytes w4 = fs_bytes w1" using f2 f3 f4 by simp
  show ?thesis
  proof (cases appending)
    case True
    with s(5) e4 b4 f1 f4 show ?thesis by simp
  next
    case False
    with s(5) have t: "f_truncate h w4 = (True, w')" by simp
    from f_truncate_True [OF t] False e4 b4 f1 f4 o4 show ?thesis by simp
  qed
qed

lemma audit_open_is_checked_witness:
  "fs_entries (snd (open_regular_audit_file ''a'' True \<lparr>fs_entries = (\<lambda>_. None), fs_bytes = (\<lambda>_. []),
      fs_mode = (\<lambda>_. 0), fs_next = 0, fs_outcomes = []\<rparr>)) ''a'' = Some (Regular 0)"
  using audit_open_is_checked [of "''a''" True "\<lparr>fs_entries = (\<lambda>_. None), fs_bytes = (\<lambda>_. []),
      fs_mode = (\<lambda>_. 0), fs_next = 0, fs_outcomes = []\<rparr>" 0 "snd (open_regular_audit_file ''a'' True \<lparr>fs_entries = (\<lambda>_. None), fs_bytes = (\<lambda>_. []),
      fs_mode = (\<lambda>_. 0), fs_next = 0, fs_outcomes = []\<rparr>)"]
  by (simp add: open_regular_audit_file_def os_open_def next_op_def os_lstat_def op_check_def f_chmod_def
      swap_free_def eval_nat_numeral)

section \<open>Size and closing\<close>

text \<open>The states a log can be in: opened, then written to and closed, with any outcomes; \<open>world\<close> lets
  the outcomes to come be any at each step.\<close>

inductive log_reach :: "rotating_file \<Rightarrow> fs \<Rightarrow> bool" where
  opened: "open_rotating dir_of path max_bytes max_files w = (Inr r, w') \<Longrightarrow> log_reach r w'"
| written: "log_reach r w \<Longrightarrow> rf_write p r w = (res, r', w') \<Longrightarrow> log_reach r' w'"
| closed: "log_reach r w \<Longrightarrow> rf_close r w = (res, r', w') \<Longrightarrow> log_reach r' w'"
| world: "log_reach r w \<Longrightarrow> log_reach r (w\<lparr>fs_outcomes := os\<rparr>)"

definition size_inv :: "rotating_file \<Rightarrow> fs \<Rightarrow> bool" where
  "size_inv r w \<longleftrightarrow> (\<forall>h. rf_f r = Some h \<longrightarrow> rf_size r = int (length (fs_bytes w h)))
     \<and> (rf_closed r \<longrightarrow> rf_f r = None)"

lemma file_size_Some:
  "file_size h w = (Some n, w') \<Longrightarrow> n = int (length (fs_bytes w' h))"
  by (cases "op_check w") (auto simp: file_size_def dest: op_check_frame split: if_splits)

lemma reopen_locked_inv:
  assumes "reopen_locked r w = (e, r', w')" and "rf_f r = None"
  shows "(e = None \<longrightarrow> rf_f r' \<noteq> None \<and> size_inv (r'\<lparr>rf_closed := False\<rparr>) w') \<and> (e \<noteq> None \<longrightarrow> r' = r)
    \<and> rf_closed r' = rf_closed r \<and> rf_max_bytes r' = rf_max_bytes r"
  using assms
  by (auto simp: reopen_locked_def size_inv_def dest: file_size_Some split: option.splits prod.splits)

lemma rotate_locked_inv:
  assumes "rotate_locked r w = (e, r', w')"
  shows "(e = None \<longrightarrow> (\<exists>h. rf_f r' = Some h \<and> fs_bytes w' h = [] \<and> rf_size r' = 0)) \<and> (e \<noteq> None \<longrightarrow> rf_f r' = None)
    \<and> rf_closed r' = rf_closed r \<and> rf_max_bytes r' = rf_max_bytes r"
proof -
  have opened: "fs_bytes w1 h = []" if "open_regular_audit_file path False w0 = (Some h, w1)" for path w0 h w1
    using that by (rule open_regular_Some) (auto dest: f_truncate_True)
  show ?thesis
    using assms unfolding rotate_locked_def Let_def
    by (auto dest: opened split: prod.splits if_splits option.splits)
qed

lemma f_write_frame:
  assumes "f_write h p w = (n, ok, w')"
  shows "n \<le> length p \<and> fs_bytes w' = (fs_bytes w)(h := fs_bytes w h @ take n p) \<and> (ok \<longrightarrow> n = length p)
    \<and> (0 < n \<longrightarrow> (ok \<longleftrightarrow> n = length p))"
proof -
  obtain failed k w1 where n: "next_op w = (failed, k, w1)" by (cases "next_op w") auto
  from assms next_op_frame [OF n] show ?thesis
    by (auto simp: f_write_def n Let_def split: option.splits if_splits)
qed

text \<open>The stages of a write that reaches the file.\<close>

lemma rf_write_cases:
  assumes w: "rf_write p r w = ((n, e), r', w')"
  obtains (refused) "n = 0" "e \<noteq> None" "w' = w" "r' = r"
  | (reopen) e1 where "rf_f r = None" "reopen_locked r w = (Some e1, r', w')" "n = 0" "e = Some e1"
      "\<not> rf_closed r"
  | (rotate) r1 w1 e1 where "(if rf_f r = None then reopen_locked r w else (None, r, w)) = (None, r1, w1)"
      "rotate_locked r1 w1 = (Some e1, r', w')" "n = 0" "e = Some e1" "\<not> rf_closed r"
  | (append) r1 w1 r2 w2 ok where "\<not> rf_closed r" "int (length p) \<le> rf_max_bytes r"
      "(if rf_f r = None then reopen_locked r w else (None, r, w)) = (None, r1, w1)"
      "(if rf_size r1 + int (length p) > rf_max_bytes r1 then rotate_locked r1 w1 else (None, r1, w1)) = (None, r2, w2)"
      "f_write (the (rf_f r2)) p w2 = (n, ok, w')" "e = (if ok then None else Some WriteFailed)"
      "r' = r2\<lparr>rf_size := rf_size r2 + int n\<rparr>"
proof -
  obtain e1 r1 w1 where 1: "(if rf_f r = None then reopen_locked r w else (None, r, w)) = (e1, r1, w1)"
    by (metis prod_cases3)
  obtain e2 r2 w2 where
    2: "(if rf_size r1 + int (length p) > rf_max_bytes r1 then rotate_locked r1 w1 else (None, r1, w1)) = (e2, r2, w2)"
    by (metis prod_cases3)
  obtain n3 ok w3 where 3: "f_write (the (rf_f r2)) p w2 = (n3, ok, w3)" by (metis prod_cases3)
  note w = w [unfolded rf_write_def 1]
  consider "rf_closed r \<or> int (length p) > rf_max_bytes r" | "\<not> (rf_closed r \<or> int (length p) > rf_max_bytes r)" "e1 \<noteq> None"
    | "\<not> (rf_closed r \<or> int (length p) > rf_max_bytes r)" "e1 = None" "e2 \<noteq> None"
    | "\<not> (rf_closed r \<or> int (length p) > rf_max_bytes r)" "e1 = None" "e2 = None" by blast
  then show ?thesis
  proof cases
    case 1
    with w refused show ?thesis by (auto split: if_splits)
  next
    case 2
    with w \<open>_ = (e1, r1, w1)\<close> reopen show ?thesis by (auto split: if_splits)
  next
    case 3
    note c = this
    then have w2: "rotate_locked r1 w1 = (e2, r2, w2)" using 2 by (auto split: if_splits)
    from w c 2 have "n = 0" "e = e2" "r' = r2" "w' = w2" by auto
    with rotate [of r1 w1 "the e2"] 1 c w2 show ?thesis by simp
  next
    case 4
    note c = this
    then have e: "e1 = None" "e2 = None" by simp_all
    from w c 2 3 have "n = n3" "e = (if ok then None else Some WriteFailed)"
      "r' = r2\<lparr>rf_size := rf_size r2 + int n\<rparr>" "w' = w3" by auto
    with append [of r1 w1 r2 w2 ok] 1 2 3 c e show ?thesis by simp
  qed
qed

lemma write_ready:
  assumes open1: "(if rf_f r = None then reopen_locked r w else (None, r, w)) = (None, r1, w1)"
    and rot: "(if rf_size r1 + int (length p) > rf_max_bytes r1 then rotate_locked r1 w1 else (None, r1, w1)) = (None, r2, w2)"
    and inv: "size_inv r w" and fits: "int (length p) \<le> rf_max_bytes r" and "\<not> rf_closed r"
  shows "\<exists>h. rf_f r2 = Some h \<and> rf_size r2 = int (length (fs_bytes w2 h))
    \<and> int (length (fs_bytes w2 h)) + int (length p) \<le> rf_max_bytes r \<and> \<not> rf_closed r2"
proof -
  have r1: "rf_f r1 \<noteq> None \<and> size_inv r1 w1 \<and> rf_max_bytes r1 = rf_max_bytes r \<and> \<not> rf_closed r1"
  proof (cases "rf_f r = None")
    case True
    with reopen_locked_inv [of r w None r1 w1] open1 assms(5) show ?thesis
      by (auto simp: size_inv_def)
  next
    case False
    with open1 inv assms(5) show ?thesis by auto
  qed
  show ?thesis
  proof (cases "rf_size r1 + int (length p) > rf_max_bytes r1")
    case True
    with rotate_locked_inv [of r1 w1 None r2 w2] rot r1 fits show ?thesis by auto
  next
    case False
    with rot r1 show ?thesis by (auto simp: size_inv_def)
  qed
qed

lemma size_inv_write:
  assumes w: "rf_write p r w = ((n, e), r', w')" and inv: "size_inv r w"
  shows "size_inv r' w' \<and> rf_closed r' = rf_closed r \<and> rf_max_bytes r' = rf_max_bytes r"
  using w
proof (cases rule: rf_write_cases)
  case refused
  with inv show ?thesis by simp
next
  case (reopen e1)
  with reopen_locked_inv [of r w "Some e1" r' w'] inv show ?thesis by (simp add: size_inv_def)
next
  case (rotate r1 w1 e1)
  have r1: "rf_closed r1 = rf_closed r \<and> rf_max_bytes r1 = rf_max_bytes r"
    using rotate(1) reopen_locked_inv [of r w None r1 w1] by (auto split: if_splits)
  with rotate_locked_inv [OF rotate(2)] rotate(5) show ?thesis by (simp add: size_inv_def)
next
  case (append r1 w1 r2 w2 ok)
  obtain h where h: "rf_f r2 = Some h" "rf_size r2 = int (length (fs_bytes w2 h))" "\<not> rf_closed r2"
    using write_ready [OF append(3,4) inv append(2,1)] by blast
  have "rf_max_bytes r1 = rf_max_bytes r"
    using append(3) reopen_locked_inv [of r w None r1 w1] by (auto split: if_splits)
  then have "rf_max_bytes r2 = rf_max_bytes r"
    using append(4) rotate_locked_inv [of r1 w1 None r2 w2] by (auto split: if_splits)
  with f_write_frame [OF append(5)] h append(1,7) show ?thesis by (simp add: size_inv_def)
qed

lemma size_inv_reach: "log_reach r w \<Longrightarrow> size_inv r w"
proof (induction rule: log_reach.induct)
  case (opened dir_of path max_bytes max_files w r w')
  then show ?case
    by (auto simp: open_rotating_def size_inv_def Let_def dest: file_size_Some
        split: if_splits prod.splits option.splits)
next
  case (written r w p res r' w')
  then show ?case using size_inv_write by (cases res) blast
next
  case (closed r w res r' w')
  then show ?case by (auto simp: rf_close_def size_inv_def Let_def split: if_splits prod.splits)
next
  case (world r w os)
  then show ?case by (simp add: size_inv_def)
qed

text \<open>
  What a write finds and keeps: reopening keeps the content of the file it finds, or starts a new one
  with the first unused number, and neither reopening nor rotation changes the bytes of any other file.
\<close>

definition keeps_others :: "nat \<Rightarrow> fs \<Rightarrow> fs \<Rightarrow> bool" where
  "keeps_others h w w' \<longleftrightarrow> fs_next w \<le> fs_next w' \<and> (\<forall>k < fs_next w. k \<noteq> h \<longrightarrow> fs_bytes w' k = fs_bytes w k)"

lemma keeps_others_trans: "keeps_others h w w1 \<Longrightarrow> keeps_others h w1 w2 \<Longrightarrow> keeps_others h w w2"
  by (auto simp: keeps_others_def)

lemma open_regular_keeps:
  assumes "open_regular_audit_file path appending w = (Some h, w')"
  shows "keeps_others h w w' \<and> (appending \<longrightarrow> (\<forall>k < fs_next w. fs_bytes w' k = fs_bytes w k)
    \<and> (fs_bytes w' h = fs_bytes w h \<or> h = fs_next w \<and> fs_bytes w' h = []))"
  using assms
proof (rule open_regular_Some)
  fix w1 w2 w3 w4
  assume s: "os_open path w = (Some h, w1)" "os_lstat path w1 = (Some (Regular h), w2)"
    "op_check w2 = (True, w3)" "f_chmod h 384 w3 = (True, w4)"
    "if appending then w' = w4 else f_truncate h w4 = (True, w')"
  note f = os_open_frame [OF s(1)] os_lstat_frame [OF s(2)] op_check_frame [OF s(3)] f_chmod_True [OF s(4)]
  have t: "fs_next w' = fs_next w4 \<and> (\<forall>k. k \<noteq> h \<longrightarrow> fs_bytes w' k = fs_bytes w4 k)" if "\<not> appending"
    using that s(5) by (cases "op_check w4") (auto simp: f_truncate_def dest: op_check_frame split: if_splits)
  show ?thesis
    using f s(5) t by (cases appending) (auto simp: keeps_others_def)
qed

text \<open>When no other process interferes, it is the file that the path names, or a new one if there is none.\<close>

lemma os_open_entry:
  assumes "os_open path w = (Some h, w')" and "swap_free (fs_outcomes w)"
  shows "fs_entries w path = None \<and> h = fs_next w \<or> fs_entries w path \<noteq> None \<and> fs_entries w' path = fs_entries w path"
proof -
  obtain failed k w1 where n: "next_op w = (failed, k, w1)" by (cases "next_op w") auto
  with next_op_frame [OF n] assms(2) have "fs_entries w1 = fs_entries w" "fs_next w1 = fs_next w" by simp_all
  moreover have "resolve_link 40 E path = Some path" if "E path = None" for E
    using that by (simp add: eval_nat_numeral)
  ultimately show ?thesis
    using assms(1) unfolding os_open_def n prod.case
    by (cases "fs_entries w path") (auto split: if_splits option.splits entry.splits)
qed

lemma open_regular_entry:
  assumes "open_regular_audit_file path appending w = (Some h, w')" and free: "swap_free (fs_outcomes w)"
  shows "fs_entries w path = Some (Regular h) \<or> fs_entries w path = None \<and> h = fs_next w"
  using assms(1)
proof (rule open_regular_Some)
  fix w1 w2
  assume o: "os_open path w = (Some h, w1)" and l: "os_lstat path w1 = (Some (Regular h), w2)"
  have "swap_free (fs_outcomes w1)" using os_open_frame [OF o] swap_free_tl [of 0 "fs_outcomes w"] free by (simp add: drop_Suc)
  with l have "fs_entries w1 path = Some (Regular h)"
    by (cases "next_op w1") (auto simp: os_lstat_def split: if_splits dest: next_op_frame)
  with os_open_entry [OF o free] show ?thesis by auto
qed

lemma reopen_locked_keeps:
  assumes "reopen_locked r w = (None, r', w')"
  shows "\<exists>g. rf_f r' = Some g \<and> rf_size r' = int (length (fs_bytes w' g)) \<and> fs_next w \<le> fs_next w'
    \<and> (\<forall>k < fs_next w. fs_bytes w' k = fs_bytes w k)
    \<and> (fs_bytes w' g = fs_bytes w g \<or> g = fs_next w \<and> fs_bytes w' g = [])
    \<and> (swap_free (fs_outcomes w) \<longrightarrow> fs_entries w (rf_path r) = Some (Regular g) \<or> fs_entries w (rf_path r) = None \<and> g = fs_next w)"
proof -
  obtain g w1 n where o: "open_regular_audit_file (rf_path r) True w = (Some g, w1)" "file_size g w1 = (Some n, w')"
    "r' = r\<lparr>rf_f := Some g, rf_size := n\<rparr>"
    using assms by (auto simp: reopen_locked_def split: prod.splits option.splits)
  have "fs_bytes w' = fs_bytes w1" "fs_next w' = fs_next w1"
    using o(2) by (cases "op_check w1"; auto simp: file_size_def dest: op_check_frame)+
  with open_regular_keeps [OF o(1)] open_regular_entry [OF o(1)] file_size_Some [OF o(2)] o(3) show ?thesis
    by (simp add: keeps_others_def)
qed

lemma op_check_keeps: "op_check w = (ok, w') \<Longrightarrow> keeps_others h w w'"
  by (drule op_check_frame) (simp add: keeps_others_def)

lemma os_remove_keeps: "os_remove p w = (e, w') \<Longrightarrow> keeps_others h w w'"
  by (cases "next_op w") (auto simp: os_remove_def keeps_others_def dest!: next_op_frame split: if_splits)

lemma os_rename_keeps: "os_rename p q w = (e, w') \<Longrightarrow> keeps_others h w w'"
  by (cases "next_op w") (auto simp: os_rename_def keeps_others_def dest!: next_op_frame split: if_splits option.splits)

lemma shift_backups_keeps: "shift_backups path i w = (ok, w') \<Longrightarrow> keeps_others h w w'"
proof (induction path i w rule: shift_backups.induct)
  case (1 path w)
  then show ?case by (simp add: keeps_others_def)
next
  case (2 path i w)
  let ?s = "if i \<ge> 1 then backup_name path i else path" and ?t = "backup_name path (Suc i)"
  obtain e1 w1 where 1: "os_remove ?t w = (e1, w1)" by fastforce
  obtain e2 w2 where 2: "os_rename ?s ?t w1 = (e2, w2)" by fastforce
  note k = os_remove_keeps [OF 1, of h] keeps_others_trans [OF os_remove_keeps [OF 1, of h] os_rename_keeps [OF 2, of h]]
  show ?case
  proof (cases "(e1 \<noteq> None \<and> e1 \<noteq> Some NotExist) \<or> (e2 \<noteq> None \<and> e2 \<noteq> Some NotExist)")
    case True
    with "2.prems" 1 2 have "w' = w1 \<or> w' = w2" by (auto simp: Let_def split: if_splits)
    with k show ?thesis by blast
  next
    case False
    with "2.prems" 1 2 have rest: "shift_backups path i w2 = (ok, w')" by (auto simp: Let_def split: if_splits)
    with "2.IH" [OF refl refl 1 [symmetric]] 1 2 False have "keeps_others h w2 w'" by (simp add: Let_def)
    with k(2) show ?thesis by (rule keeps_others_trans)
  qed
qed

lemma rotate_locked_keeps:
  assumes "rotate_locked r w = (None, r', w')"
  shows "\<exists>h. rf_f r' = Some h \<and> keeps_others h w w'"
proof -
  obtain ok r1 w1 where c: "(if rf_f r \<noteq> None then (case op_check w of (ok, w) \<Rightarrow> (ok, r\<lparr>rf_f := None\<rparr>, w)) else (True, r, w)) = (ok, r1, w1)"
    by (metis prod_cases3)
  obtain ok2 w2 where s: "shift_backups (rf_path r1) (nat (rf_max_files r1 - 1)) w1 = (ok2, w2)" by fastforce
  obtain o3 w3 where o: "open_regular_audit_file (rf_path r1) False w2 = (o3, w3)" by fastforce
  from assms obtain h where h: "o3 = Some h" "rf_f r' = Some h" "w' = w3"
    unfolding rotate_locked_def Let_def c by (auto simp: s o split: if_splits option.splits)
  have "keeps_others h w w1"
  proof (cases "rf_f r")
    case None
    with c show ?thesis by (simp add: keeps_others_def)
  next
    case (Some f)
    with c have "op_check w = (ok, w1)" by (auto split: prod.splits)
    then show ?thesis by (rule op_check_keeps)
  qed
  from keeps_others_trans [OF keeps_others_trans [OF this shift_backups_keeps [OF s]]] open_regular_keeps [OF o [unfolded h(1)]] h(2,3)
  show ?thesis by blast
qed

text \<open>The file \<open>g\<close> that a write finds, with its content.\<close>

definition found_file :: "rotating_file \<Rightarrow> fs \<Rightarrow> nat \<Rightarrow> string \<Rightarrow> bool" where
  "found_file r w g old \<longleftrightarrow>
     (case rf_f r of
        Some f \<Rightarrow> g = f \<and> old = fs_bytes w g
      | None \<Rightarrow> (old = fs_bytes w g \<or> g = fs_next w \<and> old = [])
          \<and> (swap_free (fs_outcomes w) \<longrightarrow>
               fs_entries w (rf_path r) = Some (Regular g) \<or> fs_entries w (rf_path r) = None \<and> g = fs_next w))"

text \<open>
  The file that a write is made to: with its old content when the record fits, empty otherwise.
\<close>

lemma write_found:
  assumes open1: "(if rf_f r = None then reopen_locked r w else (None, r, w)) = (None, r1, w1)"
    and rot: "(if rf_size r1 + int (length p) > rf_max_bytes r1 then rotate_locked r1 w1 else (None, r1, w1)) = (None, r2, w2)"
    and inv: "size_inv r w"
  shows "\<exists>h g old. rf_f r2 = Some h \<and> found_file r w g old \<and> keeps_others h w w2
    \<and> (if int (length old) + int (length p) \<le> rf_max_bytes r then h = g \<and> fs_bytes w2 h = old else fs_bytes w2 h = [])"
proof -
  obtain g where g: "rf_f r1 = Some g" "rf_size r1 = int (length (fs_bytes w1 g))" "found_file r w g (fs_bytes w1 g)"
    "fs_next w \<le> fs_next w1" "\<forall>k < fs_next w. fs_bytes w1 k = fs_bytes w k" "rf_max_bytes r1 = rf_max_bytes r"
  proof (cases "rf_f r")
    case None
    with open1 have "reopen_locked r w = (None, r1, w1)" by simp
    from reopen_locked_keeps [OF this] reopen_locked_inv [OF this None] None that show ?thesis
      by (auto simp: found_file_def)
  next
    case (Some g)
    with open1 inv that [of g] show ?thesis by (auto simp: size_inv_def found_file_def)
  qed
  have kept: "keeps_others k w w1" for k using g(4,5) by (simp add: keeps_others_def)
  show ?thesis
  proof (cases "rf_size r1 + int (length p) > rf_max_bytes r1")
    case True
    with rot have "rotate_locked r1 w1 = (None, r2, w2)" by simp
    with rotate_locked_keeps [OF this] rotate_locked_inv [OF this] obtain h where
      "rf_f r2 = Some h" "keeps_others h w1 w2" "fs_bytes w2 h = []" by auto
    with True g(2,3,6) keeps_others_trans [OF kept] show ?thesis
      by (intro exI [of _ h] exI [of _ g] exI [of _ "fs_bytes w1 g"]) auto
  next
    case False
    with rot have "r2 = r1" "w2 = w1" by auto
    with False g kept show ?thesis
      by (intro exI [of _ g] exI [of _ "fs_bytes w1 g"]) auto
  qed
qed

text \<open>
  Property C24: after any history of writes, failures, retries and closings, a write that puts any
  byte on the disk finds a file \<open>g\<close> with its old content: the open one, or when none is open the one it opens
  again, or a new one; if no other process interferes, that is the regular file that the path names. When the record fits into \<open>maxBytes\<close> beside that content, a prefix of it is
  appended to that same file; otherwise the log is rotated and the prefix is all that the new current
  file holds. No other file changes its bytes, the current file has at most \<open>maxBytes\<close> bytes and its size
  is tracked, and success is reported exactly when the record is whole; a closed log is never written to.
\<close>
theorem audit_write_bounded:
  assumes reach: "log_reach r w" and wr: "rf_write p r w = ((n, e), r', w')" and "0 < n"
  shows "\<not> rf_closed r \<and> (e = None \<longleftrightarrow> n = length p)
    \<and> (\<exists>h g old. rf_f r' = Some h \<and> found_file r w g old
         \<and> (if int (length old) + int (length p) \<le> rf_max_bytes r
            then h = g \<and> fs_bytes w' h = old @ take n p else fs_bytes w' h = take n p)
         \<and> (\<forall>k < fs_next w. k \<noteq> h \<longrightarrow> fs_bytes w' k = fs_bytes w k)
         \<and> int (length (fs_bytes w' h)) \<le> rf_max_bytes r \<and> rf_size r' = int (length (fs_bytes w' h)))"
  using wr
proof (cases rule: rf_write_cases)
  case (append r1 w1 r2 w2 ok)
  note inv = size_inv_reach [OF reach] and f = f_write_frame [OF append(5)]
  obtain h where h: "rf_f r2 = Some h" "rf_size r2 = int (length (fs_bytes w2 h))"
    "int (length (fs_bytes w2 h)) + int (length p) \<le> rf_max_bytes r"
    using write_ready [OF append(3,4) inv append(2,1)] by blast
  obtain g old where g: "found_file r w g old" "keeps_others h w w2"
    "if int (length old) + int (length p) \<le> rf_max_bytes r then h = g \<and> fs_bytes w2 h = old else fs_bytes w2 h = []"
    using write_found [OF append(3,4) inv] h(1) by auto
  have "if int (length old) + int (length p) \<le> rf_max_bytes r
      then h = g \<and> fs_bytes w' h = old @ take n p else fs_bytes w' h = take n p"
    using g(3) f h(1) by (cases "int (length old) + int (length p) \<le> rf_max_bytes r") auto
  moreover have "\<forall>k < fs_next w. k \<noteq> h \<longrightarrow> fs_bytes w' k = fs_bytes w k"
    using g(2) f h(1) by (simp add: keeps_others_def)
  moreover have len: "length (fs_bytes w' h) = length (fs_bytes w2 h) + n" using f h(1) by simp
  have "n \<le> length p" using f by blast
  with len h(3) have "int (length (fs_bytes w' h)) \<le> rf_max_bytes r" by linarith
  moreover have "rf_f r' = Some h" using h(1) append(7) by simp
  moreover have "rf_size r' = int (length (fs_bytes w' h))" unfolding append(7) using len h(2) by simp
  moreover have "e = None \<longleftrightarrow> n = length p" using append(6) f \<open>0 < n\<close> by (cases ok) auto
  ultimately show ?thesis
    using append(1) g(1)
    by - (rule conjI, assumption, rule conjI, assumption, rule exI [of _ h], rule exI [of _ g], rule exI [of _ old], intro conjI)
qed (use \<open>0 < n\<close> in simp_all)

text \<open>A log of two bytes that is opened, and a second record.\<close>

lemma audit_write_bounded_witness:
  "let w = \<lparr>fs_entries = [''a'' \<mapsto> Regular 0], fs_bytes = (\<lambda>_. [])(0 := ''ab''), fs_mode = (\<lambda>_. 384), fs_next = 1, fs_outcomes = []\<rparr>;
       r = \<lparr>rf_path = ''a'', rf_max_bytes = 10, rf_max_files = 2, rf_size = 2, rf_f = Some 0, rf_closed = False\<rparr>
   in open_rotating (\<lambda>_. ''.'') ''a'' 10 2 w = (Inr r, w)
    \<and> (\<exists>r' w'. rf_write ''cd'' r w = ((2, None), r', w') \<and> fs_bytes w' 0 = ''ab'' @ ''cd'' \<and> rf_size r' = 4)"
proof -
  let ?w = "\<lparr>fs_entries = [''a'' \<mapsto> Regular 0], fs_bytes = (\<lambda>_. [])(0 := ''ab''), fs_mode = (\<lambda>_. 384), fs_next = 1, fs_outcomes = []\<rparr>"
  let ?r = "\<lparr>rf_path = ''a'', rf_max_bytes = 10, rf_max_files = 2, rf_size = 2, rf_f = Some 0, rf_closed = False\<rparr>"
  have opened: "open_rotating (\<lambda>_. ''.'') ''a'' 10 2 ?w = (Inr ?r, ?w)"
    by (simp add: open_rotating_def file_size_def open_regular_audit_file_def os_open_def next_op_def
        os_lstat_def op_check_def f_chmod_def eval_nat_numeral fun_upd_idem)
  then have reach: "log_reach ?r ?w" by (rule log_reach.opened)
  obtain r' w' where wr: "rf_write ''cd'' ?r ?w = ((2, None), r', w')"
    by (simp add: rf_write_def f_write_def next_op_def)
  from audit_write_bounded [OF reach wr, unfolded found_file_def] have "fs_bytes w' 0 = ''ab'' @ ''cd'' \<and> rf_size r' = 4" by auto
  with opened wr show ?thesis by (simp add: Let_def)
qed

section \<open>Rotation without faults\<close>

text \<open>The name of file \<open>i\<close>, the primary being file 0, and what the directory holds under it.\<close>

definition log_name :: "string \<Rightarrow> nat \<Rightarrow> string" where
  "log_name path i = (if i = 0 then path else backup_name path i)"

lemma log_name_inj [simp]: "log_name path i = log_name path j \<longleftrightarrow> i = j"
  by (auto simp: log_name_def backup_name_def show_int_def)

text \<open>Every regular file has one name, and \<open>n\<close> is above all inodes.\<close>

definition names_ok :: "nat \<Rightarrow> (string \<Rightarrow> entry option) \<Rightarrow> bool" where
  "names_ok n E \<longleftrightarrow> (\<forall>q i. E q = Some (Regular i) \<longrightarrow> i < n)
     \<and> (\<forall>q q' i. E q = Some (Regular i) \<longrightarrow> E q' = Some (Regular i) \<longrightarrow> q = q')"

lemma names_ok_move: "names_ok n E \<Longrightarrow> s \<noteq> t \<Longrightarrow> names_ok n (E(t := E s, s := None))"
  unfolding names_ok_def by (metis fun_upd_def option.distinct(1))

lemma names_ok_fresh: "names_ok n E \<Longrightarrow> names_ok (n + 1) (E(q \<mapsto> Regular n))"
  unfolding names_ok_def by (auto dest: less_SucI)

text \<open>The directory \<open>m\<close> is \<open>E\<close> with files 0 to \<open>k - 1\<close> under the next name.\<close>

definition shifted :: "string \<Rightarrow> nat \<Rightarrow> nat \<Rightarrow> (string \<Rightarrow> entry option) \<Rightarrow> (string \<Rightarrow> entry option) \<Rightarrow> bool" where
  "shifted path k n E m \<longleftrightarrow>
     (\<forall>i. 1 \<le> i \<and> i \<le> k \<longrightarrow> m (log_name path i) = E (log_name path (i - 1)))
     \<and> (0 < k \<longrightarrow> m (log_name path 0) = None) \<and> (k = 0 \<longrightarrow> m = E)
     \<and> (names_ok n E \<longrightarrow> names_ok n m)
     \<and> (\<forall>q. (\<forall>i \<le> k. q \<noteq> log_name path i) \<longrightarrow> m q = E q)"

lemma shifted_Suc:
  assumes "shifted path k n (E(log_name path (Suc k) := E (log_name path k), log_name path k := None)) m"
  shows "shifted path (Suc k) n E m"
proof -
  let ?s = "log_name path k" and ?t = "log_name path (Suc k)"
  let ?E1 = "E(?t := E ?s, ?s := None)"
  have ne: "?s \<noteq> ?t" by simp
  have m: "\<And>i. 1 \<le> i \<Longrightarrow> i \<le> k \<Longrightarrow> m (log_name path i) = ?E1 (log_name path (i - 1))"
    "0 < k \<Longrightarrow> m (log_name path 0) = None" "k = 0 \<Longrightarrow> m = ?E1" "names_ok n ?E1 \<Longrightarrow> names_ok n m"
    "\<And>q. (\<And>i. i \<le> k \<Longrightarrow> q \<noteq> log_name path i) \<Longrightarrow> m q = ?E1 q"
    using assms unfolding shifted_def by blast+
  have "m (log_name path i) = E (log_name path (i - 1))" if "1 \<le> i" "i \<le> Suc k" for i
  proof (cases "i = Suc k")
    case True
    with m(5) [of ?t] ne show ?thesis by simp
  next
    case False
    with that have "i \<le> k" "i - 1 \<noteq> k" "i - 1 \<noteq> Suc k" by linarith+
    with m(1) [of i] that(1) show ?thesis by simp
  qed
  moreover have "m (log_name path 0) = None" using m(2,3) by (cases "k = 0") simp_all
  moreover have "m q = E q" if "\<And>i. i \<le> Suc k \<Longrightarrow> q \<noteq> log_name path i" for q
    using m(5) [of q] that [of k] that [of "Suc k"] that by (simp add: le_Suc_eq)
  moreover have "names_ok n E \<Longrightarrow> names_ok n m" using m(4) names_ok_move ne by blast
  ultimately show ?thesis by (simp add: shifted_def)
qed

lemma shift_backups_shifts:
  "fs_outcomes w = [] \<Longrightarrow>
    \<exists>m. shift_backups path k w = (True, w\<lparr>fs_entries := m\<rparr>) \<and> shifted path k n (fs_entries w) m"
proof (induction k arbitrary: w)
  case 0
  show ?case by (intro exI [of _ "fs_entries w"]) (simp add: shifted_def)
next
  case (Suc k)
  let ?E = "fs_entries w" and ?s = "log_name path k" and ?t = "log_name path (Suc k)"
  let ?E1 = "?E(?t := ?E ?s, ?s := None)"
  have st: "(if k \<ge> 1 then backup_name path k else path) = ?s" "backup_name path (Suc k) = ?t"
    by (auto simp: log_name_def)
  have ne: "?s \<noteq> ?t" by simp
  have rm: "os_remove ?t w = (if ?E ?t = None then Some NotExist else None, w\<lparr>fs_entries := ?E(?t := None)\<rparr>)"
    using Suc.prems by (auto simp: os_remove_def next_op_def fun_upd_idem)
  have rn: "os_rename ?s ?t (w\<lparr>fs_entries := ?E(?t := None)\<rparr>)
      = (if ?E ?s = None then Some NotExist else None, w\<lparr>fs_entries := ?E1\<rparr>)"
    using Suc.prems ne by (auto simp: os_rename_def next_op_def fun_upd_idem fun_upd_twist split: option.splits)
  define w1 where "w1 = w\<lparr>fs_entries := ?E1\<rparr>"
  have w1: "fs_outcomes w1 = []" "fs_entries w1 = ?E1" "\<And>m. w1\<lparr>fs_entries := m\<rparr> = w\<lparr>fs_entries := m\<rparr>"
    using Suc.prems by (simp_all add: w1_def)
  have "shift_backups path (Suc k) w = shift_backups path k w1"
    unfolding shift_backups.simps st Let_def rm prod.case rn by (simp add: w1_def)
  with Suc.IH [OF w1(1)] shifted_Suc show ?case unfolding w1(2,3) by metis
qed

text \<open>A log between two fault-free writes: every file has one name, and the primary is open.\<close>

definition log_ok :: "rotating_file \<Rightarrow> fs \<Rightarrow> bool" where
  "log_ok r w \<longleftrightarrow> fs_outcomes w = [] \<and> \<not> rf_closed r \<and> 0 < rf_max_files r
     \<and> (\<exists>h. rf_f r = Some h \<and> fs_entries w (rf_path r) = Some (Regular h) \<and> rf_size r = int (length (fs_bytes w h)))
     \<and> names_ok (fs_next w) (fs_entries w)"

definition file_at :: "fs \<Rightarrow> string \<Rightarrow> string option" where
  "file_at w q = (case fs_entries w q of Some (Regular n) \<Rightarrow> Some (fs_bytes w n) | _ \<Rightarrow> None)"

definition log_contents :: "rotating_file \<Rightarrow> fs \<Rightarrow> string option list" where
  "log_contents r w = map (\<lambda>i. file_at w (log_name (rf_path r) i)) [0..<nat (rf_max_files r)]"

text \<open>What a write promises, on the contents of the files, newest first.\<close>

definition spec_write :: "int \<Rightarrow> string \<Rightarrow> string option list \<Rightarrow> string option list" where
  "spec_write max_bytes p fs =
     (if int (length (the (hd fs))) + int (length p) > max_bytes then take (length fs) (Some p # fs)
      else Some (the (hd fs) @ p) # tl fs)"

lemma resolve_regular [simp]:
  "names q = Some (Regular n) \<Longrightarrow> 0 < f \<Longrightarrow> resolve_link f names q = Some q"
  "names q = None \<Longrightarrow> 0 < f \<Longrightarrow> resolve_link f names q = Some q"
  by (cases f; simp)+

lemma open_regular_existing:
  assumes "fs_outcomes w = []" and "fs_entries w path = Some (Regular h)"
  shows "open_regular_audit_file path False w
    = (Some h, w\<lparr>fs_mode := (fs_mode w)(h := 384), fs_bytes := (fs_bytes w)(h := [])\<rparr>)"
  using assms by (simp add: open_regular_audit_file_def os_open_def next_op_def os_lstat_def op_check_def
      f_chmod_def f_truncate_def)

lemma open_regular_new:
  assumes "fs_outcomes w = []" and "fs_entries w path = None"
  shows "open_regular_audit_file path appending w
    = (Some (fs_next w), w\<lparr>fs_entries := (fs_entries w)(path \<mapsto> Regular (fs_next w)),
        fs_mode := (fs_mode w)(fs_next w := 384), fs_bytes := (fs_bytes w)(fs_next w := []), fs_next := fs_next w + 1\<rparr>)"
  using assms by (simp add: open_regular_audit_file_def os_open_def next_op_def os_lstat_def op_check_def
      f_chmod_def f_truncate_def)

text \<open>A rotation leaves a fresh primary and each file under the next name.\<close>

lemma rotate_locked_fresh:
  assumes ok: "log_ok r w"
  shows "\<exists>h w'. rotate_locked r w = (None, r\<lparr>rf_f := Some h, rf_size := 0\<rparr>, w')
    \<and> log_ok (r\<lparr>rf_f := Some h, rf_size := 0\<rparr>) w' \<and> fs_bytes w' h = []
    \<and> (\<forall>i. 1 \<le> i \<and> i < nat (rf_max_files r) \<longrightarrow>
          file_at w' (log_name (rf_path r) i) = file_at w (log_name (rf_path r) (i - 1)))"
proof -
  let ?p = "rf_path r" and ?k = "nat (rf_max_files r - 1)" and ?E = "fs_entries w"
  obtain h where o: "fs_outcomes w = []" "0 < rf_max_files r" "\<not> rf_closed r" "rf_f r = Some h"
    "?E ?p = Some (Regular h)"
    "names_ok (fs_next w) ?E"
    using ok unfolding log_ok_def by blast
  obtain m where m1: "shift_backups ?p ?k w = (True, w\<lparr>fs_entries := m\<rparr>)"
    and sh: "shifted ?p ?k (fs_next w) ?E m"
    using shift_backups_shifts [OF o(1)] by blast
  have m: "\<forall>i. 1 \<le> i \<and> i \<le> ?k \<longrightarrow> m (log_name ?p i) = ?E (log_name ?p (i - 1))"
    "0 < ?k \<longrightarrow> m (log_name ?p 0) = None" "?k = 0 \<longrightarrow> m = ?E" "names_ok (fs_next w) m"
    using sh o(6) unfolding shifted_def by blast+
  have p0: "log_name ?p 0 = ?p" by (simp add: log_name_def)
  have rot: "rotate_locked r w = (case open_regular_audit_file ?p False (w\<lparr>fs_entries := m\<rparr>) of
      (None, w) \<Rightarrow> (Some StorageUnavailable, r\<lparr>rf_f := None\<rparr>, w)
    | (Some h, w) \<Rightarrow> (None, r\<lparr>rf_f := None, rf_f := Some h, rf_size := 0\<rparr>, w))"
    using o(1,4) by (simp add: rotate_locked_def op_check_def next_op_def m1)
  show ?thesis
  proof (cases "?k = 0")
    case True
    with m(3) have "w\<lparr>fs_entries := m\<rparr> = w" by simp
    with rot open_regular_existing [OF o(1,5)]
    have "rotate_locked r w = (None, r\<lparr>rf_f := Some h, rf_size := 0\<rparr>,
        w\<lparr>fs_mode := (fs_mode w)(h := 384), fs_bytes := (fs_bytes w)(h := [])\<rparr>)" by simp
    moreover have "log_ok (r\<lparr>rf_f := Some h, rf_size := 0\<rparr>)
        (w\<lparr>fs_mode := (fs_mode w)(h := 384), fs_bytes := (fs_bytes w)(h := [])\<rparr>)"
      using ok o by (simp add: log_ok_def)
    ultimately show ?thesis using True by auto
  next
    case False
    have mp: "m ?p = None" using m(2) False p0 by simp
    let ?n = "fs_next w"
    define w' where "w' = w\<lparr>fs_entries := m(?p \<mapsto> Regular ?n), fs_mode := (fs_mode w)(?n := 384),
      fs_bytes := (fs_bytes w)(?n := []), fs_next := ?n + 1\<rparr>"
    have r: "rotate_locked r w = (None, r\<lparr>rf_f := Some ?n, rf_size := 0\<rparr>, w')"
      using rot open_regular_new [of "w\<lparr>fs_entries := m\<rparr>" ?p False] o(1) mp by (simp add: w'_def)
    have "log_ok (r\<lparr>rf_f := Some ?n, rf_size := 0\<rparr>) w'"
      using o names_ok_fresh [OF m(4)] by (simp add: log_ok_def w'_def)
    moreover have "file_at w' (log_name ?p i) = file_at w (log_name ?p (i - 1))"
      if "1 \<le> i" "i < nat (rf_max_files r)" for i
    proof -
      have "i \<le> ?k" using that by linarith
      with m(1) that have e: "m (log_name ?p i) = ?E (log_name ?p (i - 1))" by blast
      have "log_name ?p i \<noteq> ?p" using log_name_inj [of ?p i 0] that(1) p0 by simp
      with e have "fs_entries w' (log_name ?p i) = ?E (log_name ?p (i - 1))" by (simp add: w'_def)
      moreover have "fs_bytes w' j = fs_bytes w j" if "?E q = Some (Regular j)" for q j
        using o(6) that by (auto simp: w'_def names_ok_def)
      ultimately show ?thesis by (auto simp: file_at_def split: option.splits entry.splits)
    qed
    moreover have "fs_bytes w' ?n = []" by (simp add: w'_def)
    ultimately show ?thesis using r by blast
  qed
qed

text \<open>Appending to the open primary changes that file alone.\<close>

lemma append_primary:
  fixes p :: string
  assumes ok: "log_ok r w" and h: "rf_f r = Some h"
  defines "w' \<equiv> w\<lparr>fs_bytes := (fs_bytes w)(h := fs_bytes w h @ p)\<rparr>"
    and "r' \<equiv> r\<lparr>rf_size := rf_size r + int (length p)\<rparr>"
  shows "f_write h p w = (length p, True, w') \<and> log_ok r' w'
    \<and> file_at w' (log_name (rf_path r) 0) = Some (fs_bytes w h @ p)
    \<and> (\<forall>i \<ge> 1. file_at w' (log_name (rf_path r) i) = file_at w (log_name (rf_path r) i))"
proof -
  have w: "fs_outcomes w = []" "fs_entries w (rf_path r) = Some (Regular h)"
    and uniq: "\<And>q. fs_entries w q = Some (Regular h) \<Longrightarrow> q = rf_path r"
    using ok h unfolding log_ok_def names_ok_def by auto
  have "file_at w' (log_name (rf_path r) i) = file_at w (log_name (rf_path r) i)" if "i \<ge> 1" for i
  proof -
    have "log_name (rf_path r) i \<noteq> rf_path r"
      using log_name_inj [of "rf_path r" i 0] that by (simp add: log_name_def)
    with uniq show ?thesis by (auto simp: file_at_def w'_def split: option.splits entry.splits)
  qed
  moreover have "log_ok r' w'" using ok h by (simp add: log_ok_def w'_def r'_def)
  moreover have "f_write h p w = (length p, True, w')"
    using w(1) by (simp add: f_write_def next_op_def w'_def)
  moreover have "file_at w' (log_name (rf_path r) 0) = Some (fs_bytes w h @ p)"
    using w(2) by (simp add: file_at_def log_name_def w'_def)
  ultimately show ?thesis by blast
qed

lemma map_upt_Cons: "0 < n \<Longrightarrow> map f [0..<n] = f 0 # map f [1..<n]"
  by (simp add: upt_conv_Cons)

lemma audit_write_step:
  assumes ok: "log_ok r w" and fits: "int (length p) \<le> rf_max_bytes r"
  shows "\<exists>r' w'. rf_write p r w = ((length p, None), r', w') \<and> log_ok r' w'
    \<and> rf_max_bytes r' = rf_max_bytes r \<and> log_contents r' w' = spec_write (rf_max_bytes r) p (log_contents r w)"
proof -
  obtain h where h: "rf_f r = Some h" "fs_entries w (rf_path r) = Some (Regular h)"
    "rf_size r = int (length (fs_bytes w h))" "\<not> rf_closed r" "0 < rf_max_files r"
    using ok unfolding log_ok_def by blast
  define n where "n = nat (rf_max_files r)"
  have n: "0 < n" using h(5) by (simp add: n_def)
  let ?at = "\<lambda>w i. file_at w (log_name (rf_path r) i)"
  have head: "?at w 0 = Some (fs_bytes w h)" by (simp add: file_at_def log_name_def h(2))
  have contents: "log_contents r w = ?at w 0 # map (?at w) [1..<n]"
    unfolding log_contents_def n_def [symmetric] by (rule map_upt_Cons [OF n])
  have small: "\<not> int (length p) > rf_max_bytes r" using fits by simp
  show ?thesis
  proof (cases "rf_size r + int (length p) > rf_max_bytes r")
    case False
    note a = append_primary [OF ok h(1), of p]
    let ?w = "w\<lparr>fs_bytes := (fs_bytes w)(h := fs_bytes w h @ p)\<rparr>"
    let ?r = "r\<lparr>rf_size := rf_size r + int (length p)\<rparr>"
    have "rf_write p r w = ((length p, None), ?r, ?w)"
      using a h False small by (simp add: rf_write_def)
    moreover have "log_contents ?r ?w = ?at ?w 0 # map (?at ?w) [1..<n]"
      unfolding log_contents_def by (simp add: n_def [symmetric] map_upt_Cons [OF n])
    moreover have "map (?at ?w) [1..<n] = map (?at w) [1..<n]" using a by simp
    ultimately have "log_contents ?r ?w = spec_write (rf_max_bytes r) p (log_contents r w)"
      using a False h(3) head contents by (simp add: spec_write_def)
    with \<open>rf_write p r w = _\<close> a show ?thesis by auto
  next
    case True
    obtain h1 w1 where rot: "rotate_locked r w = (None, r\<lparr>rf_f := Some h1, rf_size := 0\<rparr>, w1)"
      and ok1: "log_ok (r\<lparr>rf_f := Some h1, rf_size := 0\<rparr>) w1" and e: "fs_bytes w1 h1 = []"
      and sh: "\<And>i. 1 \<le> i \<Longrightarrow> i < n \<Longrightarrow> ?at w1 i = ?at w (i - 1)"
      using rotate_locked_fresh [OF ok] unfolding n_def by blast
    let ?r1 = "r\<lparr>rf_f := Some h1, rf_size := 0\<rparr>"
    note a = append_primary [OF ok1, of h1 p, simplified]
    let ?w = "w1\<lparr>fs_bytes := (fs_bytes w1)(h1 := fs_bytes w1 h1 @ p)\<rparr>"
    let ?r = "?r1\<lparr>rf_size := 0 + int (length p)\<rparr>"
    have wr: "rf_write p r w = ((length p, None), ?r, ?w)"
      using a h(1,4) True small by (simp add: rf_write_def rot)
    have "log_contents ?r ?w = ?at ?w 0 # map (?at ?w) [1..<n]"
      unfolding log_contents_def by (simp add: n_def [symmetric] map_upt_Cons [OF n])
    also have "map (?at ?w) [1..<n] = map (\<lambda>i. ?at w (i - 1)) [1..<n]"
      using a sh by simp
    also have "\<dots> = map (?at w) [0..<n - 1]"
    proof -
      have "[1..<n] = map Suc [0..<n - 1]" using n by (simp add: map_Suc_upt)
      then show ?thesis by simp
    qed
    also have "map (?at w) [0..<n - 1] = take (n - 1) (log_contents r w)"
      by (simp add: log_contents_def n_def take_map)
    also have "?at ?w 0 = Some p" using a e by simp
    finally have new: "log_contents ?r ?w = Some p # take (n - 1) (log_contents r w)" .
    have len: "length (log_contents r w) = n" by (simp add: log_contents_def n_def)
    have "hd (log_contents r w) = Some (fs_bytes w h)" using contents head by simp
    then have "spec_write (rf_max_bytes r) p (log_contents r w) = Some p # take (n - 1) (log_contents r w)"
      using True h(3) n unfolding spec_write_def len by (simp add: take_Cons')
    with wr a new show ?thesis by auto
  qed
qed

text \<open>
  Property C26: when no operation fails, writing a record does to the primary file and its backups
  what \<open>spec_write\<close> says: the record goes to the end of the newest file if it fits, and otherwise
  starts a new file, every other file becoming one older and the oldest beyond \<open>maxFiles\<close> dropped.
\<close>
theorem audit_write_refines:
  assumes ok: "log_ok r w" and fits: "int (length p) \<le> rf_max_bytes r"
  shows "\<exists>r' w'. rf_write p r w = ((length p, None), r', w') \<and> log_ok r' w'
    \<and> rf_max_bytes r' = rf_max_bytes r \<and> log_contents r' w' = spec_write (rf_max_bytes r) p (log_contents r w)"
  using assms by (rule audit_write_step)

text \<open>A log of two files of at most four bytes.\<close>

definition example_fs :: fs where
  "example_fs = \<lparr>fs_entries = [''a'' \<mapsto> Regular 0], fs_bytes = (\<lambda>_. []), fs_mode = (\<lambda>_. 384),
     fs_next = 1, fs_outcomes = []\<rparr>"

definition example_log :: rotating_file where
  "example_log = \<lparr>rf_path = ''a'', rf_max_bytes = 4, rf_max_files = 2, rf_size = 0, rf_f = Some 0, rf_closed = False\<rparr>"

lemma example_log_ok: "log_ok example_log example_fs"
  by (auto simp: log_ok_def example_log_def example_fs_def names_ok_def split: if_splits)

lemma example_log_contents: "log_contents example_log example_fs = [Some [], None]"
  by (simp add: log_contents_def example_log_def example_fs_def file_at_def log_name_def backup_name_def
      eval_nat_numeral)

lemma audit_write_refines_witness:
  "\<exists>r' w'. rf_write ''abc'' example_log example_fs = ((3, None), r', w') \<and> log_contents r' w' = [Some ''abc'', None]"
  using audit_write_refines [OF example_log_ok, of "''abc''"] unfolding example_log_contents
  by (fastforce simp: example_log_def spec_write_def eval_nat_numeral)

fun write_all :: "string list \<Rightarrow> rotating_file \<Rightarrow> fs \<Rightarrow> rotating_file \<times> fs" where
  "write_all [] r w = (r, w)"
| "write_all (p # ps) r w = (case rf_write p r w of (_, r, w) \<Rightarrow> write_all ps r w)"

text \<open>\<open>gs\<close> groups the records that the files hold, newest file first.\<close>

definition holds_records :: "int \<Rightarrow> string option list \<Rightarrow> string list \<Rightarrow> string list list \<Rightarrow> bool" where
  "holds_records max_bytes fs ps gs \<longleftrightarrow> gs \<noteq> [] \<and> fs = map (\<lambda>g. Some (concat g)) gs @ replicate (length fs - length gs) None
     \<and> length gs \<le> length fs \<and> (concat (rev gs) = ps \<or> length gs = length fs) \<and> suffix (concat (rev gs)) ps \<and> (\<forall>g \<in> set gs. int (length (concat g)) \<le> max_bytes)"

lemma suffix_concat_rev_take: "suffix (concat (rev (take n gs))) (concat (rev gs))"
proof -
  have "rev gs = rev (drop n gs) @ rev (take n gs)" by (metis append_take_drop_id rev_append)
  then show ?thesis by (metis concat_append suffixI)
qed

lemma spec_write_holds:
  assumes h: "holds_records B fs ps gs" and fits: "int (length p) \<le> B"
  shows "\<exists>gs'. holds_records B (spec_write B p fs) (ps @ [p]) gs'"
proof -
  obtain g rest where gs: "gs = g # rest" using h by (cases gs) (auto simp: holds_records_def)
  define k where "k = length fs - length gs"
  have hh: "fs = map (\<lambda>g. Some (concat g)) gs @ replicate k None" "concat (rev gs) = ps \<or> length gs = length fs"
    and suf: "suffix (concat (rev gs)) ps" and small: "\<forall>g \<in> set gs. int (length (concat g)) \<le> B"
    using h unfolding holds_records_def k_def by blast+
  have fs: "fs = Some (concat g) # map (\<lambda>g. Some (concat g)) rest @ replicate k None"
    using hh(1) unfolding gs by simp
  have all: "concat (rev gs) = ps \<or> k = 0" using hh(2) by (auto simp: k_def)
  show ?thesis
  proof (cases "int (length (concat g)) + int (length p) > B")
    case False
    have "suffix (concat (rev ((g @ [p]) # rest))) (ps @ [p])"
      using suf by (auto simp: gs suffix_def)
    then show ?thesis using False small all
      by (intro exI [of _ "(g @ [p]) # rest"]) (simp add: holds_records_def spec_write_def fs gs)
  next
    case True
    let ?n = "length fs"
    let ?new = "take ?n ([p] # gs)"
    have spec: "spec_write B p fs = take ?n (map (\<lambda>g. Some (concat g)) ([p] # gs) @ replicate k None)"
      using True by (simp add: spec_write_def fs gs)
    have n: "?n = Suc (length rest + k)" by (simp add: fs)
    have "take ?n (map (\<lambda>g. Some (concat g)) ([p] # gs) @ replicate k None)
        = map (\<lambda>g. Some (concat g)) ?new @ replicate (?n - length ?new) None
      \<and> (concat (rev ?new) = ps @ [p] \<or> length ?new = ?n)"
    proof (cases k)
      case 0
      then show ?thesis
        using take_map [of "length rest" "\<lambda>g. Some (concat g)" "g # rest"] by (simp add: n gs)
    next
      case (Suc j)
      then show ?thesis using all by (simp add: n gs min_def del: replicate.simps)
    qed
    moreover have "suffix (concat (rev ?new)) (ps @ [p])"
    proof -
      have "suffix (concat (rev ([p] # gs))) (ps @ [p])" using suf by (auto simp: suffix_def)
      then show ?thesis using suffix_concat_rev_take suffix_order.trans by blast
    qed
    moreover have "int (length (concat g')) \<le> B" if "g' \<in> set ?new" for g'
      using in_set_takeD [OF that] small fits by auto
    ultimately show ?thesis
      by (intro exI [of _ ?new]) (auto simp: holds_records_def spec n)
  qed
qed

lemma write_all_holds:
  assumes "log_ok r w" and "holds_records (rf_max_bytes r) (log_contents r w) qs gs"
    and "\<forall>p \<in> set ps. int (length p) \<le> rf_max_bytes r" and "write_all ps r w = (r', w')"
  shows "\<exists>gs'. holds_records (rf_max_bytes r) (log_contents r' w') (qs @ ps) gs'"
  using assms
proof (induction ps arbitrary: r w qs gs)
  case (Cons p ps)
  obtain r1 w1 where 1: "rf_write p r w = ((length p, None), r1, w1)" "log_ok r1 w1"
    "rf_max_bytes r1 = rf_max_bytes r" "log_contents r1 w1 = spec_write (rf_max_bytes r) p (log_contents r w)"
    using audit_write_step Cons.prems(1,3) by fastforce
  obtain gs1 where "holds_records (rf_max_bytes r1) (log_contents r1 w1) (qs @ [p]) gs1"
    using spec_write_holds [OF Cons.prems(2)] 1 Cons.prems(3) by auto
  from Cons.IH [OF 1(2) this] Cons.prems(3,4) 1(1,3) show ?case by simp
qed auto

text \<open>
  Property C27: writing any records to a new log, when no operation fails, leaves in the files, read
  from the oldest backup to the primary, the last of those records, whole and in order, with no file
  above \<open>maxBytes\<close> and no more files than \<open>maxFiles\<close>; records are missing only when all files are in
  use.
\<close>
theorem audit_log_keeps_last_records:
  assumes "log_ok r w" and "log_contents r w = Some [] # replicate k None" and "0 \<le> rf_max_bytes r"
    and "\<forall>p \<in> set ps. int (length p) \<le> rf_max_bytes r" and "write_all ps r w = (r', w')"
  shows "\<exists>gs. log_contents r' w' = map (\<lambda>g. Some (concat g)) gs @ replicate (length (log_contents r' w') - length gs) None
    \<and> suffix (concat (rev gs)) ps \<and> (concat (rev gs) = ps \<or> length gs = nat (rf_max_files r')) \<and> (\<forall>g \<in> set gs. int (length (concat g)) \<le> rf_max_bytes r)
    \<and> length gs \<le> nat (rf_max_files r')"
proof -
  have "holds_records (rf_max_bytes r) (log_contents r w) [] [[]]"
    using assms(2,3) by (simp add: holds_records_def)
  from write_all_holds [OF assms(1) this assms(4,5)] obtain gs
    where "holds_records (rf_max_bytes r) (log_contents r' w') ps gs" by auto
  moreover have "length (log_contents r' w') = nat (rf_max_files r')" by (simp add: log_contents_def)
  ultimately show ?thesis unfolding holds_records_def by metis
qed

lemma audit_log_keeps_last_records_witness:
  "case write_all [''abc'', ''de''] example_log example_fs of (r', w') \<Rightarrow>
     \<exists>gs. log_contents r' w' = map (\<lambda>g. Some (concat g)) gs @ replicate (length (log_contents r' w') - length gs) None
       \<and> suffix (concat (rev gs)) [''abc'', ''de'']"
proof -
  obtain r' w' where w: "write_all [''abc'', ''de''] example_log example_fs = (r', w')" by fastforce
  have "log_contents example_log example_fs = Some [] # replicate 1 None" by (simp add: example_log_contents)
  from audit_log_keeps_last_records [OF example_log_ok this _ _ w] show ?thesis
    unfolding w prod.case by (auto simp: example_log_def)
qed

section \<open>Rotation with a fault\<close>

text \<open>A log \<open>p\<close> of three files with contents \<open>c\<close>, \<open>b\<close> and \<open>a\<close>, newest first.\<close>

definition three_files :: "string \<Rightarrow> string \<Rightarrow> string \<Rightarrow> string \<Rightarrow> outcome list \<Rightarrow> fs" where
  "three_files p c b a os = \<lparr>fs_entries = (\<lambda>q. if q = log_name p 0 then Some (Regular 0)
       else if q = log_name p 1 then Some (Regular 1) else if q = log_name p 2 then Some (Regular 2) else None),
     fs_bytes = (\<lambda>_. [])(0 := c, 1 := b, 2 := a), fs_mode = (\<lambda>_. 384), fs_next = 3, fs_outcomes = os\<rparr>"

definition three_log :: "string \<Rightarrow> int \<Rightarrow> string \<Rightarrow> rotating_file" where
  "three_log p max_bytes c = \<lparr>rf_path = p, rf_max_bytes = max_bytes, rf_max_files = 3,
     rf_size = int (length c), rf_f = Some 0, rf_closed = False\<rparr>"

lemma three_names:
  "log_name p 0 = p" "log_name p 1 = backup_name p 1" "log_name p 2 = backup_name p 2"
  "p \<noteq> backup_name p 1" "p \<noteq> backup_name p 2" "backup_name p 1 \<noteq> p" "backup_name p 2 \<noteq> p"
  "backup_name p 1 \<noteq> backup_name p 2" "backup_name p 2 \<noteq> backup_name p 1"
  using log_name_inj [of p 0 1] log_name_inj [of p 0 2] log_name_inj [of p 1 2]
  by (auto simp: log_name_def)

text \<open>
  When the rename of the primary file fails once during a rotation, the write of that
  record is refused, and the rotation of the next write drops a backup that the limit on files would
  still keep: of three full files and one new record, \<open>b\<close> is lost and one of the three names stays
  unused.
\<close>
lemma audit_failed_rename_loses_backup:
  assumes full: "int (length c) + int (length r) > B" and fits: "int (length r) \<le> B"
  shows "case rf_write r (three_log p B c) (three_files p c b a [Works, Works, Works, Works, Fails]) of
      (res1, l1, w1) \<Rightarrow> res1 = (0, Some StorageUnavailable)
        \<and> (case rf_write r l1 w1 of (res2, l2, w2) \<Rightarrow>
             res2 = (length r, None) \<and> log_contents l2 w2 = [Some r, Some c, None])"
proof -
  define n1 n2 where n12: "n1 = backup_name p 1" "n2 = backup_name p 2"
  have ne: "p \<noteq> n1" "p \<noteq> n2" "n1 \<noteq> n2" "n1 \<noteq> p" "n2 \<noteq> p" "n2 \<noteq> n1"
    using three_names [of p] by (simp_all add: n12)
  have names: "log_name p 0 = p" "log_name p 1 = n1" "log_name p (Suc 0) = n1" "log_name p 2 = n2" "log_name p (Suc (Suc 0)) = n2"
    using three_names [of p] by (simp_all add: n12 numeral_2_eq_2)
  have shift: "shift_backups p 2 w = (case os_remove n2 w of (err, w) \<Rightarrow>
        if err \<noteq> None \<and> err \<noteq> Some NotExist then (False, w)
        else (case os_rename n1 n2 w of (err, w) \<Rightarrow>
          if err \<noteq> None \<and> err \<noteq> Some NotExist then (False, w)
          else (case os_remove n1 w of (err, w) \<Rightarrow>
            if err \<noteq> None \<and> err \<noteq> Some NotExist then (False, w)
            else (case os_rename p n1 w of (err, w) \<Rightarrow>
              if err \<noteq> None \<and> err \<noteq> Some NotExist then (False, w) else (True, w)))))" for w
    by (simp add: numeral_2_eq_2 n12 Let_def cong: prod.case_cong if_cong)
  let ?bytes = "(\<lambda>_. [])(0 := c, 1 := b, 2 := a)"
  let ?w0 = "\<lparr>fs_entries = (\<lambda>_. None)(p \<mapsto> Regular 0, n1 \<mapsto> Regular 1, n2 \<mapsto> Regular 2), fs_bytes = ?bytes,
    fs_mode = (\<lambda>_. 384), fs_next = 3, fs_outcomes = [Works, Works, Works, Works, Fails]\<rparr>"
  have w0: "three_files p c b a [Works, Works, Works, Works, Fails] = ?w0"
    using ne by (auto simp: three_files_def names fun_eq_iff)
  let ?r0 = "three_log p B c"
  let ?w1 = "\<lparr>fs_entries = (\<lambda>_. None)(p \<mapsto> Regular 0, n2 \<mapsto> Regular 1), fs_bytes = ?bytes,
    fs_mode = (\<lambda>_. 384), fs_next = 3, fs_outcomes = []\<rparr>"
  have e1: "(\<lambda>_. None)(p \<mapsto> Regular 0, n1 \<mapsto> Regular 1, n2 := None, n1 := None, n2 \<mapsto> Regular 1)
      = (\<lambda>_. None)(p \<mapsto> Regular 0, n2 \<mapsto> Regular 1)"
    using ne by (auto simp: fun_eq_iff)
  have "rotate_locked ?r0 ?w0 = (Some StorageUnavailable, ?r0\<lparr>rf_f := None\<rparr>, ?w1)"
    using ne by (simp add: rotate_locked_def three_log_def shift op_check_def next_op_def os_remove_def os_rename_def e1)
  then have 1: "rf_write r ?r0 ?w0 = ((0, Some StorageUnavailable), ?r0\<lparr>rf_f := None\<rparr>, ?w1)"
    using full fits by (simp add: rf_write_def three_log_def)
  let ?l1 = "?r0\<lparr>rf_f := None\<rparr>"
  let ?l2 = "?r0\<lparr>rf_f := Some 3, rf_size := int (length r)\<rparr>"
  let ?w2 = "\<lparr>fs_entries = (\<lambda>_. None)(n1 \<mapsto> Regular 0, p \<mapsto> Regular 3), fs_bytes = ?bytes(3 := r),
    fs_mode = (\<lambda>_. 384), fs_next = 4, fs_outcomes = []\<rparr>"
  have reopen: "reopen_locked ?l1 ?w1 = (None, ?r0, ?w1)"
    using ne by (simp add: reopen_locked_def three_log_def file_size_def open_regular_audit_file_def os_open_def next_op_def
        os_lstat_def op_check_def f_chmod_def fun_upd_idem)
  have e2: "(\<lambda>_. None)(p \<mapsto> Regular 0, n2 := None, p := None, n1 \<mapsto> Regular 0, p \<mapsto> Regular 3)
      = (\<lambda>_. None)(n1 \<mapsto> Regular 0, p \<mapsto> Regular 3)"
    using ne by (auto simp: fun_eq_iff)
  have "rotate_locked ?r0 ?w1 = (None, ?r0\<lparr>rf_f := Some 3, rf_size := 0\<rparr>, ?w2\<lparr>fs_bytes := ?bytes(3 := [])\<rparr>)"
    using ne by (simp add: rotate_locked_def three_log_def shift op_check_def next_op_def os_remove_def os_rename_def
        open_regular_new e2 fun_upd_idem)
  then have 2: "rf_write r ?l1 ?w1 = ((length r, None), ?l2, ?w2)"
    using full fits reopen by (simp add: rf_write_def three_log_def f_write_def next_op_def)
  have "log_contents ?l2 ?w2 = [Some r, Some c, None]"
    using ne by (simp add: log_contents_def three_log_def names file_at_def eval_nat_numeral)
  then show ?thesis unfolding w0 1 prod.case 2 by simp
qed

section \<open>The diagnostic\<close>

text \<open>The results of the writes of a run, and how many of them fail after one that worked.\<close>

fun log_run :: "(audit_event \<Rightarrow> string option) \<Rightarrow> (string \<Rightarrow> 's \<Rightarrow> nat \<times> bool \<times> 's) \<Rightarrow> (time \<times> audit_event) list \<Rightarrow>
    's logger \<Rightarrow> 's logger" where
  "log_run marshal write [] l = l"
| "log_run marshal write ((now, e) # es) l = log_run marshal write es (log_event marshal write now e l)"

fun write_results :: "(audit_event \<Rightarrow> string option) \<Rightarrow> (string \<Rightarrow> 's \<Rightarrow> nat \<times> bool \<times> 's) \<Rightarrow> (time \<times> audit_event) list \<Rightarrow>
    's \<Rightarrow> bool list" where
  "write_results marshal write [] s = []"
| "write_results marshal write ((now, e) # es) s =
     (case marshal (if ae_time e = 0 then e\<lparr>ae_time := now\<rparr> else e) of
        None \<Rightarrow> write_results marshal write es s
      | Some b \<Rightarrow> (case write (b @ [CHR 0x0A]) s of (n, ok, s') \<Rightarrow>
          (ok \<and> n = length b + 1) # write_results marshal write es s'))"

fun failure_starts :: "bool \<Rightarrow> bool list \<Rightarrow> nat" where
  "failure_starts failing [] = 0"
| "failure_starts failing (ok # oks) = (if ok \<or> failing then 0 else 1) + failure_starts (\<not> ok) oks"

text \<open>
  Over any run of events, the diagnostic stream receives the fixed line, and nothing of
  the events, once for each time the writer starts to fail: not again while it keeps failing, and
  again after it has worked.
\<close>
lemma audit_diagnostic_once_per_outage:
  "lg_diagnostic (log_run marshal write es l)
     = lg_diagnostic l @ concat (replicate (failure_starts (lg_failure_reported l)
         (write_results marshal write es (lg_out l))) audit_failed)"
proof (induction es arbitrary: l)
  case (Cons x es)
  obtain now e where x: "x = (now, e)" by fastforce
  let ?e = "if ae_time e = 0 then e\<lparr>ae_time := now\<rparr> else e"
  show ?case
  proof (cases "marshal ?e")
    case None
    with Cons show ?thesis by (simp add: x log_event_def Let_def)
  next
    case (Some b)
    obtain n ok s where w: "write (b @ [CHR 0x0A]) (lg_out l) = (n, ok, s)" by (metis prod_cases3)
    show ?thesis
      using Some w Cons by (simp add: x log_event_def Let_def)
  qed
qed simp

end
