(* ===== verification/AppStart.thy ===== *)
theory AppStart
  imports Tools
begin

text \<open>
  The start of the application (\<open>NewApp\<close> in \<open>internal/mcpserver/app.go\<close>): tokens and redaction rules,
  the certificate pool, the HTTP client with its destinations, and one adapter client for each
  source. The construction of an adapter client is a parameter, as the adapters are in the
  collectors; the iteration order of the source map is the order of its list. Lemmas: every resolved
  token is an exact secret of the engine, every source is a destination, and the first state is in
  order.
\<close>

section \<open>Tokens\<close>

datatype app_error =
    TokenError string string
  | TokenRequired string
  | RedactionError redaction_error
  | CertError string
  | DestError string http_error

definition exact_rule :: "string \<Rightarrow> rule" where
  "exact_rule s = \<lparr>ru_exact = s, ru_regex = []\<rparr>"

text \<open>The rules for one token: the token, and the credential after an authorization scheme.\<close>

definition token_rules :: "unicode \<Rightarrow> string \<Rightarrow> rule list" where
  "token_rules uc token =
     (if token = [] then []
      else exact_rule token # (case cut_at (CHR '' '') token of
          None \<Rightarrow> []
        | Some (scheme, val) \<Rightarrow>
            if equal_fold uc scheme ''bearer'' \<or> equal_fold uc scheme ''basic'' then [exact_rule (trim_space val)] else []))"

fun resolve_tokens ::
  "unicode \<Rightarrow> os_env \<Rightarrow> (string \<times> source) list \<Rightarrow> app_error + (string, string) gomap \<times> rule list" where
  "resolve_tokens uc os [] = Inr ([], [])"
| "resolve_tokens uc os ((name, src) # rest) =
     (case resolve_token os src of
        Inl err \<Rightarrow> Inl (TokenError name err)
      | Inr token \<Rightarrow>
          if src_kind src = ''healthchecks'' \<and> token = [] then Inl (TokenRequired name)
          else (case resolve_tokens uc os rest of
              Inl err \<Rightarrow> Inl err
            | Inr (tokens, rules) \<Rightarrow> Inr ((name, token) # tokens, token_rules uc token @ rules)))"

section \<open>Sources\<close>

text \<open>How a client of each kind is made from its destination name, headers, engine and line limit.\<close>

record client_factory =
  fc_gatus :: "string \<Rightarrow> (string, string) gomap \<Rightarrow> engine \<Rightarrow> gatus_api"
  fc_docker :: "string \<Rightarrow> (string, string) gomap \<Rightarrow> engine \<Rightarrow> snapshot_api"
  fc_loki :: "string \<Rightarrow> (string, string) gomap \<Rightarrow> engine \<Rightarrow> int \<Rightarrow> loki_api"
  fc_hc :: "string \<Rightarrow> (string, string) gomap \<Rightarrow> engine \<Rightarrow> hc_api"
  fc_beszel :: "string \<Rightarrow> (string, string) gomap \<Rightarrow> engine \<Rightarrow> snapshot_api"
  fc_ntfy :: "string \<Rightarrow> (string, string) gomap \<Rightarrow> engine \<Rightarrow> int \<Rightarrow> ntfy_api"

definition no_clients :: clients where
  "no_clients = \<lparr>cl_gatus = [], cl_docker = [], cl_loki = [], cl_hc = [], cl_beszel = [], cl_ntfy = []\<rparr>"

definition add_client ::
  "client_factory \<Rightarrow> engine \<Rightarrow> limits \<Rightarrow> string \<Rightarrow> string \<Rightarrow> (string, string) gomap \<Rightarrow> clients \<Rightarrow> clients" where
  "add_client fc eng l kind name headers cs =
     (if kind = ''gatus'' then cs\<lparr>cl_gatus := AList.update name (fc_gatus fc name headers eng) (cl_gatus cs)\<rparr>
      else if kind = ''docker'' then cs\<lparr>cl_docker := AList.update name (fc_docker fc name headers eng) (cl_docker cs)\<rparr>
      else if kind = ''loki'' then cs\<lparr>cl_loki := AList.update name (fc_loki fc name headers eng (li_max_log_line_bytes l)) (cl_loki cs)\<rparr>
      else if kind = ''healthchecks'' then cs\<lparr>cl_hc := AList.update name (fc_hc fc name headers eng) (cl_hc cs)\<rparr>
      else if kind = ''beszel'' then cs\<lparr>cl_beszel := AList.update name (fc_beszel fc name headers eng) (cl_beszel cs)\<rparr>
      else if kind = ''ntfy'' then cs\<lparr>cl_ntfy := AList.update name (fc_ntfy fc name headers eng (li_max_log_line_bytes l)) (cl_ntfy cs)\<rparr>
      else cs)"

fun add_sources ::
  "http_env \<Rightarrow> client_factory \<Rightarrow> engine \<Rightarrow> limits \<Rightarrow> (string, string) gomap \<Rightarrow> (string \<times> source) list \<Rightarrow>
   http_client \<times> clients \<Rightarrow> app_error + http_client \<times> clients" where
  "add_sources henv fc eng l tokens [] (c, cs) = Inr (c, cs)"
| "add_sources henv fc eng l tokens ((name, src) # rest) (c, cs) =
     (case register_destination henv name (src_base_url src) c of
        Inl err \<Rightarrow> Inl (DestError name err)
      | Inr c \<Rightarrow>
          (let token = (case map_of tokens name of None \<Rightarrow> [] | Some t \<Rightarrow> t);
               headers = auth_headers (hx_unicode henv) src token
           in add_sources henv fc eng l tokens rest (c, add_client fc eng l (src_kind src) name headers cs)))"

definition binding_warnings :: "config \<Rightarrow> string list" where
  "binding_warnings cfg =
     (if li_warn_empty_bindings (cf_limits cfg)
      then map (\<lambda>s. ''service has no source bindings: '' @ sv_id s) (filter (\<lambda>s. \<not> has_any_binding s) (cf_services cfg))
        @ (if cf_services cfg = [] then [''registry has zero services''] else [])
      else [])"

section \<open>NewApp\<close>

text \<open>What the start reads from outside: the regexp compiler, the operating system, the certificate
  pool and parser, the HTTP environment, the random key of the fingerprints, the version and the clock.\<close>

record 'pool start_env =
  se_compile :: "string \<Rightarrow> matcher option"
  se_os :: os_env
  se_system_pool :: 'pool
  se_append_pem :: "'pool \<Rightarrow> string \<Rightarrow> 'pool option"
  se_http :: http_env
  se_random_key :: "string option"
  se_factory :: client_factory
  se_version :: string
  se_now :: time

definition new_app :: "'pool start_env \<Rightarrow> config \<Rightarrow> app_error + app \<times> app_state \<times> string list" where
  "new_app se cfg =
     (let uc = hx_unicode (se_http se); l = cf_limits cfg
      in case resolve_tokens uc (se_os se) (cf_sources cfg) of
          Inl err \<Rightarrow> Inl err
        | Inr (tokens, rules) \<Rightarrow>
            (case new_engine (se_compile se) (rules @ map (\<lambda>r. \<lparr>ru_exact = rr_exact r, ru_regex = rr_regex r\<rparr>) (cf_redact cfg)) of
               Inl err \<Rightarrow> Inl (RedactionError err)
             | Inr eng \<Rightarrow>
                 (case load_extra_cert_pool (se_os se) (se_system_pool se) (se_append_pem se) (tl_ca_file (cf_tls cfg)) of
                    Inl err \<Rightarrow> Inl (CertError err)
                  | Inr roots \<Rightarrow>
                      (let hc = new_locked_client (li_max_body_bytes l) (''homelab-evidence-mcp/'' @ se_version se)
                             (li_source_cache_ttl l) (se_random_key se)
                       in (case add_sources (se_http se) (se_factory se) eng l tokens (cf_sources cfg) (hc, no_clients) of
                             Inl err \<Rightarrow> Inl err
                           | Inr (hc, cs) \<Rightarrow> Inr
                               (\<lparr>ap_cfg = cfg, ap_registry = new_registry cfg,
                                 ap_cc = \<lparr>cc_unicode = uc, cc_engine = eng, cc_clients = cs, cc_limits = l\<rparr>,
                                 ap_version = se_version se\<rparr>,
                                \<lparr>as_http = hc, as_cache = new_cache (li_evidence_cache_ttl l) (li_evidence_cache_max l)
                                   (li_evidence_cache_max_bytes l),
                                 as_budget = new_tool_budget (li_max_tool_calls_per_minute l) (li_max_concurrent_tools l) (se_now se),
                                 as_log = []\<rparr>,
                                binding_warnings cfg))))))"

section \<open>The server\<close>

text \<open>
  \<open>Server\<close>: the tools with their descriptions and hints. The output schemas are derived from the Go
  types by the SDK and are not part of the model.
\<close>

record tool_decl =
  td_name :: string
  td_description :: string
  td_read_only :: bool
  td_idempotent :: bool
  td_open_world :: bool

definition declare_tool :: "string \<Rightarrow> string \<Rightarrow> bool \<Rightarrow> tool_decl" where
  "declare_tool name desc open_world = \<lparr>td_name = name, td_description = desc, td_read_only = True,
     td_idempotent = True, td_open_world = open_world\<rparr>"

definition server_tools :: "tool_decl list" where
  "server_tools = [
     declare_tool ''evidence_capabilities''
       (''Give the server version, active adapters, services with adapters, limits, and compatibility notes. ''
        @ ''The response does not include base URLs or secrets.'') False,
     declare_tool ''list_services''
       (''Give services from the registry with per-source coverage. Use the optional prefix filter and ''
        @ ''pagination.'') False,
     declare_tool ''service_status''
       (''Get a multi-source status snapshot for one service_id (Gatus, Docker, Healthchecks, Beszel). The ''
        @ ''tool does not get data from Loki or ntfy.'') True,
     declare_tool ''incident_context''
       (''Collect a multi-source evidence timeline for a service_id with the limit from the configuration. Use ''
        @ ''compact mode to reserve one item per source and enforce the response byte budget. The correlation ''
        @ ''does not identify a root cause.'') True,
     declare_tool ''search_logs''
       (''Examine Loki logs for a service_id with the selector from the configuration. Use the optional text ''
        @ ''filter. The caller cannot change the URL or stream selector labels.'') True,
     declare_tool ''failed_crons''
       (''Give Healthchecks checks with a current state of down, grace, or paused. The tool does not include ''
        @ ''ping URLs.'') True,
     declare_tool ''get_evidence''
       (''Give one cached evidence item by its opaque process-local id. The cache has a short TTL.'') False]"

section \<open>Lemmas\<close>

lemma resolve_tokens_rules:
  assumes "resolve_tokens uc os srcs = Inr (tokens, rules)" and "(name, src) \<in> set srcs"
  shows "\<exists>t. resolve_token os src = Inr t \<and> set (token_rules uc t) \<subseteq> set rules
    \<and> (src_kind src = ''healthchecks'' \<longrightarrow> t \<noteq> [])"
  using assms
proof (induction srcs arbitrary: tokens rules)
  case (Cons p srcs)
  obtain n s where p: "p = (n, s)" by fastforce
  from Cons.prems(1) obtain t ts rs where t: "resolve_token os s = Inr t" "\<not> (src_kind s = ''healthchecks'' \<and> t = [])"
    "resolve_tokens uc os srcs = Inr (ts, rs)" "rules = token_rules uc t @ rs"
    by (auto simp: p split: sum.splits if_splits)
  from Cons.prems(2) consider "src = s" | "(name, src) \<in> set srcs" by (auto simp: p)
  then show ?case
  proof cases
    case 1
    with t show ?thesis by auto
  next
    case 2
    from Cons.IH [OF t(3) 2] t(4) show ?thesis by auto
  qed
qed simp

text \<open>
  The secrets of a token, stated on the token alone: the whole of it, and where it is \<open>Bearer\<close> or
  \<open>Basic\<close> in any letter case, a space and a credential, that credential without the white space
  around it.
\<close>

definition token_secrets :: "unicode \<Rightarrow> string \<Rightarrow> string set" where
  "token_secrets uc t = {x. x \<noteq> [] \<and> (x = t \<or>
     (\<exists>scheme rest. t = scheme @ '' '' @ rest \<and> CHR '' '' \<notin> set scheme \<and> x = trim_space rest
        \<and> (equal_fold uc scheme ''bearer'' \<or> equal_fold uc scheme ''basic'')))}"

lemma cut_at_append: "c \<notin> set s \<Longrightarrow> cut_at c (s @ [c] @ rest) = Some (s, rest)"
proof -
  assume "c \<notin> set s"
  then have "takeWhile (\<lambda>x. x \<noteq> c) (s @ c # rest) = s" "dropWhile (\<lambda>x. x \<noteq> c) (s @ c # rest) = c # rest"
    by (induction s) auto
  then show ?thesis by (simp add: cut_at_def)
qed

lemma token_secrets_ruled:
  assumes "x \<in> token_secrets uc t"
  shows "x \<noteq> [] \<and> (\<exists>r \<in> set (token_rules uc t). ru_exact r = x)"
proof -
  from assms consider "x = t" "x \<noteq> []"
    | scheme rest where "x \<noteq> []" "t = scheme @ [CHR '' ''] @ rest" "CHR '' '' \<notin> set scheme" "x = trim_space rest"
        "equal_fold uc scheme ''bearer'' \<or> equal_fold uc scheme ''basic''"
    unfolding token_secrets_def by auto
  then show ?thesis
  proof cases
    case 1
    then show ?thesis by (simp add: token_rules_def exact_rule_def)
  next
    case 2
    from 2 cut_at_append [OF 2(3), of rest] show ?thesis by (simp add: token_rules_def exact_rule_def)
  qed
qed

lemma add_sources_ok:
  "add_sources henv fc eng l tokens srcs (c, cs) = Inr (c', cs') \<Longrightarrow>
    ht_cache c' = ht_cache c \<and> fst ` set srcs \<subseteq> dom (map_of (ht_destinations c'))
      \<and> dom (map_of (ht_destinations c)) \<subseteq> dom (map_of (ht_destinations c'))"
proof (induction srcs arbitrary: c cs)
  case (Cons p srcs)
  obtain n s where p: "p = (n, s)" by fastforce
  from Cons.prems obtain c1 cs1 where c1: "register_destination henv n (src_base_url s) c = Inr c1"
    and rest: "add_sources henv fc eng l tokens srcs (c1, cs1) = Inr (c', cs')"
    by (auto simp: p Let_def split: sum.splits)
  have ih: "ht_cache c' = ht_cache c1" "fst ` set srcs \<subseteq> dom (map_of (ht_destinations c'))"
    "dom (map_of (ht_destinations c1)) \<subseteq> dom (map_of (ht_destinations c'))"
    using Cons.IH [OF rest] by simp_all
  have 1: "ht_cache c1 = ht_cache c" "dom (map_of (ht_destinations c1)) = insert n (dom (map_of (ht_destinations c)))"
    using c1 by (auto simp: register_destination_def Let_def gomap_simps split: if_splits option.splits)
  have "fst ` set (p # srcs) = insert n (fst ` set srcs)" by (simp add: p)
  with ih 1 show ?case by (metis insert_subset)
qed simp

lemma new_hcache_ok: "hc_ok (new_hcache ttl)"
  by (simp add: hc_ok_def hc_inv_def new_hcache_def gm_len_def bodies_size_def http_cache_bytes_def http_cache_entries_def)

lemma new_tool_budget_ok: "0 \<le> tb_sem (new_tool_budget a b now) \<and> tb_sem (new_tool_budget a b now) \<le> tb_cap (new_tool_budget a b now)"
  by (simp add: new_tool_budget_def)

lemma new_app_parts:
  assumes "new_app se cfg = Inr (ap, st, ws)"
  obtains tokens rules where "resolve_tokens (hx_unicode (se_http se)) (se_os se) (cf_sources cfg) = Inr (tokens, rules)"
    "new_engine (se_compile se) (rules @ map (\<lambda>r. \<lparr>ru_exact = rr_exact r, ru_regex = rr_regex r\<rparr>) (cf_redact cfg))
      = Inr (cc_engine (ap_cc ap))"
    "add_sources (se_http se) (se_factory se) (cc_engine (ap_cc ap)) (cf_limits cfg) tokens (cf_sources cfg)
      (new_locked_client (li_max_body_bytes (cf_limits cfg)) (''homelab-evidence-mcp/'' @ se_version se)
         (li_source_cache_ttl (cf_limits cfg)) (se_random_key se), no_clients) = Inr (as_http st, cc_clients (ap_cc ap))"
    "ap_cfg ap = cfg" "ap_registry ap = new_registry cfg"
    "state_ok st" "as_log st = []"
proof -
  from assms obtain tokens rules eng roots hc cs where p:
    "resolve_tokens (hx_unicode (se_http se)) (se_os se) (cf_sources cfg) = Inr (tokens, rules)"
    "new_engine (se_compile se) (rules @ map (\<lambda>r. \<lparr>ru_exact = rr_exact r, ru_regex = rr_regex r\<rparr>) (cf_redact cfg)) = Inr eng"
    "add_sources (se_http se) (se_factory se) eng (cf_limits cfg) tokens (cf_sources cfg)
      (new_locked_client (li_max_body_bytes (cf_limits cfg)) (''homelab-evidence-mcp/'' @ se_version se)
         (li_source_cache_ttl (cf_limits cfg)) (se_random_key se), no_clients) = Inr (hc, cs)"
    "ap = \<lparr>ap_cfg = cfg, ap_registry = new_registry cfg,
        ap_cc = \<lparr>cc_unicode = hx_unicode (se_http se), cc_engine = eng, cc_clients = cs, cc_limits = cf_limits cfg\<rparr>,
        ap_version = se_version se\<rparr>"
    "st = \<lparr>as_http = hc, as_cache = new_cache (li_evidence_cache_ttl (cf_limits cfg)) (li_evidence_cache_max (cf_limits cfg))
          (li_evidence_cache_max_bytes (cf_limits cfg)),
        as_budget = new_tool_budget (li_max_tool_calls_per_minute (cf_limits cfg)) (li_max_concurrent_tools (cf_limits cfg)) (se_now se),
        as_log = []\<rparr>"
    unfolding new_app_def Let_def by (auto split: sum.splits)
  show ?thesis
    by (rule that [OF p(1)])
      (use p(2-5) add_sources_ok [OF p(3)] in
        \<open>simp_all add: state_ok_def new_cache_ok new_hcache_ok new_tool_budget_ok new_locked_client_def\<close>)
qed

section \<open>Properties\<close>

text \<open>
  Property C7: after a successful start, for every token that a configured source resolves to, the
  text of any error, log field or upstream record that goes through the engine keeps no piece that
  contains the token, or the credential that follows its \<open>Bearer\<close> or \<open>Basic\<close> scheme: such a text is
  cut into kept pieces and gaps, and only the kept pieces and the marker are output.
\<close>
theorem new_app_hides_tokens:
  assumes app: "new_app se cfg = Inr (ap, st, ws)" and src: "(name, src) \<in> set (cf_sources cfg)"
    and secret: "resolve_token (se_os se) src = Inr t" "x \<in> token_secrets (hx_unicode (se_http se)) t"
  shows "\<exists>g gs gaps. redact_apply (Some (cc_engine (ap_cc ap))) s
       = (sanitize_control (str_join replacement (g # gs)), int (length gaps))
     \<and> s = weave (g # gs) gaps \<and> length gs = length gaps \<and> (\<forall>k \<in> set (g # gs). \<not> str_contains k x)"
proof -
  obtain tokens rules where p: "resolve_tokens (hx_unicode (se_http se)) (se_os se) (cf_sources cfg) = Inr (tokens, rules)"
    "new_engine (se_compile se) (rules @ map (\<lambda>r. \<lparr>ru_exact = rr_exact r, ru_regex = rr_regex r\<rparr>) (cf_redact cfg))
      = Inr (cc_engine (ap_cc ap))"
    using app by (rule new_app_parts)
  from resolve_tokens_rules [OF p(1) src] secret(1) have "set (token_rules (hx_unicode (se_http se)) t) \<subseteq> set rules" by auto
  with token_secrets_ruled [OF secret(2)] new_engine_keeps_builtins [OF p(2)]
  have x: "x \<in> set (en_exact (cc_engine (ap_cc ap)))" "x \<noteq> []" by (auto simp: image_iff)
  with redact_hides_exact [of "cc_engine (ap_cc ap)" s] show ?thesis by blast
qed

text \<open>One Docker source whose token is read from the environment.\<close>

definition example_start :: "unit start_env" where
  "example_start = \<lparr>se_compile = (\<lambda>_. Some (\<lambda>_. [])), se_os = example_os, se_system_pool = (), se_append_pem = (\<lambda>_ _. None),
     se_http = example_http_env, se_random_key = Some ''k'',
     se_factory = \<lparr>fc_gatus = (\<lambda>_ _ _. undefined), fc_docker = (\<lambda>_ _ _ _ _. Inr []), fc_loki = (\<lambda>_ _ _ _. undefined),
       fc_hc = (\<lambda>_ _ _. undefined), fc_beszel = (\<lambda>_ _ _ _ _. Inr []), fc_ntfy = (\<lambda>_ _ _ _. undefined)\<rparr>,
     se_version = ''1'', se_now = 0\<rparr>"

definition example_docker :: source where
  "example_docker = example_source\<lparr>src_kind := ''docker'', src_token_env := ''T''\<rparr>"

definition example_start_config :: config where
  "example_start_config = example_config\<lparr>cf_sources := [(''d'', example_docker)], cf_redact := [], cf_tls := \<lparr>tl_ca_file = []\<rparr>\<rparr>"

lemma example_token: "resolve_token example_os example_docker = Inr ''k''"
  by (simp add: resolve_token_def example_os_def example_text example_docker_def)

lemma example_started_with:
  assumes "resolve_token os example_docker = Inr t"
  shows "\<exists>ap st ws. new_app (example_start\<lparr>se_os := os\<rparr>) example_start_config = Inr (ap, st, ws)"
proof -
  let ?uc = "hx_unicode example_http_env"
  have rules: "resolve_tokens ?uc os [(''d'', example_docker)] = Inr ([(''d'', t)], token_rules ?uc t)"
    using assms by (auto simp: example_docker_def)
  let ?c = "\<lambda>p :: string. Some (\<lambda>s :: string. [] :: (nat \<times> nat) list)"
  have "\<exists>e'. compile_builtins ?c ps e = Inr e'" for ps e
    by (induction ps arbitrary: e) auto
  moreover have "\<exists>e'. compile_rules ?c i rs e = Inr e'" if "\<forall>r \<in> set rs. ru_regex r = []" for i rs e
    using that by (induction rs arbitrary: i e) (auto simp: Let_def)
  moreover have "\<forall>r \<in> set (token_rules ?uc t). ru_regex r = []"
    by (auto simp: token_rules_def exact_rule_def split: option.splits if_splits)
  ultimately obtain e where e: "new_engine ?c (token_rules ?uc t) = Inr e"
    unfolding new_engine_def by (metis (no_types, lifting) sum.case(2))
  have dest: "\<exists>c'. register_destination example_http_env ''d'' (src_base_url example_docker) c = Inr c'"
    if "ht_destinations c = []" for c
    using that
    by (simp add: register_destination_def example_http_env_def example_docker_def example_source_def example_text Let_def)
  let ?l = "cf_limits example_config"
  obtain c where c: "register_destination example_http_env ''d'' (src_base_url example_docker)
      (new_locked_client (li_max_body_bytes ?l) (''homelab-evidence-mcp/'' @ ''1'') (li_source_cache_ttl ?l) (Some ''k'')) = Inr c"
    using dest [of "new_locked_client (li_max_body_bytes ?l) (''homelab-evidence-mcp/'' @ ''1'') (li_source_cache_ttl ?l) (Some ''k'')"]
    by (auto simp: new_locked_client_def)
  show ?thesis
    using rules e c
    by (simp add: new_app_def example_start_def example_start_config_def Let_def load_extra_cert_pool_def)
qed

lemma example_started: "\<exists>ap st ws. new_app example_start example_start_config = Inr (ap, st, ws)"
  using example_started_with [OF example_token] by (simp add: example_start_def)

text \<open>The same source with a token that has a scheme: the credential alone is a secret too.\<close>

definition example_bearer_os :: os_env where
  "example_bearer_os = example_os\<lparr>oe_getenv := (\<lambda>v. ''Bearer k'')\<rparr>"

lemma example_bearer: "resolve_token example_bearer_os example_docker = Inr ''Bearer k''"
  by (simp add: resolve_token_def example_bearer_os_def example_docker_def ascii_eval trim_space_def space_chunk_def is_space_def)

lemma example_bearer_secret: "''k'' \<in> token_secrets (hx_unicode example_http_env) ''Bearer k''"
proof -
  have "''Bearer k'' = ''Bearer'' @ '' '' @ ''k''" "CHR '' '' \<notin> set ''Bearer''" by simp_all
  moreover have "equal_fold (hx_unicode example_http_env) ''Bearer'' ''bearer''"
    by (simp add: equal_fold_def ascii_eval fold_rune_def ascii_lower_def)
  ultimately show ?thesis
    unfolding token_secrets_def using example_text(4) by fastforce
qed

lemma new_app_hides_tokens_witness:
  "\<exists>ap st ws g gs gaps. new_app (example_start\<lparr>se_os := example_bearer_os\<rparr>) example_start_config = Inr (ap, st, ws)
     \<and> redact_apply (Some (cc_engine (ap_cc ap))) ''ak b''
         = (sanitize_control (str_join replacement (g # gs)), int (length gaps))
     \<and> ''ak b'' = weave (g # gs) gaps \<and> (\<forall>k \<in> set (g # gs). \<not> str_contains k ''k'')"
proof -
  let ?se = "example_start\<lparr>se_os := example_bearer_os\<rparr>"
  obtain ap st ws where app: "new_app ?se example_start_config = Inr (ap, st, ws)"
    using example_started_with [OF example_bearer] by blast
  have src: "(''d'', example_docker) \<in> set (cf_sources example_start_config)" by (simp add: example_start_config_def)
  have tok: "resolve_token (se_os ?se) example_docker = Inr ''Bearer k''" by (simp add: example_bearer)
  have "''k'' \<in> token_secrets (hx_unicode (se_http ?se)) ''Bearer k''"
    using example_bearer_secret by (simp add: example_start_def)
  from new_app_hides_tokens [OF app src tok this, of "''ak b''"] app show ?thesis by blast
qed

text \<open>A session: the tool calls of one client, in order, each with what the outside answers to it.\<close>

fun serve :: "app \<Rightarrow> (tool_env \<times> tool_request) list \<Rightarrow> app_state \<Rightarrow> (call_result list \<times> app_state) option" where
  "serve ap [] st = Some ([], st)"
| "serve ap ((env, req) # rest) st =
     (case call_tool ap env req st of
        None \<Rightarrow> None
      | Some (r, st) \<Rightarrow> map_option (\<lambda>(rs, st). (r # rs, st)) (serve ap rest st))"

lemma serve_ok:
  assumes "state_ok st"
  shows "\<exists>rs st'. serve ap calls st = Some (rs, st') \<and> state_ok st' \<and> tb_sem (as_budget st') = tb_sem (as_budget st)
    \<and> length rs = length calls \<and> map ae_tool (as_log st') = map ae_tool (as_log st) @ map (\<lambda>(_, req). tool_name req) calls"
  using assms
proof (induction calls arbitrary: st)
  case (Cons c calls)
  obtain env req where c: "c = (env, req)" by fastforce
  have "call_ok (tool_name req) st (call_tool ap env req st)"
    using tools_ok [OF Cons.prems] by (cases req) simp_all
  then obtain r st1 e where 1: "call_tool ap env req st = Some (r, st1)" "state_ok st1"
    "tb_sem (as_budget st1) = tb_sem (as_budget st)" "as_log st1 = as_log st @ [e]" "ae_tool e = tool_name req"
    unfolding call_ok_def by blast
  from Cons.IH [OF 1(2)] obtain rs st' where "serve ap calls st1 = Some (rs, st')" "state_ok st'"
    "tb_sem (as_budget st') = tb_sem (as_budget st1)" "length rs = length calls"
    "map ae_tool (as_log st') = map ae_tool (as_log st1) @ map (\<lambda>(_, req). tool_name req) calls" by blast
  with 1 show ?case by (simp add: c)
qed simp

text \<open>
  Property C36: a successful start registers every configured source as a destination, and from its
  state every sequence of tool calls is answered call by call: no call gets stuck, and after each one
  the caches are within their limits, no place in the budget is lost, and there is one audit event
  for each call.
\<close>

theorem served_sessions:
  assumes "new_app se cfg = Inr (ap, st, ws)"
  shows "fst ` set (cf_sources cfg) \<subseteq> dom (map_of (ht_destinations (as_http st)))
    \<and> (\<exists>rs st'. serve ap calls st = Some (rs, st') \<and> state_ok st' \<and> tb_sem (as_budget st') = tb_sem (as_budget st)
         \<and> length rs = length calls \<and> map ae_tool (as_log st') = map (\<lambda>(_, req). tool_name req) calls)"
proof -
  obtain tokens where p: "add_sources (se_http se) (se_factory se) (cc_engine (ap_cc ap)) (cf_limits cfg) tokens (cf_sources cfg)
      (new_locked_client (li_max_body_bytes (cf_limits cfg)) (''homelab-evidence-mcp/'' @ se_version se)
         (li_source_cache_ttl (cf_limits cfg)) (se_random_key se), no_clients) = Inr (as_http st, cc_clients (ap_cc ap))"
    and st: "state_ok st" "as_log st = []"
    using assms by (rule new_app_parts)
  from add_sources_ok [OF p] serve_ok [OF st(1), of ap calls] st(2) show ?thesis by simp
qed

lemma served_sessions_witness:
  "\<exists>ap st ws rs st'. new_app example_start example_start_config = Inr (ap, st, ws)
     \<and> ''d'' \<in> dom (map_of (ht_destinations (as_http st)))
     \<and> serve ap [(example_tool_env, Capabilities), (example_tool_env, GetEvidence ''x'')] st = Some (rs, st')
     \<and> length rs = 2 \<and> map ae_tool (as_log st') = [''evidence_capabilities'', ''get_evidence'']"
proof -
  obtain ap st ws where app: "new_app example_start example_start_config = Inr (ap, st, ws)"
    using example_started by blast
  from served_sessions [OF app, of "[(example_tool_env, Capabilities), (example_tool_env, GetEvidence ''x'')]"] app show ?thesis
    by (auto simp: example_start_config_def)
qed

lemma closed_tools:
  assumes "d \<in> set server_tools" and "td_name d = tool_name req" and "\<not> td_open_world d"
  shows "req = Capabilities \<or> (\<exists>p m n. req = ListServices p m n) \<or> (\<exists>i. req = GetEvidence i)"
  using assms by (cases req) (auto simp: server_tools_def declare_tool_def)

lemma tool_error_other_clients [simp]:
  "tool_error (ap\<lparr>ap_cc := (ap_cc ap)\<lparr>cc_clients := cs\<rparr>\<rparr>) env tool sid err st = tool_error ap env tool sid err st"
  by (simp add: tool_error_def)

lemma with_budget_other_clients [simp]:
  "with_budget (ap\<lparr>ap_cc := (ap_cc ap)\<lparr>cc_clients := cs\<rparr>\<rparr>) env tool fn st = with_budget ap env tool fn st"
  by (auto simp: with_budget_def split: option.split prod.split bool.split)

lemma tool_names_declared: "map td_name server_tools = tool_names"
  by (simp add: server_tools_def declare_tool_def tool_names_def)

text \<open>
  The server declares the seven tools under the names by which they are dispatched, all as
  read-only and idempotent, and a tool that it declares closed to the outside asks no source: its answer
  and the next state are the same whatever the source clients are.
\<close>
lemma closed_tools_ask_no_source:
  assumes "d \<in> set server_tools" and "td_name d = tool_name req" and "\<not> td_open_world d"
  shows "td_read_only d \<and> td_idempotent d
    \<and> call_tool (ap\<lparr>ap_cc := (ap_cc ap)\<lparr>cc_clients := cs\<rparr>\<rparr>) env req st = call_tool ap env req st"
proof (intro conjI)
  show "td_read_only d" "td_idempotent d" using assms(1) by (auto simp: server_tools_def declare_tool_def)
  show "call_tool (ap\<lparr>ap_cc := (ap_cc ap)\<lparr>cc_clients := cs\<rparr>\<rparr>) env req st = call_tool ap env req st"
    using closed_tools [OF assms]
    by (elim disjE exE) (simp_all add: tool_capabilities_def tool_list_services_def tool_get_evidence_def cong: if_cong let_cong option.case_cong prod.case_cong)
qed

end
