(* ===== verification/Doctor.thy ===== *)
theory Doctor
  imports Tools
begin

text \<open>
  The network diagnostic (\<open>internal/mcpserver/doctor.go\<close>): every service binding runs its collector,
  and the outcome is recorded under the source it names. The order of the bindings is the order of
  the services and, inside a service, the fixed order of the kinds. Lemmas: what a source collects over
  all bindings, and the status as the worst one; the report against that specification.
\<close>

section \<open>Reports\<close>

record doctor_binding =
  db_service_id :: string
  db_status :: status
  db_reason :: string
  db_complete :: bool
  db_item_count :: int

record doctor_source =
  ds_name :: string
  ds_kind :: string
  ds_status :: string
  ds_reason :: string
  ds_error :: string
  ds_complete :: bool
  ds_capabilities :: "string list"
  ds_bindings :: "doctor_binding list"

record doctor_report =
  dr_version :: string
  dr_transport :: string
  dr_readonly :: bool
  dr_services_count :: nat
  dr_complete :: bool
  dr_sources :: "doctor_source list"
  dr_warnings :: "string list"

section \<open>One binding\<close>

definition doctor_status_for_outcome :: "source_outcome \<Rightarrow> string" where
  "doctor_status_for_outcome o1 =
     (case so_status o1 of
        StOk \<Rightarrow> if so_complete o1 then ''ok'' else ''partial''
      | StTimeout \<Rightarrow> ''timeout''
      | StCanceled \<Rightarrow> ''canceled''
      | _ \<Rightarrow> ''error'')"

definition doctor_ranks :: "(string, nat) gomap" where
  "doctor_ranks = [(''unbound'', 0), (''ok'', 1), (''partial'', 2), (''canceled'', 3), (''timeout'', 4), (''error'', 5)]"

definition doctor_rank :: "string \<Rightarrow> nat" where
  "doctor_rank s = (case map_of doctor_ranks s of None \<Rightarrow> 0 | Some r \<Rightarrow> r)"

definition worse_doctor_status :: "string \<Rightarrow> string \<Rightarrow> string" where
  "worse_doctor_status current next = (if doctor_rank next > doctor_rank current then next else current)"

definition adapter_capabilities :: "string \<Rightarrow> string list" where
  "adapter_capabilities kind =
     (if kind = ''gatus'' then [''service_status'', ''incident_context'', ''historical_results'']
      else if kind = ''docker'' then [''service_status'', ''incident_context'', ''current_snapshot'']
      else if kind = ''loki'' then [''search_logs'', ''incident_context'', ''historical_results'']
      else if kind = ''healthchecks'' then [''service_status'', ''failed_crons'', ''current_state'']
      else if kind = ''beszel'' then [''service_status'', ''incident_context'', ''current_snapshot'']
      else if kind = ''ntfy'' then [''incident_context'', ''stored_notifications'']
      else [])"

definition binding_of :: "string \<Rightarrow> source_outcome \<Rightarrow> doctor_binding" where
  "binding_of sid o1 = \<lparr>db_service_id = sid, db_status = so_status o1, db_reason = so_reason o1,
     db_complete = so_complete o1, db_item_count = so_item_count o1\<rparr>"

definition record_outcome :: "string \<Rightarrow> source_outcome \<Rightarrow> doctor_source \<Rightarrow> doctor_source" where
  "record_outcome sid o1 ds =
     (let ds = ds\<lparr>ds_bindings := ds_bindings ds @ [binding_of sid o1]\<rparr>;
          ds = (if so_status o1 \<noteq> StOk \<or> \<not> so_complete o1
                then ds\<lparr>ds_error := so_error o1, ds_reason := (if ds_reason ds = [] then so_reason o1 else ds_reason ds)\<rparr>
                else ds)
      in ds\<lparr>ds_status := worse_doctor_status (ds_status ds) (doctor_status_for_outcome o1)\<rparr>)"

text \<open>A source that is not configured is not asked.\<close>

definition doctor_check ::
  "collect_ctx \<Rightarrow> (string \<Rightarrow> source_kind \<Rightarrow> run_env) \<Rightarrow> string \<times> collection \<Rightarrow>
   (string, doctor_source) gomap \<Rightarrow> (string, doctor_source) gomap" where
  "doctor_check cc env = (\<lambda>(sid, c) by_name.
     case map_of by_name (collection_source c) of
       None \<Rightarrow> by_name
     | Some ds \<Rightarrow>
         (let (o1, _) = collect cc (env sid (collection_kind c)) sid c
          in AList.update (collection_source c) (record_outcome sid o1 ds) by_name))"

section \<open>The report\<close>

definition bound :: "('a \<Rightarrow> collection) \<Rightarrow> 'a option \<Rightarrow> collection list" where
  "bound f ref = (case ref of None \<Rightarrow> [] | Some r \<Rightarrow> [f r])"

definition doctor_collections :: "time \<Rightarrow> time \<Rightarrow> service \<Rightarrow> (string \<times> collection) list" where
  "doctor_collections st now svc =
     (let ss = sv_sources svc
      in map (Pair (sv_id svc))
          (bound GatusStatus (ss_gatus ss) @ bound DockerStatus (ss_docker ss) @ bound HcStatus (ss_healthchecks ss)
            @ bound Beszel (ss_beszel ss) @ bound (\<lambda>r. LokiSearch r st now [] [] 1) (ss_loki ss)
            @ bound (\<lambda>r. Ntfy r st now 1) (ss_ntfy ss)))"

definition unbound_source :: "string \<Rightarrow> source \<Rightarrow> doctor_source" where
  "unbound_source name src = \<lparr>ds_name = name, ds_kind = src_kind src, ds_status = ''unbound'', ds_reason = [], ds_error = [],
     ds_complete = True, ds_capabilities = adapter_capabilities (src_kind src), ds_bindings = []\<rparr>"

definition binding_less :: "doctor_binding \<Rightarrow> doctor_binding \<Rightarrow> bool" where
  "binding_less a b = (db_service_id a < db_service_id b)"

definition finish_source :: "doctor_source \<Rightarrow> doctor_report \<Rightarrow> doctor_report" where
  "finish_source ds rep =
     (let ds = ds\<lparr>ds_bindings := slice_stable binding_less (ds_bindings ds)\<rparr>;
          (ds, rep) =
            (if ds_status ds = ''ok'' then (ds\<lparr>ds_complete := True\<rparr>, rep)
             else if ds_status ds = ''unbound''
             then (ds\<lparr>ds_complete := True\<rparr>,
                   rep\<lparr>dr_warnings := dr_warnings rep
                     @ [''source '' @ ds_name ds @ '' has no service binding; no source request was made'']\<rparr>)
             else (ds\<lparr>ds_complete := False\<rparr>, rep\<lparr>dr_complete := False\<rparr>))
      in rep\<lparr>dr_sources := dr_sources rep @ [ds]\<rparr>)"

definition doctor :: "app \<Rightarrow> (string \<Rightarrow> source_kind \<Rightarrow> run_env) \<Rightarrow> time \<Rightarrow> doctor_report" where
  "doctor ap env now =
     (let srcs = cf_sources (ap_cfg ap);
          by_name = map (\<lambda>(name, src). (name, unbound_source name src)) srcs;
          names = sort (map fst srcs);
          by_name = fold (doctor_check (ap_cc ap) env)
            (concat (map (doctor_collections (now - 5 * minute) now) (cf_services (ap_cfg ap)))) by_name;
          rep = \<lparr>dr_version = ap_version ap, dr_transport = ''stdio'', dr_readonly = True,
            dr_services_count = registry_len (ap_registry ap), dr_complete = True, dr_sources = [], dr_warnings = []\<rparr>
      in fold (\<lambda>name. finish_source (the (map_of by_name name))) names rep)"

definition doctor_summary :: "doctor_report \<Rightarrow> string" where
  "doctor_summary rep =
     (let count = (\<lambda>st. length (filter (\<lambda>ds. ds_status ds = st) (dr_sources rep)));
          parts = map (\<lambda>st. st @ ''='' @ show_int (int (count st)))
            (filter (\<lambda>st. count st > 0) [''ok'', ''partial'', ''unbound'', ''canceled'', ''timeout'', ''error''])
      in ''doctor: '' @ show_int (int (length (dr_sources rep))) @ '' source(s), '' @ str_join '' '' parts)"

section \<open>Lemmas\<close>

text \<open>What the collectors return for the bindings of one source, in the order of the checks.\<close>

definition doctor_outcomes ::
  "collect_ctx \<Rightarrow> (string \<Rightarrow> source_kind \<Rightarrow> run_env) \<Rightarrow> (string \<times> collection) list \<Rightarrow> string \<Rightarrow>
   (string \<times> source_outcome) list" where
  "doctor_outcomes cc env checks name =
     map (\<lambda>(sid, c). (sid, fst (collect cc (env sid (collection_kind c)) sid c)))
       (filter (\<lambda>(sid, c). collection_source c = name) checks)"

lemma doctor_check_at:
  "map_of (doctor_check cc env (sid, c) m) name
     = (if collection_source c = name
        then map_option (record_outcome sid (fst (collect cc (env sid (collection_kind c)) sid c))) (map_of m name)
        else map_of m name)"
  by (auto simp: doctor_check_def update_conv' split: option.split prod.split)

lemma doctor_checks_at:
  "map_of (fold (doctor_check cc env) checks m) name
     = map_option (fold (\<lambda>(sid, o1). record_outcome sid o1) (doctor_outcomes cc env checks name)) (map_of m name)"
proof (induction checks arbitrary: m)
  case Nil
  show ?case by (simp add: doctor_outcomes_def option.map_ident)
next
  case (Cons x checks)
  obtain sid c where x: "x = (sid, c)" by fastforce
  show ?case
    by (simp add: Cons.IH x doctor_check_at doctor_outcomes_def option.map_comp comp_def)
qed

lemma record_outcome_simps [simp]:
  "ds_name (record_outcome sid o1 ds) = ds_name ds" "ds_kind (record_outcome sid o1 ds) = ds_kind ds"
  "ds_capabilities (record_outcome sid o1 ds) = ds_capabilities ds"
  "ds_bindings (record_outcome sid o1 ds) = ds_bindings ds @ [binding_of sid o1]"
  "ds_status (record_outcome sid o1 ds) = worse_doctor_status (ds_status ds) (doctor_status_for_outcome o1)"
  by (simp_all add: record_outcome_def Let_def)

lemma record_outcomes:
  "ds_name (fold (\<lambda>(sid, o1). record_outcome sid o1) os ds) = ds_name ds"
  "ds_bindings (fold (\<lambda>(sid, o1). record_outcome sid o1) os ds) = ds_bindings ds @ map (\<lambda>(sid, o1). binding_of sid o1) os"
  "ds_status (fold (\<lambda>(sid, o1). record_outcome sid o1) os ds)
     = fold (\<lambda>st cur. worse_doctor_status cur st) (map (\<lambda>(sid, o1). doctor_status_for_outcome o1) os) (ds_status ds)"
  by (induction os arbitrary: ds) auto

abbreviation worst_status :: "string list \<Rightarrow> string \<Rightarrow> string" where
  "worst_status \<equiv> fold (\<lambda>st cur. worse_doctor_status cur st)"

lemma worse_rank:
  "doctor_rank s \<le> doctor_rank (worse_doctor_status s a)" "doctor_rank a \<le> doctor_rank (worse_doctor_status s a)"
  "worse_doctor_status s a \<in> {s, a}"
  by (simp_all add: worse_doctor_status_def)

lemma worst_status_from: "worst_status sts s \<in> insert s (set sts)"
proof (induction sts arbitrary: s)
  case (Cons a sts)
  show ?case using Cons [of "worse_doctor_status s a"] worse_rank(3) [of s a] by auto
qed simp

lemma worst_status_start: "doctor_rank s \<le> doctor_rank (worst_status sts s)"
  by (induction sts arbitrary: s) (auto intro: order_trans [OF worse_rank(1)])

lemma worst_status_rank: "st \<in> set sts \<Longrightarrow> doctor_rank st \<le> doctor_rank (worst_status sts s)"
proof (induction sts arbitrary: s)
  case (Cons a sts)
  show ?case
  proof (cases "st = a")
    case True
    then show ?thesis using order_trans [OF worse_rank(2) [of a s] worst_status_start] by simp
  next
    case False
    with Cons show ?thesis by simp
  qed
qed simp

lemma outcome_status_rank:
  "doctor_status_for_outcome o1 \<in> {''ok'', ''unbound''} \<longleftrightarrow> so_status o1 = StOk \<and> so_complete o1"
  "1 < doctor_rank (doctor_status_for_outcome o1) \<longleftrightarrow> \<not> (so_status o1 = StOk \<and> so_complete o1)"
  by (auto simp: doctor_status_for_outcome_def doctor_rank_def doctor_ranks_def split: status.split)

text \<open>The last step of a source, apart from its effect on the report.\<close>

definition all_well :: "doctor_source \<Rightarrow> bool" where
  "all_well ds \<longleftrightarrow> ds_status ds \<in> {''ok'', ''unbound''}"

definition closed_source :: "doctor_source \<Rightarrow> doctor_source" where
  "closed_source ds = ds\<lparr>ds_bindings := slice_stable binding_less (ds_bindings ds), ds_complete := all_well ds\<rparr>"

lemma finish_source_parts:
  "dr_sources (finish_source ds rep) = dr_sources rep @ [closed_source ds]"
  "dr_complete (finish_source ds rep) = (dr_complete rep \<and> all_well ds)"
  by (auto simp: finish_source_def closed_source_def all_well_def Let_def)

lemma finish_sources:
  "dr_sources (fold (\<lambda>n. finish_source (f n)) ns rep) = dr_sources rep @ map (\<lambda>n. closed_source (f n)) ns"
  "dr_complete (fold (\<lambda>n. finish_source (f n)) ns rep) = (dr_complete rep \<and> list_all (\<lambda>n. all_well (f n)) ns)"
  by (induction ns arbitrary: rep) (auto simp: finish_source_parts)

text \<open>All checks of a run, and the state of a source after them.\<close>

definition doctor_checks :: "app \<Rightarrow> time \<Rightarrow> (string \<times> collection) list" where
  "doctor_checks ap now = concat (map (doctor_collections (now - 5 * minute) now) (cf_services (ap_cfg ap)))"

definition source_checks ::
  "app \<Rightarrow> (string \<Rightarrow> source_kind \<Rightarrow> run_env) \<Rightarrow> time \<Rightarrow> string \<Rightarrow> (string \<times> source_outcome) list" where
  "source_checks ap env now = doctor_outcomes (ap_cc ap) env (doctor_checks ap now)"

definition checked_source :: "app \<Rightarrow> (string \<Rightarrow> source_kind \<Rightarrow> run_env) \<Rightarrow> time \<Rightarrow> string \<Rightarrow> doctor_source" where
  "checked_source ap env now name = fold (\<lambda>(sid, o1). record_outcome sid o1)
     (source_checks ap env now name)
     (unbound_source name (the (map_of (cf_sources (ap_cfg ap)) name)))"

lemma doctor_report_sources:
  "dr_sources (doctor ap env now) = map (\<lambda>n. closed_source (checked_source ap env now n)) (sort (map fst (cf_sources (ap_cfg ap))))"
  "dr_complete (doctor ap env now) = list_all (\<lambda>n. all_well (checked_source ap env now n)) (map fst (cf_sources (ap_cfg ap)))"
proof -
  let ?srcs = "cf_sources (ap_cfg ap)"
  let ?m = "fold (doctor_check (ap_cc ap) env) (doctor_checks ap now) (map (\<lambda>(name, src). (name, unbound_source name src)) ?srcs)"
  have at: "the (map_of ?m n) = checked_source ap env now n" if "n \<in> fst ` set ?srcs" for n
  proof -
    from that obtain src where src: "map_of ?srcs n = Some src" by (metis domD dom_map_of_conv_image_fst)
    have "map_of (map (\<lambda>(name, src). (name, unbound_source name src)) srcs) n = map_option (unbound_source n) (map_of srcs n)"
      for srcs by (induction srcs) auto
    with src show ?thesis by (simp add: doctor_checks_at checked_source_def source_checks_def)
  qed
  show "dr_sources (doctor ap env now) = map (\<lambda>n. closed_source (checked_source ap env now n)) (sort (map fst ?srcs))"
    by (simp add: doctor_def Let_def finish_sources doctor_checks_def [symmetric] at cong: map_cong)
  show "dr_complete (doctor ap env now) = list_all (\<lambda>n. all_well (checked_source ap env now n)) (map fst ?srcs)"
    by (simp add: doctor_def Let_def finish_sources doctor_checks_def [symmetric] list_all_iff at)
qed

lemma checked_source_parts:
  "ds_status (checked_source ap env now name)
     = worst_status (map (\<lambda>(sid, o1). doctor_status_for_outcome o1) (source_checks ap env now name)) ''unbound''"
  "ds_name (checked_source ap env now name) = name"
  "ds_bindings (checked_source ap env now name) = map (\<lambda>(sid, o1). binding_of sid o1) (source_checks ap env now name)"
  unfolding checked_source_def record_outcomes by (simp_all add: unbound_source_def)

definition complete_outcome :: "source_outcome \<Rightarrow> bool" where
  "complete_outcome o1 \<longleftrightarrow> so_status o1 = StOk \<and> so_complete o1"

lemma outcome_status_complete:
  "doctor_status_for_outcome o1 \<in> {''ok'', ''unbound''} \<longleftrightarrow> complete_outcome o1"
  "doctor_rank (doctor_status_for_outcome o1) \<le> 1 \<longleftrightarrow> complete_outcome o1"
  using outcome_status_rank [of o1] unfolding complete_outcome_def by linarith+

lemma checked_source_well:
  "all_well (checked_source ap env now name) = list_all (\<lambda>(sid, o1). complete_outcome o1) (source_checks ap env now name)"
proof -
  let ?os = "source_checks ap env now name"
  let ?sts = "map (\<lambda>(sid, o1). doctor_status_for_outcome o1) ?os"
  let ?w = "worst_status ?sts ''unbound''"
  have "?w \<in> {''ok'', ''unbound''} \<longleftrightarrow> (\<forall>(sid, o1) \<in> set ?os. complete_outcome o1)"
  proof
    assume "?w \<in> {''ok'', ''unbound''}"
    then have w: "doctor_rank ?w \<le> 1" by (auto simp: doctor_rank_def doctor_ranks_def)
    show "\<forall>(sid, o1) \<in> set ?os. complete_outcome o1"
    proof clarify
      fix sid o1 assume "(sid, o1) \<in> set ?os"
      then have "doctor_status_for_outcome o1 \<in> set ?sts" by force
      from order_trans [OF worst_status_rank [OF this] w] show "complete_outcome o1"
        by (simp only: outcome_status_complete)
    qed
  next
    assume all: "\<forall>(sid, o1) \<in> set ?os. complete_outcome o1"
    have "st \<in> {''ok'', ''unbound''}" if st: "st \<in> set ?sts" for st
    proof -
      from st obtain sid o1 where "(sid, o1) \<in> set ?os" "st = doctor_status_for_outcome o1" by auto
      with all outcome_status_complete(1) [of o1] show ?thesis by blast
    qed
    with worst_status_from [of ?sts "''unbound''"] show "?w \<in> {''ok'', ''unbound''}" by blast
  qed
  then show ?thesis by (simp only: all_well_def checked_source_parts(1) list_all_iff)
qed

text \<open>The entry of one source, from its checks: a status as bad as any of them has.\<close>

lemma doctor_entry:
  assumes "(name, src) \<in> set (cf_sources (ap_cfg ap))"
  shows "map ds_name (dr_sources (doctor ap env now)) = sort (map fst (cf_sources (ap_cfg ap)))
    \<and> (\<exists>ds \<in> set (dr_sources (doctor ap env now)). ds_name ds = name
      \<and> ds_bindings ds = sort_key db_service_id (map (\<lambda>(sid, o1). binding_of sid o1) (source_checks ap env now name))
      \<and> ds_status ds \<in> insert ''unbound'' (doctor_status_for_outcome ` snd ` set (source_checks ap env now name))
      \<and> list_all (\<lambda>(sid, o1). doctor_rank (doctor_status_for_outcome o1) \<le> doctor_rank (ds_status ds))
          (source_checks ap env now name)
      \<and> ds_complete ds = list_all (\<lambda>(sid, o1). complete_outcome o1) (source_checks ap env now name))"
proof (intro conjI bexI [of _ "closed_source (checked_source ap env now name)"])
  let ?os = "source_checks ap env now name"
  let ?sts = "map (\<lambda>(sid, o1). doctor_status_for_outcome o1) ?os"
  have key: "slice_stable binding_less bs = sort_key db_service_id bs" for bs
    by (rule slice_stable_sort_key) (simp add: binding_less_def)
  show "map ds_name (dr_sources (doctor ap env now)) = sort (map fst (cf_sources (ap_cfg ap)))"
    by (simp add: doctor_report_sources closed_source_def checked_source_parts comp_def)
  show "closed_source (checked_source ap env now name) \<in> set (dr_sources (doctor ap env now))"
    using assms by (force simp: doctor_report_sources)
  show "ds_bindings (closed_source (checked_source ap env now name)) = sort_key db_service_id (map (\<lambda>(sid, o1). binding_of sid o1) ?os)"
    by (simp add: closed_source_def checked_source_parts key)
  have "set ?sts = doctor_status_for_outcome ` snd ` set ?os" by force
  then show "ds_status (closed_source (checked_source ap env now name)) \<in> insert ''unbound'' (doctor_status_for_outcome ` snd ` set ?os)"
    using worst_status_from [of ?sts "''unbound''"] by (simp add: closed_source_def checked_source_parts)
  show "list_all (\<lambda>(sid, o1). doctor_rank (doctor_status_for_outcome o1)
      \<le> doctor_rank (ds_status (closed_source (checked_source ap env now name)))) ?os"
    using worst_status_rank [of _ ?sts "''unbound''"]
    by (fastforce simp: list_all_iff closed_source_def checked_source_parts)
qed (simp_all add: closed_source_def checked_source_parts checked_source_well)

text \<open>The source names that a service refers to.\<close>

definition service_refs :: "service \<Rightarrow> string set" where
  "service_refs svc = (let ss = sv_sources svc in
     {s. (\<exists>r. ss_gatus ss = Some r \<and> gr_source r = s) \<or> (\<exists>r. ss_docker ss = Some r \<and> dr_source r = s)
        \<or> (\<exists>r. ss_healthchecks ss = Some r \<and> hr_source r = s) \<or> (\<exists>r. ss_beszel ss = Some r \<and> br_source r = s)
        \<or> (\<exists>r. ss_loki ss = Some r \<and> lr_source r = s) \<or> (\<exists>r. ss_ntfy ss = Some r \<and> nr_source r = s)})"

lemma bound_refs: "(\<exists>c \<in> set (bound f ref). P c) \<longleftrightarrow> (\<exists>r. ref = Some r \<and> P (f r))"
  by (cases ref) (simp_all add: bound_def)

lemma doctor_collections_refs:
  "(\<exists>c. (sid, c) \<in> set (doctor_collections st now svc) \<and> collection_source c = name) \<longleftrightarrow> sid = sv_id svc \<and> name \<in> service_refs svc"
proof -
  have paired: "(\<exists>c. (sid, c) \<in> Pair a ` S \<and> P c) \<longleftrightarrow> sid = a \<and> (\<exists>c \<in> S. P c)" for a S and P :: "collection \<Rightarrow> bool" by blast
  show ?thesis
    unfolding doctor_collections_def Let_def set_map paired set_append bex_Un bound_refs by (simp add: service_refs_def Let_def)
qed

lemma source_checks_services:
  "fst ` set (source_checks ap env now name) = {sv_id svc | svc. svc \<in> set (cf_services (ap_cfg ap)) \<and> name \<in> service_refs svc}"
proof -
  have "sid \<in> fst ` set (source_checks ap env now name) \<longleftrightarrow>
      (\<exists>svc \<in> set (cf_services (ap_cfg ap)). sid = sv_id svc \<and> name \<in> service_refs svc)" for sid
  proof -
    have "sid \<in> fst ` set (source_checks ap env now name) \<longleftrightarrow> (\<exists>c. (sid, c) \<in> set (doctor_checks ap now) \<and> collection_source c = name)"
      by (force simp: source_checks_def doctor_outcomes_def image_iff)
    also have "\<dots> \<longleftrightarrow> (\<exists>svc \<in> set (cf_services (ap_cfg ap)).
        \<exists>c. (sid, c) \<in> set (doctor_collections (now - 5 * minute) now svc) \<and> collection_source c = name)"
      by (auto simp: doctor_checks_def)
    finally show ?thesis by (simp only: doctor_collections_refs)
  qed
  then show ?thesis by blast
qed

text \<open>
  What the documentation promises of a source's status, on the bindings that the source lists: unbound
  without one, ok exactly if all of them are ok and complete, partial if all answered and one only in
  part, and the status of a failure if all of them failed. A source of which some bindings failed and
  others did not is not ok; which status it has is left open here.
\<close>

definition status_fits :: "doctor_source \<Rightarrow> bool" where
  "status_fits ds \<longleftrightarrow> (let bs = set (ds_bindings ds) in
     (ds_status ds = ''unbound'' \<longleftrightarrow> bs = {})
     \<and> (ds_status ds = ''ok'' \<longleftrightarrow> bs \<noteq> {} \<and> (\<forall>b \<in> bs. db_status b = StOk \<and> db_complete b))
     \<and> ((\<forall>b \<in> bs. db_status b = StOk) \<and> (\<exists>b \<in> bs. \<not> db_complete b) \<longrightarrow> ds_status ds = ''partial'')
     \<and> (bs \<noteq> {} \<and> (\<forall>b \<in> bs. db_status b \<noteq> StOk) \<longrightarrow> (\<exists>b \<in> bs. ds_status ds = status_str (db_status b)))
     \<and> (ds_complete ds \<longleftrightarrow> (\<forall>b \<in> bs. db_status b = StOk \<and> db_complete b)))"

lemma worst_of_outcomes:
  assumes from_one: "w \<in> insert ''unbound'' (doctor_status_for_outcome ` os)"
    and worst: "\<And>o1. o1 \<in> os \<Longrightarrow> doctor_rank (doctor_status_for_outcome o1) \<le> doctor_rank w"
    and run: "\<And>o1. o1 \<in> os \<Longrightarrow> so_status o1 \<in> {StOk, StError, StTimeout, StCanceled}"
  shows "w = ''unbound'' \<longleftrightarrow> os = {}"
    and "w = ''ok'' \<longleftrightarrow> os \<noteq> {} \<and> (\<forall>o1 \<in> os. so_status o1 = StOk \<and> so_complete o1)"
    and "\<forall>o1 \<in> os. so_status o1 = StOk \<Longrightarrow> \<exists>o1 \<in> os. \<not> so_complete o1 \<Longrightarrow> w = ''partial''"
    and "os \<noteq> {} \<Longrightarrow> \<forall>o1 \<in> os. so_status o1 \<noteq> StOk \<Longrightarrow> \<exists>o1 \<in> os. w = status_str (so_status o1)"
proof -
  note ranks = doctor_rank_def doctor_ranks_def
  have one: "doctor_status_for_outcome o1 = (if so_status o1 = StOk \<and> \<not> so_complete o1 then ''partial'' else status_str (so_status o1))"
    if "o1 \<in> os" for o1
    using run [OF that] by (auto simp: doctor_status_for_outcome_def split: status.split)
  have pos: "1 \<le> doctor_rank (doctor_status_for_outcome o1)" for o1
    by (simp add: doctor_status_for_outcome_def ranks split: status.split)
  show unb: "w = ''unbound'' \<longleftrightarrow> os = {}"
  proof
    assume "w = ''unbound''"
    then have "doctor_rank w = 0" by (simp add: ranks)
    with worst pos show "os = {}" by (metis all_not_in_conv le_zero_eq not_one_le_zero)
  qed (use from_one in simp)
  show "w = ''ok'' \<longleftrightarrow> os \<noteq> {} \<and> (\<forall>o1 \<in> os. so_status o1 = StOk \<and> so_complete o1)"
  proof
    assume w: "w = ''ok''"
    then have "doctor_rank w = 1" by (simp add: ranks)
    with worst have "doctor_rank (doctor_status_for_outcome o1) \<le> 1" if "o1 \<in> os" for o1 using that by fastforce
    then have "\<forall>o1 \<in> os. complete_outcome o1" unfolding outcome_status_complete by blast
    with w unb show "os \<noteq> {} \<and> (\<forall>o1 \<in> os. so_status o1 = StOk \<and> so_complete o1)" by (auto simp: complete_outcome_def)
  next
    assume a: "os \<noteq> {} \<and> (\<forall>o1 \<in> os. so_status o1 = StOk \<and> so_complete o1)"
    with unb from_one obtain o1 where "o1 \<in> os" "w = doctor_status_for_outcome o1" by auto
    with a one [of o1] show "w = ''ok''" by simp
  qed
  show "w = ''partial''" if ok: "\<forall>o1 \<in> os. so_status o1 = StOk" and part: "\<exists>o1 \<in> os. \<not> so_complete o1"
  proof -
    from part obtain o1 where o1: "o1 \<in> os" "\<not> so_complete o1" by blast
    with worst [OF o1(1)] one [OF o1(1)] ok have "2 \<le> doctor_rank w" by (simp add: ranks)
    then have "w \<noteq> ''ok''" "w \<noteq> ''unbound''" by (auto simp: ranks)
    with from_one one ok show ?thesis by auto
  qed
  show "\<exists>o1 \<in> os. w = status_str (so_status o1)" if "os \<noteq> {}" "\<forall>o1 \<in> os. so_status o1 \<noteq> StOk"
    using that unb from_one one by auto
qed

lemma source_checks_run:
  "o1 \<in> snd ` set (source_checks ap env now name) \<Longrightarrow> so_status o1 \<in> {StOk, StError, StTimeout, StCanceled}"
proof -
  assume "o1 \<in> snd ` set (source_checks ap env now name)"
  then obtain sid c where "o1 = fst (collect (ap_cc ap) (env sid (collection_kind c)) sid c)"
    by (auto simp: source_checks_def doctor_outcomes_def)
  with collect_good [of "ap_cc ap" "env sid (collection_kind c)" sid c o1]
  show ?thesis by (cases "collect (ap_cc ap) (env sid (collection_kind c)) sid c") (auto simp: good_outcome_def honest_def)
qed

lemma entry_fits:
  assumes "set (ds_bindings ds) = (\<lambda>(sid, o1). binding_of sid o1) ` set os"
    and "ds_status ds \<in> insert ''unbound'' (doctor_status_for_outcome ` snd ` set os)"
    and "list_all (\<lambda>(sid, o1). doctor_rank (doctor_status_for_outcome o1) \<le> doctor_rank (ds_status ds)) os"
    and "ds_complete ds = list_all (\<lambda>(sid, o1). complete_outcome o1) os"
    and "\<And>o1. o1 \<in> snd ` set os \<Longrightarrow> so_status o1 \<in> {StOk, StError, StTimeout, StCanceled}"
  shows "status_fits ds"
proof -
  have worst: "doctor_rank (doctor_status_for_outcome o1) \<le> doctor_rank (ds_status ds)" if "o1 \<in> snd ` set os" for o1
    using assms(3) that by (auto simp: list_all_iff)
  note w = worst_of_outcomes [OF assms(2) worst assms(5)]
  have all: "(\<forall>b \<in> set (ds_bindings ds). P (db_status b) (db_complete b)) \<longleftrightarrow> (\<forall>o1 \<in> snd ` set os. P (so_status o1) (so_complete o1))"
    and ex: "(\<exists>b \<in> set (ds_bindings ds). P (db_status b) (db_complete b)) \<longleftrightarrow> (\<exists>o1 \<in> snd ` set os. P (so_status o1) (so_complete o1))"
    for P by (force simp: assms(1) binding_of_def)+
  have none: "set (ds_bindings ds) = {} \<longleftrightarrow> snd ` set os = {}" by (simp add: assms(1))
  have complete: "ds_complete ds \<longleftrightarrow> (\<forall>o1 \<in> snd ` set os. so_status o1 = StOk \<and> so_complete o1)"
    by (force simp: assms(4) list_all_iff complete_outcome_def)
  show ?thesis
    unfolding status_fits_def Let_def none
      all [of "\<lambda>st c. st = StOk \<and> c"] all [of "\<lambda>st c. st = StOk"] all [of "\<lambda>st c. st \<noteq> StOk"]
      ex [of "\<lambda>st c. \<not> c"] ex [of "\<lambda>st c. ds_status ds = status_str st"]
    using w complete by blast
qed

section \<open>Properties\<close>

text \<open>
  Property C37: the doctor reports every configured source once, in the order of the names. A source
  lists one binding, with the outcome of its collection, for each check that was made on it, in the
  order of the service ids, and these services are exactly the ones that refer to the source. Its status fits
  its bindings: unbound without any, ok exactly if all are ok and complete, partial if all answered
  but one is not complete, that of a failure if all failed. A source is complete exactly if all its
  bindings are, and the report exactly if all sources are.
\<close>
theorem doctor_reports_every_binding:
  assumes "(name, src) \<in> set (cf_sources (ap_cfg ap))"
  shows "map ds_name (dr_sources (doctor ap env now)) = sort (map fst (cf_sources (ap_cfg ap)))
    \<and> (\<exists>ds \<in> set (dr_sources (doctor ap env now)). ds_name ds = name
      \<and> ds_bindings ds = sort_key db_service_id (map (\<lambda>(sid, o1). binding_of sid o1) (source_checks ap env now name))
      \<and> set (map db_service_id (ds_bindings ds))
          = {sv_id svc | svc. svc \<in> set (cf_services (ap_cfg ap)) \<and> name \<in> service_refs svc}
      \<and> status_fits ds)
    \<and> (dr_complete (doctor ap env now) \<longleftrightarrow> (\<forall>ds \<in> set (dr_sources (doctor ap env now)). ds_complete ds))"
proof -
  let ?os = "source_checks ap env now name"
  obtain ds where ds: "ds \<in> set (dr_sources (doctor ap env now))" "ds_name ds = name"
    "ds_bindings ds = sort_key db_service_id (map (\<lambda>(sid, o1). binding_of sid o1) ?os)"
    "ds_status ds \<in> insert ''unbound'' (doctor_status_for_outcome ` snd ` set ?os)"
    "list_all (\<lambda>(sid, o1). doctor_rank (doctor_status_for_outcome o1) \<le> doctor_rank (ds_status ds)) ?os"
    "ds_complete ds = list_all (\<lambda>(sid, o1). complete_outcome o1) ?os"
    and names: "map ds_name (dr_sources (doctor ap env now)) = sort (map fst (cf_sources (ap_cfg ap)))"
    using doctor_entry [OF assms] by blast
  have set_bs: "set (ds_bindings ds) = (\<lambda>(sid, o1). binding_of sid o1) ` set ?os" by (simp add: ds(3))
  then have "set (map db_service_id (ds_bindings ds)) = fst ` set ?os"
    by (simp add: image_image case_prod_beta binding_of_def)
  moreover have "status_fits ds" using set_bs ds(4-6) source_checks_run by (rule entry_fits)
  moreover have "dr_complete (doctor ap env now) \<longleftrightarrow> (\<forall>ds \<in> set (dr_sources (doctor ap env now)). ds_complete ds)"
    by (simp add: doctor_report_sources closed_source_def list_all_iff)
  ultimately show ?thesis
    using names ds(1-3) unfolding source_checks_services by (intro conjI bexI [of _ ds])
qed

definition example_doctor_app :: app where
  "example_doctor_app = example_app\<lparr>ap_cfg := example_config\<lparr>cf_sources := [(''d'', example_source\<lparr>src_kind := ''docker''\<rparr>)],
     cf_services := [example_service]\<rparr>\<rparr>"

lemma doctor_reports_every_binding_witness:
  "\<exists>ds. dr_sources (doctor example_doctor_app (\<lambda>_ _. calm_run) 10) = [ds] \<and> ds_name ds = ''d'' \<and> ds_status ds = ''ok''
     \<and> map db_item_count (ds_bindings ds) = [1] \<and> ds_complete ds"
proof -
  have src: "(''d'', example_source\<lparr>src_kind := ''docker''\<rparr>) \<in> set (cf_sources (ap_cfg example_doctor_app))"
    by (simp add: example_doctor_app_def)
  have names: "map fst (cf_sources (ap_cfg example_doctor_app)) = [''d'']" by (simp add: example_doctor_app_def)
  let ?c = "DockerStatus \<lparr>dr_source = ''d'', dr_container_name = ''c''\<rparr>"
  define o1 where "o1 = fst (collect example_cc calm_run ''media'' ?c)"
  have "source_checks example_doctor_app (\<lambda>_ _. calm_run) 10 ''d'' = [(''media'', o1)]"
    by (simp add: source_checks_def doctor_outcomes_def doctor_checks_def doctor_collections_def bound_def o1_def
        example_doctor_app_def example_service_def example_app_def)
  moreover have "so_status o1 = StOk" "so_complete o1" "so_item_count o1 = 1"
    by (simp_all add: o1_def collector_defs snapshot_result_def source_call_def with_source_timeout_def example_cc_def
        calm_run_def Let_def is_missing_item_def mark_empty_def sample_item_def)
  ultimately have o1: "source_checks example_doctor_app (\<lambda>_ _. calm_run) 10 ''d'' = [(''media'', o1)]"
    "doctor_status_for_outcome o1 = ''ok''" "complete_outcome o1" "so_item_count o1 = 1"
    by (simp_all add: doctor_status_for_outcome_def complete_outcome_def)
  from doctor_reports_every_binding [OF src, of "\<lambda>_ _. calm_run" 10, unfolded o1(1) names]
  obtain ds where ds: "map ds_name (dr_sources (doctor example_doctor_app (\<lambda>_ _. calm_run) 10)) = [''d'']"
    "ds \<in> set (dr_sources (doctor example_doctor_app (\<lambda>_ _. calm_run) 10))" "ds_name ds = ''d''"
    "ds_bindings ds = [binding_of ''media'' o1]" "status_fits ds"
    by auto
  from ds(1,2) have "dr_sources (doctor example_doctor_app (\<lambda>_ _. calm_run) 10) = [ds]" by auto
  moreover have "ds_status ds = ''ok'' \<and> ds_complete ds"
    using ds(4,5) o1(3) by (simp add: status_fits_def binding_of_def complete_outcome_def Let_def)
  ultimately show ?thesis using ds o1(4) by (simp add: binding_of_def)
qed

text \<open>
  The doctor report is complete exactly if every check of a binding whose source is
  configured succeeded with a complete outcome; an unbound source does not make it incomplete.
\<close>
lemma doctor_complete_exactly:
  "dr_complete (doctor ap env now) = list_all (\<lambda>(sid, c). complete_outcome (fst (collect (ap_cc ap) (env sid (collection_kind c)) sid c)))
     (filter (\<lambda>(sid, c). collection_source c \<in> fst ` set (cf_sources (ap_cfg ap))) (doctor_checks ap now))"
  unfolding doctor_report_sources checked_source_well
  by (fastforce simp: list_all_iff source_checks_def doctor_outcomes_def split: prod.splits)

text \<open>
  A source whose first binding failed and whose second one is only partial has the status and the
  reason of the failure and no error text: the error field is that of the last bad binding.
\<close>
lemma doctor_error_text_lost:
  assumes "so_status o1 = StError" "so_reason o1 = ''connection''" "so_error o1 = ''refused''"
    and "so_status o2 = StOk" "\<not> so_complete o2" "so_error o2 = []"
  shows "ds_status (record_outcome s2 o2 (record_outcome s1 o1 (unbound_source name src))) = ''error''"
    and "ds_reason (record_outcome s2 o2 (record_outcome s1 o1 (unbound_source name src))) = ''connection''"
    and "ds_error (record_outcome s2 o2 (record_outcome s1 o1 (unbound_source name src))) = []"
  using assms
  by (simp_all add: record_outcome_def unbound_source_def worse_doctor_status_def doctor_rank_def doctor_ranks_def
      doctor_status_for_outcome_def)

text \<open>A source with one failed and one successful binding is reported as \<open>error\<close>, not as \<open>partial\<close>.\<close>
lemma doctor_mixed_is_error:
  assumes "so_status o1 = StError" and "so_status o2 = StOk" "so_complete o2"
  shows "ds_status (record_outcome s2 o2 (record_outcome s1 o1 (unbound_source name src))) = ''error''"
  using assms
  by (simp add: unbound_source_def worse_doctor_status_def doctor_rank_def doctor_ranks_def doctor_status_for_outcome_def)

end
