(* ===== verification/CommandLine.thy ===== *)
theory CommandLine
  imports AppStart Doctor AuditLog
begin

text \<open>
  The command (\<open>cmd/homelab-evidence-mcp/main.go\<close>): the flags, the three modes and the exit code. What
  the process does is a list of effects in order. The flag parser is that of the standard library's
  \<open>flag\<close> package for the flags the command declares. The MCP session itself is a parameter that gives
  the error \<open>RunStdio\<close> returns. Lemmas: the flags accepted, the effects of each mode.
\<close>

section \<open>Flags\<close>

record flags =
  fl_config :: string
  fl_version :: bool
  fl_validate :: bool
  fl_doctor :: bool
  fl_json :: bool
  fl_log_level :: string

definition default_flags :: flags where
  "default_flags = \<lparr>fl_config = [], fl_version = False, fl_validate = False, fl_doctor = False, fl_json = False,
     fl_log_level = ''info''\<rparr>"

text \<open>\<open>strconv.ParseBool\<close>.\<close>

definition parse_bool :: "string \<Rightarrow> bool option" where
  "parse_bool s =
     (if s \<in> set [''1'', ''t'', ''T'', ''true'', ''TRUE'', ''True''] then Some True
      else if s \<in> set [''0'', ''f'', ''F'', ''false'', ''FALSE'', ''False''] then Some False
      else None)"

definition set_bool_flag :: "string \<Rightarrow> bool \<Rightarrow> flags \<Rightarrow> flags option" where
  "set_bool_flag name b fl =
     (if name = ''version'' then Some (fl\<lparr>fl_version := b\<rparr>)
      else if name = ''validate'' then Some (fl\<lparr>fl_validate := b\<rparr>)
      else if name = ''doctor'' then Some (fl\<lparr>fl_doctor := b\<rparr>)
      else if name = ''json'' then Some (fl\<lparr>fl_json := b\<rparr>)
      else None)"

definition set_string_flag :: "string \<Rightarrow> string \<Rightarrow> flags \<Rightarrow> flags option" where
  "set_string_flag name v fl =
     (if name = ''config'' then Some (fl\<lparr>fl_config := v\<rparr>)
      else if name = ''log-level'' then Some (fl\<lparr>fl_log_level := v\<rparr>)
      else None)"

text \<open>One flag argument: its name and the value after an equals sign, or \<open>None\<close> for a bad form.\<close>

definition split_flag :: "string \<Rightarrow> (string \<times> string option) option" where
  "split_flag s =
     (let name = (if prefix ''--'' s then drop 2 s else drop 1 s)
      in if name = [] \<or> hd name = CHR ''-'' \<or> hd name = CHR ''='' then None
         else (case cut_at (CHR ''='') name of
             None \<Rightarrow> Some (name, None)
           | Some (n, v) \<Rightarrow> Some (n, Some v)))"

text \<open>The errors of \<open>FlagSet.Parse\<close>; asking for help is one of them.\<close>

datatype flag_error =
    BadSyntax string
  | Undefined string
  | NeedsArgument string
  | BadBool string string
  | HelpAsked

fun parse_flags :: "string list \<Rightarrow> flags \<Rightarrow> flag_error + flags \<times> string list" where
  "parse_flags [] fl = Inr (fl, [])"
| "parse_flags (s # args) fl =
     (if length s < 2 \<or> hd s \<noteq> CHR ''-'' then Inr (fl, s # args)
      else if s = ''--'' then Inr (fl, args)
      else (case split_flag s of
          None \<Rightarrow> Inl (BadSyntax s)
        | Some (name, val) \<Rightarrow>
            if set_bool_flag name True fl \<noteq> None
            then (case val of
                None \<Rightarrow> parse_flags args (the (set_bool_flag name True fl))
              | Some v \<Rightarrow> (case parse_bool v of
                  None \<Rightarrow> Inl (BadBool v name)
                | Some b \<Rightarrow> parse_flags args (the (set_bool_flag name b fl))))
            else if set_string_flag name [] fl \<noteq> None
            then (case val of
                Some v \<Rightarrow> parse_flags args (the (set_string_flag name v fl))
              | None \<Rightarrow> (case args of
                    [] \<Rightarrow> Inl (NeedsArgument name)
                  | v # args \<Rightarrow> parse_flags args (the (set_string_flag name v fl))))
            else Inl (if name = ''help'' \<or> name = ''h'' then HelpAsked else Undefined name)))"

text \<open>
  What \<open>Parse\<close> then writes, line by line: the error, with \<open>quote\<close> for the verb \<open>%q\<close>, and the usage of the
  declared flags in the order of their names.
\<close>

definition usage_lines :: "string list" where
  "usage_lines =
     (let tab = ''    '' @ [CHR 0x09]
      in [''Usage of homelab-evidence-mcp:'',
          ''  -config string'', tab @ ''path to YAML configuration file'',
          ''  -doctor'', tab @ ''run bounded read-only source diagnostics then exit'',
          ''  -json'', tab @ ''use JSON output with --doctor'',
          ''  -log-level string'', tab @ ''log level: debug, info, warn, error (default '' @ [CHR 0x22] @ ''info'' @ [CHR 0x22] @ '')'',
          ''  -validate'', tab @ ''load and validate config (and tokens/destinations) then exit'',
          ''  -version'', tab @ ''print version and exit''])"

fun flag_error_lines :: "(string \<Rightarrow> string) \<Rightarrow> flag_error \<Rightarrow> string list" where
  "flag_error_lines quote (BadSyntax s) = (''bad flag syntax: '' @ s) # usage_lines"
| "flag_error_lines quote (Undefined name) = (''flag provided but not defined: -'' @ name) # usage_lines"
| "flag_error_lines quote (NeedsArgument name) = (''flag needs an argument: -'' @ name) # usage_lines"
| "flag_error_lines quote (BadBool v name) =
     (''invalid boolean value '' @ quote v @ '' for -'' @ name @ '': parse error'') # usage_lines"
| "flag_error_lines quote HelpAsked = usage_lines"

text \<open>The values of \<open>slog.Level\<close>.\<close>

definition level_debug :: int where "level_debug = -4"
definition level_info :: int where "level_info = 0"
definition level_warn :: int where "level_warn = 4"
definition level_error :: int where "level_error = 8"

definition parse_level :: "string \<Rightarrow> int \<times> bool" where
  "parse_level s =
     (if s = ''debug'' then (level_debug, True)
      else if s = ''info'' then (level_info, True)
      else if s = ''warn'' then (level_warn, True)
      else if s = ''error'' then (level_error, True)
      else (level_info, False))"

section \<open>Output\<close>

datatype effect =
    Stdout string
  | Stderr string
  | LogLine int string
  | AuditOpened
  | AuditEvent audit_event
  | SessionRun
  | AuditClosed

definition log_at :: "int \<Rightarrow> int \<Rightarrow> string \<Rightarrow> effect list" where
  "log_at level l msg = (if level \<le> l then [LogLine l msg] else [])"

definition binding_line :: "doctor_binding \<Rightarrow> string" where
  "binding_line b = ''  service '' @ db_service_id b @ '': status='' @ status_str (db_status b) @ '' reason='' @ db_reason b
     @ '' complete='' @ show_bool (db_complete b) @ '' items='' @ show_int (db_item_count b)"

definition source_line :: "doctor_source \<Rightarrow> string" where
  "source_line s = ''source '' @ ds_name s @ '' ('' @ ds_kind s @ ''): status='' @ ds_status s @ '' reason='' @ ds_reason s
     @ '' complete='' @ show_bool (ds_complete s) @ '' capabilities='' @ str_join '','' (ds_capabilities s)"

definition doctor_human :: "doctor_report \<Rightarrow> string list" where
  "doctor_human rep =
     [''doctor: version='' @ dr_version rep @ '' readonly='' @ show_bool (dr_readonly rep) @ '' sources=''
        @ show_int (int (length (dr_sources rep))) @ '' services='' @ show_int (int (dr_services_count rep))
        @ '' complete='' @ show_bool (dr_complete rep)]
     @ concat (map (\<lambda>s. source_line s # map binding_line (ds_bindings s)) (dr_sources rep))
     @ map (\<lambda>w. ''warning: '' @ w) (dr_warnings rep) @ [doctor_summary rep]"

section \<open>The command\<close>

text \<open>
  What the process gets from outside: the configuration checks, the start, the file system with
  \<open>filepath.Dir\<close>, the runs and the clock of the doctor, the JSON encoder, the result of the session
  (\<open>None\<close> for no error, else whether it is the end of input), whether its context ended, and the quoting of
  the verb \<open>%q\<close>.
\<close>

record 'pool cmd_env =
  ce_conf :: conf_env
  ce_start :: "'pool start_env"
  ce_dir :: "string \<Rightarrow> string"
  ce_runs :: "string \<Rightarrow> source_kind \<Rightarrow> run_env"
  ce_now :: time
  ce_encode :: "doctor_report \<Rightarrow> string option"
  ce_session :: "app \<Rightarrow> app_state \<Rightarrow> bool option"
  ce_done :: bool
  ce_quote :: "string \<Rightarrow> string"

text \<open>The modes after a successful start.\<close>

definition doctor_mode :: "'pool cmd_env \<Rightarrow> int \<Rightarrow> bool \<Rightarrow> app \<Rightarrow> int \<times> effect list" where
  "doctor_mode env level json ap =
     (let rep = doctor ap (ce_runs env) (ce_now env); code = (if dr_complete rep then 0 else 1)
      in if json
         then (case ce_encode env rep of
             None \<Rightarrow> (1, log_at level level_error ''doctor output failed'')
           | Some text \<Rightarrow> (code, [Stdout text]))
         else (code, map Stdout (doctor_human rep)))"

definition boot_event :: "app \<Rightarrow> time \<Rightarrow> audit_event" where
  "boot_event ap now = \<lparr>ae_time = now, ae_action = ''boot'', ae_tool = [], ae_service_id = [], ae_status = ''ok'',
     ae_duration_ms = 0,
     ae_detail = ''version='' @ ap_version ap @ '' services='' @ show_int (int (registry_len (ap_registry ap)))\<rparr>"

definition serve_mode :: "'pool cmd_env \<Rightarrow> int \<Rightarrow> app \<Rightarrow> app_state \<Rightarrow> int \<times> effect list" where
  "serve_mode env level ap st =
     (let effs = log_at level level_info ''starting'' @ [AuditEvent (boot_event ap (ce_now env)), SessionRun]
      in (case ce_session env ap st of
           None \<Rightarrow> (0, effs)
         | Some eof \<Rightarrow> if \<not> eof \<and> \<not> ce_done env then (1, effs @ log_at level level_error ''server exited'') else (0, effs)))"

definition start_mode :: "'pool cmd_env \<Rightarrow> int \<Rightarrow> flags \<Rightarrow> config \<Rightarrow> int \<times> effect list" where
  "start_mode env level fl cfg =
     (case new_app (ce_start env) cfg of
        Inl err \<Rightarrow> (1, log_at level level_error ''startup failed'')
      | Inr (ap, st, ws) \<Rightarrow>
          (let (code, effs) =
             (if fl_validate fl then (0, log_at level level_info ''config ok'' @ [Stdout ''config ok''])
              else if fl_doctor fl then doctor_mode env level (fl_json fl) ap
              else serve_mode env level ap st)
           in (code, concat (map (log_at level level_warn) ws) @ effs)))"

definition with_audit_file :: "'pool cmd_env \<Rightarrow> int \<Rightarrow> flags \<Rightarrow> config \<Rightarrow> fs \<Rightarrow> (int \<times> effect list) \<times> fs" where
  "with_audit_file env level fl cfg w =
     (if \<not> fl_validate fl \<and> \<not> fl_doctor fl \<and> au_file (cf_audit cfg) \<noteq> []
      then (case open_rotating (ce_dir env) (au_file (cf_audit cfg)) (au_max_bytes (cf_audit cfg)) (au_max_files (cf_audit cfg)) w of
          (Inl err, w) \<Rightarrow> ((1, log_at level level_error ''audit file open failed''), w)
        | (Inr rf, w) \<Rightarrow>
            (let (code, effs) = start_mode env level fl cfg; (_, _, w) = rf_close rf w
             in ((code, [AuditOpened] @ effs @ [AuditClosed]), w)))
      else (start_mode env level fl cfg, w))"

definition run_command :: "'pool cmd_env \<Rightarrow> string list \<Rightarrow> fs \<Rightarrow> (int \<times> effect list) \<times> fs" where
  "run_command env args w =
     (case parse_flags args default_flags of
        Inl err \<Rightarrow> ((2, map Stderr (flag_error_lines (ce_quote env) err)), w)
      | Inr (fl, rest) \<Rightarrow>
          if rest \<noteq> [] then ((2, [Stderr ''error: you cannot use positional arguments'']), w)
          else if fl_version fl then ((0, [Stdout (se_version (ce_start env))]), w)
          else if fl_config fl = [] then ((2, [Stderr ''error: --config is necessary'']), w)
          else if fl_json fl \<and> \<not> fl_doctor fl then ((2, [Stderr ''error: --json is only valid with --doctor'']), w)
          else if fl_doctor fl \<and> fl_validate fl then ((2, [Stderr ''error: use only one of --validate or --doctor'']), w)
          else (let (level, ok) = parse_level (fl_log_level fl)
            in if \<not> ok then ((2, [Stderr ''error: --log-level must be debug, info, warn, or error'']), w)
               else (case load_file (se_compile (ce_start env)) (ce_conf env) (se_os (ce_start env)) (fl_config fl) of
                   Inl err \<Rightarrow> ((1, log_at level level_error ''config invalid''), w)
                 | Inr cfg \<Rightarrow> with_audit_file env level fl cfg w)))"

section \<open>Lemmas\<close>

lemma log_at_effects [simp]:
  "Stdout x \<notin> set (log_at l k m)" "Stderr x \<notin> set (log_at l k m)" "AuditOpened \<notin> set (log_at l k m)"
  "AuditClosed \<notin> set (log_at l k m)" "AuditEvent e \<notin> set (log_at l k m)" "SessionRun \<notin> set (log_at l k m)"
  by (simp_all add: log_at_def)

text \<open>The modes never write to the diagnostic stream themselves, and only the session is audited.\<close>

lemma doctor_mode_effects:
  assumes "doctor_mode env level json ap = (code, effs)"
  shows "code \<in> {0, 1}" "\<forall>e \<in> set effs. (\<exists>x. e = Stdout x) \<or> (\<exists>l m. e = LogLine l m)"
  using assms by (auto simp: doctor_mode_def Let_def log_at_def split: option.splits if_splits)

lemma serve_mode_effects:
  assumes "serve_mode env level ap st = (code, effs)"
  shows "code \<in> {0, 1}" "\<forall>e \<in> set effs. e = SessionRun \<or> (\<exists>ev. e = AuditEvent ev) \<or> (\<exists>l m. e = LogLine l m)"
    "SessionRun \<in> set effs"
  using assms by (auto simp: serve_mode_def Let_def log_at_def split: option.splits if_splits)

text \<open>What a start can do: log, print if it is offline or a diagnostic, and serve otherwise.\<close>

definition mode_effect :: "flags \<Rightarrow> effect \<Rightarrow> bool" where
  "mode_effect fl e \<longleftrightarrow>
     (case e of
        LogLine _ _ \<Rightarrow> True
      | Stdout _ \<Rightarrow> fl_validate fl \<or> fl_doctor fl
      | SessionRun \<Rightarrow> \<not> fl_validate fl \<and> \<not> fl_doctor fl
      | AuditEvent _ \<Rightarrow> \<not> fl_validate fl \<and> \<not> fl_doctor fl
      | _ \<Rightarrow> False)"

lemma warnings_logged: "\<forall>e \<in> set (concat (map (log_at level l) ws)). mode_effect fl e"
  by (auto simp: log_at_def mode_effect_def)

lemma start_mode_effects:
  assumes "start_mode env level fl cfg = (code, effs)"
  shows "code \<in> {0, 1} \<and> (\<forall>e \<in> set effs. mode_effect fl e)"
proof (cases "new_app (ce_start env) cfg")
  case (Inl err)
  with assms show ?thesis by (auto simp: start_mode_def log_at_def mode_effect_def)
next
  case (Inr b)
  obtain ap st ws where b: "b = (ap, st, ws)" by (metis prod.collapse)
  let ?w = "concat (map (log_at level level_warn) ws)"
  consider (v) "fl_validate fl" | (d) "\<not> fl_validate fl" "fl_doctor fl" | (s) "\<not> fl_validate fl" "\<not> fl_doctor fl"
    by blast
  then show ?thesis
  proof cases
    case v
    with assms Inr b have "code = 0" "effs = ?w @ log_at level level_info ''config ok'' @ [Stdout ''config ok'']"
      by (auto simp: start_mode_def)
    with v warnings_logged [of level level_warn ws fl] show ?thesis by (auto simp: mode_effect_def log_at_def)
  next
    case d
    obtain c es where m: "doctor_mode env level (fl_json fl) ap = (c, es)" by fastforce
    with assms Inr b d have "code = c" "effs = ?w @ es" by (auto simp: start_mode_def)
    with d doctor_mode_effects [OF m] warnings_logged [of level level_warn ws fl] show ?thesis
      by (auto simp: mode_effect_def)
  next
    case s
    obtain c es where m: "serve_mode env level ap st = (c, es)" by fastforce
    with assms Inr b s have "code = c" "effs = ?w @ es" by (auto simp: start_mode_def)
    with s serve_mode_effects [OF m] warnings_logged [of level level_warn ws fl] show ?thesis
      by (auto simp: mode_effect_def)
  qed
qed

text \<open>The audit file encloses the effects of the start and is opened only to serve.\<close>

lemma with_audit_file_effects:
  assumes "with_audit_file env level fl cfg w = ((code, effs), w')"
  obtains es where "effs = es \<or> effs = [AuditOpened] @ es @ [AuditClosed] \<and> \<not> fl_validate fl \<and> \<not> fl_doctor fl"
    "\<forall>e \<in> set es. mode_effect fl e" "code \<in> {0, 1}" "w' = w \<or> \<not> fl_validate fl \<and> \<not> fl_doctor fl"
proof -
  obtain c es where st: "start_mode env level fl cfg = (c, es)" by fastforce
  note e = start_mode_effects [OF st]
  show ?thesis
  proof (cases "\<not> fl_validate fl \<and> \<not> fl_doctor fl \<and> au_file (cf_audit cfg) \<noteq> []")
    case False
    with assms st have "effs = es" "code = c" "w' = w" by (auto simp: with_audit_file_def)
    with e that show ?thesis by blast
  next
    case True
    obtain res w1 where op: "open_rotating (ce_dir env) (au_file (cf_audit cfg)) (au_max_bytes (cf_audit cfg))
        (au_max_files (cf_audit cfg)) w = (res, w1)" by fastforce
    show ?thesis
    proof (cases res)
      case (Inl err)
      with assms True op have "effs = log_at level level_error ''audit file open failed''" "code = 1"
        by (auto simp: with_audit_file_def)
      moreover have "\<forall>e \<in> set (log_at level level_error m). mode_effect fl e" for m
        by (simp add: log_at_def mode_effect_def)
      ultimately show ?thesis using that True by blast
    next
      case (Inr rf)
      with assms True op st have "effs = [AuditOpened] @ es @ [AuditClosed]" "code = c"
        by (auto simp: with_audit_file_def split: prod.splits)
      with e that True show ?thesis by blast
    qed
  qed
qed

text \<open>
  What the documentation calls a usage error, on the flags and what is left of the arguments: anything
  left, and unless only the version is asked for no configuration file, a JSON output without the doctor,
  both offline modes at once, or a level that does not exist.
\<close>

definition misuse :: "flags \<Rightarrow> string list \<Rightarrow> bool" where
  "misuse fl rest \<longleftrightarrow> rest \<noteq> [] \<or> \<not> fl_version fl \<and>
     (fl_config fl = [] \<or> fl_json fl \<and> \<not> fl_doctor fl \<or> fl_doctor fl \<and> fl_validate fl
      \<or> fl_log_level fl \<notin> {''debug'', ''info'', ''warn'', ''error''})"

definition usage_error :: "string list \<Rightarrow> bool" where
  "usage_error args \<longleftrightarrow> (case parse_flags args default_flags of Inl _ \<Rightarrow> True | Inr (fl, rest) \<Rightarrow> misuse fl rest)"

lemma parse_level_known: "snd (parse_level l) \<longleftrightarrow> l \<in> {''debug'', ''info'', ''warn'', ''error''}"
  by (simp add: parse_level_def)

lemma flag_error_lines_some: "flag_error_lines q err \<noteq> []"
  by (cases err) (simp_all add: usage_lines_def Let_def)

text \<open>The ways a command line goes: rejected, the version, or a configuration that is loaded.\<close>

lemma run_command_cases:
  assumes "run_command env args w = ((code, effs), w')"
  obtains (usage) lns where "usage_error args" "code = 2" "effs = map Stderr lns" "lns \<noteq> []" "w' = w"
  | (version) fl where "parse_flags args default_flags = Inr (fl, [])" "fl_version fl" "\<not> usage_error args"
      "code = 0" "effs = [Stdout (se_version (ce_start env))]" "w' = w"
  | (config) level fl err where "parse_flags args default_flags = Inr (fl, [])" "\<not> fl_version fl" "\<not> usage_error args"
      "load_file (se_compile (ce_start env)) (ce_conf env) (se_os (ce_start env)) (fl_config fl) = Inl err"
      "code = 1" "effs = log_at level level_error ''config invalid''" "w' = w"
  | (start) level fl cfg where "parse_flags args default_flags = Inr (fl, [])" "\<not> fl_version fl" "\<not> usage_error args"
      "load_file (se_compile (ce_start env)) (ce_conf env) (se_os (ce_start env)) (fl_config fl) = Inr cfg"
      "with_audit_file env level fl cfg w = ((code, effs), w')"
proof (cases "parse_flags args default_flags")
  case (Inl err)
  with assms usage [of "flag_error_lines (ce_quote env) err"] show ?thesis
    by (simp add: run_command_def usage_error_def flag_error_lines_some)
next
  case (Inr p)
  obtain fl rest where p: "p = (fl, rest)" by fastforce
  obtain level ok where l: "parse_level (fl_log_level fl) = (level, ok)" by fastforce
  with parse_level_known [of "fl_log_level fl"] have ok: "ok \<longleftrightarrow> fl_log_level fl \<in> {''debug'', ''info'', ''warn'', ''error''}" by simp
  have usage_one: "thesis" if "misuse fl rest" "((code, effs), w') = ((2, [Stderr line]), w)" for line
    using usage [of "[line]"] that Inr p by (simp add: usage_error_def)
  show ?thesis
  proof (cases "misuse fl rest")
    case True
    with assms Inr p l ok show ?thesis
      by (auto simp: run_command_def misuse_def split: if_splits intro: usage_one)
  next
    case False
    then have args: "parse_flags args default_flags = Inr (fl, [])" "\<not> usage_error args" "rest = []"
      using Inr p by (simp_all add: misuse_def usage_error_def)
    show ?thesis
    proof (cases "fl_version fl")
      case True
      with assms args version [of fl] show ?thesis by (simp add: run_command_def)
    next
      case nv: False
      with False args(3) have m: "fl_config fl \<noteq> []" "\<not> (fl_json fl \<and> \<not> fl_doctor fl)" "\<not> (fl_doctor fl \<and> fl_validate fl)" "ok"
        by (simp_all add: misuse_def ok)
      with assms args nv l config [of fl _ level] start [of fl _ level] show ?thesis
        by (cases "load_file (se_compile (ce_start env)) (ce_conf env) (se_os (ce_start env)) (fl_config fl)")
          (simp_all add: run_command_def)
    qed
  qed
qed

lemma with_audit_file_no_stderr:
  assumes "with_audit_file env level fl cfg w = ((code, effs), w')"
  shows "Stderr line \<notin> set effs \<and> code \<in> {0, 1}"
proof -
  obtain es where es: "effs = es \<or> effs = [AuditOpened] @ es @ [AuditClosed] \<and> \<not> fl_validate fl \<and> \<not> fl_doctor fl"
    "\<forall>e \<in> set es. mode_effect fl e" "code \<in> {0, 1}" using assms by (rule with_audit_file_effects)
  have "\<not> mode_effect fl (Stderr line)" by (simp add: mode_effect_def)
  with es show ?thesis by auto
qed

section \<open>Properties\<close>

text \<open>
  Property C38: the usage errors are a flag that cannot be parsed, an argument left over, no configuration
  file, \<open>--json\<close> without \<open>--doctor\<close>, \<open>--doctor\<close> with \<open>--validate\<close>, and an unknown log level. For each of
  them the command exits with 2, writes lines on the diagnostic stream and does nothing else: no output, no
  session, no audit event, no file touched. Any other command line gets no such message; it exits with 0 or 1
  if it asks for the version, and then only the version is printed, or if its configuration is valid and the
  application starts with it.
\<close>
theorem usage_errors_do_nothing:
  assumes "run_command env args w = ((code, effs), w')"
  shows "(usage_error args \<longrightarrow> code = 2 \<and> w' = w \<and> effs \<noteq> [] \<and> (\<forall>e \<in> set effs. \<exists>line. e = Stderr line))
    \<and> (\<not> usage_error args \<longrightarrow> (\<forall>line. Stderr line \<notin> set effs)
         \<and> (\<exists>fl. parse_flags args default_flags = Inr (fl, [])
              \<and> (fl_version fl \<longrightarrow> code = 0 \<and> effs = [Stdout (se_version (ce_start env))] \<and> w' = w)
              \<and> (\<forall>cfg app. load_file (se_compile (ce_start env)) (ce_conf env) (se_os (ce_start env)) (fl_config fl) = Inr cfg
                   \<and> new_app (ce_start env) cfg = Inr app \<longrightarrow> code \<in> {0, 1})))"
  using assms
proof (cases rule: run_command_cases)
  case (start level fl cfg)
  from with_audit_file_no_stderr [OF start(5)] start(1-3) show ?thesis by simp
qed (auto simp: log_at_def)

text \<open>
  A command that prints anything on its standard output serves no session, opens no audit
  file, audits nothing and leaves the files alone. So while the MCP session runs, the standard output
  carries the protocol and nothing else.
\<close>
lemma stdout_excludes_session:
  assumes "run_command env args w = ((code, effs), w')" and "Stdout x \<in> set effs"
  shows "SessionRun \<notin> set effs \<and> AuditOpened \<notin> set effs \<and> AuditEvent ev \<notin> set effs \<and> w' = w"
  using assms(1)
proof (cases rule: run_command_cases)
  case (start level fl cfg)
  from start(5) obtain es where es: "effs = es \<or> effs = [AuditOpened] @ es @ [AuditClosed] \<and> \<not> fl_validate fl \<and> \<not> fl_doctor fl"
    "\<forall>e \<in> set es. mode_effect fl e" "w' = w \<or> \<not> fl_validate fl \<and> \<not> fl_doctor fl" by (rule with_audit_file_effects)
  from es(1) assms(2) have "Stdout x \<in> set es" by auto
  with es(2) have m: "fl_validate fl \<or> fl_doctor fl" by (force simp: mode_effect_def)
  with es(1,3) have "effs = es" "w' = w" by auto
  moreover have "\<not> mode_effect fl SessionRun" "\<not> mode_effect fl AuditOpened" "\<not> mode_effect fl (AuditEvent ev)"
    using m by (simp_all add: mode_effect_def)
  ultimately show ?thesis using es(2) by blast
qed (use assms(2) in \<open>auto simp: log_at_def\<close>)

text \<open>The flags as a user would write them.\<close>

definition render_flags :: "flags \<Rightarrow> string list" where
  "render_flags fl = [''-config'', fl_config fl, ''--version='' @ show_bool (fl_version fl),
     ''-validate='' @ show_bool (fl_validate fl), ''-doctor='' @ show_bool (fl_doctor fl),
     ''--json='' @ show_bool (fl_json fl), ''--log-level'', fl_log_level fl]"

lemma parse_show_bool: "parse_bool (show_bool b) = Some b"
  by (simp add: parse_bool_def show_bool_def)

lemma flags_roundtrip: "parse_flags (render_flags fl) default_flags = Inr (fl, [])"
  by (cases "fl_version fl"; cases "fl_validate fl"; cases "fl_doctor fl"; cases "fl_json fl")
    (simp_all add: render_flags_def show_bool_def split_flag_def cut_at_def set_bool_flag_def set_string_flag_def
      parse_bool_def default_flags_def)

text \<open>The environment in which only the start of the example is known.\<close>

definition example_cmd :: "unit cmd_env" where
  "example_cmd = \<lparr>ce_conf = example_env, ce_start = example_start, ce_dir = (\<lambda>p. ''.''), ce_runs = (\<lambda>_ _. calm_run),
     ce_now = 10, ce_encode = (\<lambda>_. None), ce_session = (\<lambda>_ _. None), ce_done = True, ce_quote = (\<lambda>s. s)\<rparr>"

lemma example_version: "run_command example_cmd [''-version''] w = ((0, [Stdout ''1'']), w)"
  by (simp add: run_command_def split_flag_def set_bool_flag_def cut_at_def default_flags_def example_cmd_def example_start_def)

text \<open>A flag that is not declared, and a combination that is not allowed.\<close>

lemma example_unknown: "usage_error [''-x'']"
  by (simp add: usage_error_def split_flag_def set_bool_flag_def set_string_flag_def cut_at_def)

lemma example_json: "usage_error [''-config'', ''c'', ''-json'']"
  by (simp add: usage_error_def misuse_def split_flag_def set_bool_flag_def set_string_flag_def cut_at_def default_flags_def)

lemma usage_errors_do_nothing_witness:
  "\<forall>w. \<exists>lns lns'. run_command example_cmd [''-x''] w = ((2, map Stderr lns), w)
     \<and> run_command example_cmd [''-config'', ''c'', ''-json''] w = ((2, map Stderr lns'), w)"
proof
  fix w
  have "\<exists>lns. run_command example_cmd args w = ((2, map Stderr lns), w)" if "usage_error args" for args
  proof -
    obtain code effs w' where run: "run_command example_cmd args w = ((code, effs), w')" by (metis prod.collapse)
    from usage_errors_do_nothing [OF run] that have "code = 2" "w' = w" "\<exists>lns. effs = map Stderr lns"
      by (simp_all add: ex_map_conv)
    with run show ?thesis by blast
  qed
  from this [OF example_unknown] this [OF example_json]
  show "\<exists>lns lns'. run_command example_cmd [''-x''] w = ((2, map Stderr lns), w)
     \<and> run_command example_cmd [''-config'', ''c'', ''-json''] w = ((2, map Stderr lns'), w)" by blast
qed

text \<open>An invalid configuration exits with 1.\<close>

lemma invalid_config_exits_1:
  assumes "parse_flags args default_flags = Inr (fl, [])" "\<not> fl_version fl" "fl_config fl \<noteq> []" "\<not> fl_json fl" "\<not> fl_doctor fl"
    and "snd (parse_level (fl_log_level fl))"
    and "load_file (se_compile (ce_start env)) (ce_conf env) (se_os (ce_start env)) (fl_config fl) = Inl err"
  shows "fst (fst (run_command env args w)) = 1"
  using assms by (auto simp: run_command_def split: prod.splits)

end
