(* ===== verification/Adapter.thy ===== *)
theory Adapter
  imports Collect
begin

text \<open>
  What the source adapters share (\<open>internal/adapters\<close>): the GET of the locked client as an operation
  on its state, the escapes of \<open>net/url\<close>, the calendar time of Unix seconds, and the cleaning of
  upstream text. JSON decoding and \<open>time.Parse\<close> are parameters of the single adapters. Lemmas: what it
  means that a text went through the redaction engine, and which requests an operation makes.
\<close>

section \<open>A client\<close>

text \<open>
  The fields of every adapter client: \<open>Get\<close> on the path with the destination and the headers of the
  client, the engine, the clock reading of the operation (\<open>c.now()\<close> is read once) and the opaque
  identifiers in the order in which the operation makes them. \<open>ax_format\<close> is the RFC 3339 format.
\<close>

record 's adapter =
  ax_get :: "string \<Rightarrow> 's \<Rightarrow> (go_error + response \<times> string) \<times> 's"
  ax_http :: http_env
  ax_engine :: engine
  ax_now :: time
  ax_id :: "nat \<Rightarrow> string"
  ax_format :: "time \<Rightarrow> string"

abbreviation ax_unicode :: "'s adapter \<Rightarrow> unicode" where
  "ax_unicode ad \<equiv> hx_unicode (ax_http ad)"

text \<open>\<open>httpx.CollectionTime\<close> of a response.\<close>

abbreviation ax_collected :: "'s adapter \<Rightarrow> response \<Rightarrow> time" where
  "ax_collected ad r \<equiv> collection_time (ax_http ad) (Some r) (ax_now ad)"

definition clean :: "'s adapter \<Rightarrow> string \<Rightarrow> int \<Rightarrow> string \<times> int \<times> bool" where
  "clean ad s n = apply_and_truncate (Some (ax_engine ad)) s n"

text \<open>The loops that clean the first texts of a list, as in \<open>cleanNames\<close> and for tags and errors.\<close>

fun clean_all :: "'s adapter \<Rightarrow> int \<Rightarrow> string list \<Rightarrow> string list \<times> int \<times> bool" where
  "clean_all ad n [] = ([], 0, False)"
| "clean_all ad n (s # ss) =
     (let (x, r, c) = clean ad s n; (xs, rs, cs) = clean_all ad n ss in (x # xs, r + rs, c \<or> cs))"

text \<open>\<open>json.Unmarshal\<close> of a body: \<open>None\<close> for an error, \<open>Some None\<close> for the JSON null.\<close>

type_synonym 'a decoder = "string \<Rightarrow> 'a option option"

text \<open>The window that a history item carries.\<close>

definition in_window :: "time \<Rightarrow> time \<Rightarrow> item \<Rightarrow> item" where
  "in_window st fin it = it\<lparr>it_window_start := Some st, it_window_end := Some fin\<rparr>"

section \<open>Time and addresses\<close>

text \<open>The first layout that \<open>time.Parse\<close> accepts.\<close>

fun parse_first :: "(string \<Rightarrow> string \<Rightarrow> time option) \<Rightarrow> string list \<Rightarrow> string \<Rightarrow> time option" where
  "parse_first parse [] s = None"
| "parse_first parse (l # ls) s = (case parse l s of None \<Rightarrow> parse_first parse ls s | Some t \<Rightarrow> Some t)"

text \<open>\<open>time.Unix(sec, nsec)\<close>: nanoseconds since the year 1.\<close>

definition unix_epoch :: time where "unix_epoch = 62135596800 * second"

definition unix_time :: "int \<Rightarrow> int \<Rightarrow> time" where
  "unix_time sec nsec = unix_epoch + sec * second + nsec"

text \<open>\<open>url.PathEscape\<close> and \<open>url.QueryEscape\<close>: the bytes that stay, and the rest in hexadecimal.\<close>

definition unreserved :: "char \<Rightarrow> bool" where
  "unreserved c \<longleftrightarrow>
     (let n = of_char c :: nat
      in 48 \<le> n \<and> n \<le> 57 \<or> 65 \<le> n \<and> n \<le> 90 \<or> 97 \<le> n \<and> n \<le> 122) \<or> c \<in> set ''-_.~''"

definition hex_upper :: "nat \<Rightarrow> char" where
  "hex_upper n = ''0123456789ABCDEF'' ! n"

definition percent :: "char \<Rightarrow> string" where
  "percent c = [CHR ''%'', hex_upper (of_char c div 16), hex_upper (of_char c mod 16)]"

definition path_escape :: "string \<Rightarrow> string" where
  "path_escape s = concat (map (\<lambda>c. if unreserved c \<or> c \<in> set ''$&+=:@'' then [c] else percent c) s)"

definition query_escape :: "string \<Rightarrow> string" where
  "query_escape s = concat (map (\<lambda>c. if unreserved c then [c] else if c = CHR '' '' then ''+'' else percent c) s)"

text \<open>\<open>url.Values.Encode\<close> for one value a key, with the keys already in order.\<close>

definition encode_values :: "(string \<times> string) list \<Rightarrow> string" where
  "encode_values kvs = str_join ''&'' (map (\<lambda>(k, v). query_escape k @ ''='' @ query_escape v) kvs)"

lemma unreserved_show_int: "list_all unreserved (show_int i)"
proof -
  have "unreserved c" if "c \<in> set (show_nat n)" for c n
    using show_nat_digits [OF that] by (simp add: unreserved_def Let_def)
  moreover have "unreserved (CHR ''-'')" by (simp add: unreserved_def)
  ultimately show ?thesis by (auto simp: show_int_def list_all_iff)
qed

lemma query_escape_plain: "list_all unreserved s \<Longrightarrow> query_escape s = s"
  by (induction s) (simp_all add: query_escape_def)

section \<open>Requests\<close>

text \<open>The state after GETs of the given paths, in order.\<close>

definition after_gets :: "'s adapter \<Rightarrow> string list \<Rightarrow> 's \<Rightarrow> 's" where
  "after_gets ad ps s = fold (\<lambda>p s. snd (ax_get ad p s)) ps s"

lemma after_gets_simps [simp]:
  "after_gets ad [] s = s" "after_gets ad (p # ps) s = after_gets ad ps (snd (ax_get ad p s))"
  by (simp_all add: after_gets_def)

text \<open>An operation only touches the client through at most \<open>n\<close> GETs of paths that \<open>P\<close> allows.\<close>

definition only_gets :: "'s adapter \<Rightarrow> nat \<Rightarrow> (string \<Rightarrow> bool) \<Rightarrow> 's \<Rightarrow> 's \<Rightarrow> bool" where
  "only_gets ad n P s s' \<longleftrightarrow> (\<exists>ps. s' = after_gets ad ps s \<and> length ps \<le> n \<and> list_all P ps)"

lemma only_gets_refl [simp, intro]: "only_gets ad n P s s"
  unfolding only_gets_def by (intro exI [of _ "[]"]) simp

lemma only_gets_get: "P p \<Longrightarrow> only_gets ad (Suc n) P s (snd (ax_get ad p s))"
  unfolding only_gets_def by (intro exI [of _ "[p]"]) simp

lemma only_gets_step:
  assumes "P p" and "only_gets ad n P (snd (ax_get ad p s)) s'"
  shows "only_gets ad (Suc n) P s s'"
proof -
  obtain ps where "s' = after_gets ad ps (snd (ax_get ad p s))" "length ps \<le> n" "list_all P ps"
    using assms(2) unfolding only_gets_def by blast
  then show ?thesis using assms(1) unfolding only_gets_def by (intro exI [of _ "p # ps"]) simp
qed

lemma only_gets_mono: "only_gets ad n P s s' \<Longrightarrow> n \<le> m \<Longrightarrow> (\<And>p. P p \<Longrightarrow> Q p) \<Longrightarrow> only_gets ad m Q s s'"
  unfolding only_gets_def by (auto simp: list_all_iff intro: order_trans)

lemma only_gets_trans:
  assumes "only_gets ad n P s s'" "only_gets ad m P s' s''" shows "only_gets ad (n + m) P s s''"
proof -
  obtain ps qs where "s' = after_gets ad ps s" "length ps \<le> n" "list_all P ps"
    "s'' = after_gets ad qs s'" "length qs \<le> m" "list_all P qs"
    using assms unfolding only_gets_def by blast
  then show ?thesis unfolding only_gets_def by (intro exI [of _ "ps @ qs"]) (simp add: after_gets_def)
qed

section \<open>Text that left the engine\<close>

text \<open>
  \<open>screened e w fmt s\<close>: \<open>s\<close> is made of outputs of the engine \<open>e\<close>, cut or marked afterwards, of fixed words
  \<open>w\<close> of the program, and of dates in the format \<open>fmt\<close>. No other upstream text is part of it. This is where a
  text comes from, not that it is free of secrets: a secret could still arise where two outputs meet. What
  the engine keeps out of each of its outputs is the subject of the theory \<open>Redaction\<close>.
\<close>

inductive screened :: "engine \<Rightarrow> string set \<Rightarrow> (time \<Rightarrow> string) \<Rightarrow> string \<Rightarrow> bool" for e w fmt where
  screened_engine: "screened e w fmt (fst (redact_apply (Some e) x))"
| screened_runes: "screened e w fmt s \<Longrightarrow> screened e w fmt (fst (truncate_runes s n))"
| screened_bytes: "screened e w fmt s \<Longrightarrow> screened e w fmt (fst (truncate_bytes s n))"
| screened_marked: "screened e w fmt s \<Longrightarrow> screened e w fmt (neutralize_instruction_like uc s)"
| screened_word: "s \<in> w \<Longrightarrow> screened e w fmt s"
| screened_date: "screened e w fmt (fmt t)"
| screened_append: "screened e w fmt s \<Longrightarrow> screened e w fmt t \<Longrightarrow> screened e w fmt (s @ t)"

lemma screened_Nil [simp]: "screened e w fmt []"
  using screened_engine [of e w fmt "[]"] by (simp add: redact_apply_def)

lemma apply_and_truncate_screened: "screened e w fmt (fst (apply_and_truncate (Some e) s n))"
  using screened_runes [OF screened_engine [of e w fmt "sanitize_control s"], of n]
  by (simp add: apply_and_truncate_def Let_def case_prod_beta)

text \<open>Every text of an item, apart from the identifier and the service that the server gives it.\<close>

fun attr_texts :: "attr \<Rightarrow> string list" where
  "attr_texts (AStr s) = [s]"
| "attr_texts (AStrs ss) = ss"
| "attr_texts _ = []"

definition item_texts :: "item \<Rightarrow> string list" where
  "item_texts it = it_source_id it # it_summary it # concat (map (\<lambda>(k, v). attr_texts v) (it_attributes it))"

definition fixed_words :: "string set" where
  "fixed_words = {''healthy'', ''unhealthy'', ''starting'', ''up'', ''down'', ''stream'', '','', ''='',
     ''docker container not found in list'', ''gatus endpoint not found in status list'', ''beszel system not found'',
     ''job'', ''namespace'', ''container'', ''pod'', ''app'', ''host'', ''service'', ''filename'', ''level'', ''compose''}"

definition item_screened :: "'s adapter \<Rightarrow> item \<Rightarrow> bool" where
  "item_screened ad it \<longleftrightarrow> list_all (screened (ax_engine ad) fixed_words (ax_format ad)) (item_texts it)"

named_theorems screened_simps

lemma clean_screened [screened_simps]: "screened (ax_engine ad) w (ax_format ad) (fst (clean ad s n))"
  by (simp add: clean_def apply_and_truncate_screened)

lemma clean_all_screened [screened_simps]: "list_all (screened (ax_engine ad) w (ax_format ad)) (fst (clean_all ad n ss))"
  by (induction ss) (simp_all add: case_prod_beta Let_def clean_screened)

lemma screened_dates [screened_simps]: "screened e w fmt (fmt t)"
  by (rule screened_date)

lemma fixed_screened [screened_simps]: "s \<in> fixed_words \<Longrightarrow> screened e fixed_words fmt s"
  by (rule screened_word)

section \<open>History\<close>

lemma map_enumerate_snd: "map (\<lambda>x. f (snd x)) (enumerate n xs) = map f xs"
  by (induction xs arbitrary: n) simp_all


lemma in_enumerate: "(i, x) \<in> set (enumerate n xs) \<Longrightarrow> x \<in> set xs"
  by (induction xs arbitrary: n) auto

text \<open>
  What a history operation promises: at most \<open>mx\<close> items in time order, each marked with the window and
  observed in it; an item \<open>snap\<close> that describes the collection itself may be thirty seconds late.
\<close>

definition history_ok :: "(item \<Rightarrow> bool) \<Rightarrow> time \<Rightarrow> time \<Rightarrow> int \<Rightarrow> item list \<Rightarrow> bool" where
  "history_ok snap st fin mx items \<longleftrightarrow>
     sorted (map it_observed_at items) \<and> int (length items) \<le> mx
     \<and> list_all (\<lambda>it. it_window_start it = Some st \<and> it_window_end it = Some fin \<and> st \<le> it_observed_at it
         \<and> it_observed_at it \<le> (if snap it then fin + 30 * second else fin)) items"

lemma sorted_keys_observed: "sorted (map item_key items) \<Longrightarrow> sorted (map it_observed_at items)"
  unfolding sorted_map by (erule sorted_wrt_mono_rel [rotated]) (auto simp: item_key_def less_eq_prod_def)

text \<open>\<open>KeepNewest\<close> of items that satisfy the single conditions.\<close>

definition history_item :: "(item \<Rightarrow> bool) \<Rightarrow> time \<Rightarrow> time \<Rightarrow> item \<Rightarrow> bool" where
  "history_item snap st fin it \<longleftrightarrow> it_window_start it = Some st \<and> it_window_end it = Some fin \<and> st \<le> it_observed_at it
     \<and> it_observed_at it \<le> (if snap it then fin + 30 * second else fin)"

lemma history_okI:
  assumes "sorted (map it_observed_at items)" "int (length items) \<le> mx" "\<And>it. it \<in> set items \<Longrightarrow> history_item snap st fin it"
  shows "history_ok snap st fin mx items"
  using assms by (simp add: history_ok_def history_item_def list_all_iff)

lemma keep_newest_history:
  assumes "\<And>it. it \<in> set items \<Longrightarrow> history_item snap st fin it" and "0 < mx"
  shows "history_ok snap st fin mx (fst (keep_newest items mx))"
proof (rule history_okI)
  show "sorted (map it_observed_at (fst (keep_newest items mx)))"
    by (rule sorted_keys_observed) (rule keep_newest_sorted)
  show "int (length (fst (keep_newest items mx))) \<le> mx" using assms(2) by (simp add: keep_newest_length)
qed (use assms(1) keep_newest_subset in blast)

lemma in_window_simps [simp]:
  "it_observed_at (in_window st fin it) = it_observed_at it" "is_missing_item (in_window st fin it) = is_missing_item it"
  "it_window_start (in_window st fin it) = Some st" "it_window_end (in_window st fin it) = Some fin"
  "item_texts (in_window st fin it) = item_texts it"
  by (simp_all add: in_window_def is_missing_item_def item_texts_def)

lemma in_window_screened [simp]: "item_screened ad (in_window st fin it) = item_screened ad it"
  by (simp add: item_screened_def)

section \<open>The interface of the operations\<close>

text \<open>
  What the operations of every adapter share: they reach the client only through at most \<open>n\<close> GETs of
  their routes, and every item they return is screened. \<open>found\<close> reads the items of a result.
\<close>

locale source_operation =
  fixes ad :: "'s adapter"
    and run :: "'s \<Rightarrow> 'r \<times> 's"
    and found :: "'r \<Rightarrow> item list"
    and n :: nat
    and route :: "string \<Rightarrow> bool"
  assumes run_gets: "run s = (r, s') \<Longrightarrow> only_gets ad n route s s'"
    and run_screened: "run s = (r, s') \<Longrightarrow> list_all (item_screened ad) (found r)"
begin

lemma run_keeps:
  assumes "run s = (r, s')" and "I s" and "\<And>p s. route p \<Longrightarrow> I s \<Longrightarrow> I (snd (ax_get ad p s))"
  shows "I s'"
proof -
  have "I s \<Longrightarrow> list_all route ps \<Longrightarrow> I (after_gets ad ps s)" for ps s
    by (induction ps arbitrary: s) (simp_all add: assms(3))
  with run_gets [OF assms(1)] assms(2) show ?thesis by (auto simp: only_gets_def)
qed

text \<open>What every GET appends to a record of the state, the operation appends too, once for each request.\<close>

lemma run_appends:
  assumes "run s = (r, s')" and "\<And>p s. log (snd (ax_get ad p s)) = log s @ [p]"
  shows "\<exists>ps. log s' = log s @ ps \<and> length ps \<le> n \<and> list_all route ps"
proof -
  have "log (after_gets ad ps s) = log s @ ps" for ps s
    by (induction ps arbitrary: s) (simp_all add: assms(2))
  with run_gets [OF assms(1)] show ?thesis by (auto simp: only_gets_def)
qed

lemma run_items: "run s = (r, s') \<Longrightarrow> it \<in> set (found r) \<Longrightarrow> item_screened ad it"
  using run_screened by (auto simp: list_all_iff)

end

text \<open>The items of the two forms of a result.\<close>

fun found_list :: "go_error + item list \<Rightarrow> item list" where
  "found_list (Inl _) = []"
| "found_list (Inr items) = items"

fun found_one :: "go_error + item \<Rightarrow> item list" where
  "found_one (Inl _) = []"
| "found_one (Inr it) = [it]"

section \<open>An example\<close>

text \<open>A client whose server answers every path with the same body; its state counts the requests.\<close>

definition example_adapter :: "nat adapter" where
  "example_adapter = \<lparr>ax_get = (\<lambda>p n. (Inr (\<lparr>rp_status = 200, rp_headers = []\<rparr>, ''b''), n + 1)), ax_http = example_http_env,
     ax_engine = \<lparr>en_exact = [], en_regexps = []\<rparr>, ax_now = 100, ax_id = (\<lambda>i. ''e'' @ show_nat i), ax_format = (\<lambda>_. ''t'')\<rparr>"

end
