(* ===== verification/Docker.thy ===== *)
theory Docker
  imports Adapter
begin

text \<open>
  The Docker adapter (\<open>internal/adapters/docker/docker.go\<close>): the container list, the selection of a
  container by name and its item. \<open>decode\<close> is \<open>json.Unmarshal\<close> into a slice of summaries: \<open>None\<close> for a
  decoding error, \<open>Some None\<close> for the JSON null. Lemmas: the request and the texts of the items, and
  which container is selected.
\<close>

record container =
  ct_names :: "string list"
  ct_image :: string
  ct_state :: string
  ct_status :: string
  ct_labels :: "(string, string) gomap"
  ct_created :: int

definition docker_path :: string where
  "docker_path = ''/containers/json?'' @ encode_values [(''all'', ''true'')]"

definition docker_list ::
  "'s adapter \<Rightarrow> container list decoder \<Rightarrow> 's \<Rightarrow> (go_error + container list \<times> time) \<times> 's" where
  "docker_list ad decode s =
     (case ax_get ad docker_path s of
        (Inl err, s) \<Rightarrow> (Inl err, s)
      | (Inr (resp, body), s) \<Rightarrow>
          (if rp_status resp \<noteq> 200 then Inl (plain_error (''docker HTTP '' @ show_int (rp_status resp)))
           else (case decode body of
               None \<Rightarrow> Inl (plain_error ''docker decode: invalid JSON'')
             | Some None \<Rightarrow> Inl (plain_error ''docker decode: expected container array'')
             | Some (Some cts) \<Rightarrow> Inr (cts, ax_collected ad resp)), s))"

definition normalize_name :: "unicode \<Rightarrow> string \<Rightarrow> string" where
  "normalize_name uc n = to_lower uc (trim_prefix (trim_space n) ''/'')"

definition find_container :: "unicode \<Rightarrow> container list \<Rightarrow> string \<Rightarrow> container option" where
  "find_container uc cts want =
     find (\<lambda>ct. list_ex (\<lambda>n. normalize_name uc n = normalize_name uc want) (ct_names ct)) cts"

definition primary_name :: "unicode \<Rightarrow> container \<Rightarrow> string" where
  "primary_name uc ct = (case ct_names ct of [] \<Rightarrow> [] | n # _ \<Rightarrow> normalize_name uc n)"

definition health_from_status :: "unicode \<Rightarrow> string \<Rightarrow> string" where
  "health_from_status uc status =
     (let ls = to_lower uc status
      in if str_contains ls ''(healthy)'' then ''healthy''
         else if str_contains ls ''(unhealthy)'' then ''unhealthy''
         else if str_contains ls ''(health: starting)'' then ''starting''
         else [])"

definition safe_label :: "(string, string) gomap \<Rightarrow> string \<Rightarrow> string" where
  "safe_label labels key = (case map_of labels key of None \<Rightarrow> [] | Some v \<Rightarrow> v)"

definition clean_names :: "'s adapter \<Rightarrow> string list \<Rightarrow> string list \<times> int \<times> bool" where
  "clean_names ad names =
     (let (xs, r, c) = clean_all ad 128 (map (normalize_name (ax_unicode ad)) (take 32 names))
      in (xs, r, length names > 32 \<or> c))"

text \<open>One label of the allowlist: its attribute, redactions and truncation.\<close>

definition label_attr ::
  "'s adapter \<Rightarrow> (string, string) gomap \<Rightarrow> string \<Rightarrow> string \<Rightarrow> (string, attr) gomap \<times> int \<times> bool" where
  "label_attr ad labels key name =
     (let v = safe_label labels key
      in if v = [] then ([], 0, False)
         else (let (x, r, c) = clean ad v 128 in ([(name, AStr x)], r, c)))"

definition docker_severity :: "string \<Rightarrow> severity" where
  "docker_severity state =
     (if state = ''running'' then SeverityInfo
      else if state = ''restarting'' then SeverityWarning
      else if state = ''exited'' \<or> state = ''dead'' then SeverityError
      else if state = ''paused'' \<or> state = ''created'' then SeverityWarning
      else SeverityUnknown)"

definition docker_summary :: "unicode \<Rightarrow> container \<Rightarrow> string \<Rightarrow> string" where
  "docker_summary uc ct state =
     (let base = ''docker container '' @ primary_name uc ct @ '' state='' @ state
      in if state = ''restarting'' \<or> state = ''exited'' \<or> state = ''dead'' then base @ '' ('' @ ct_status ct @ '')'' else base)"

definition docker_item :: "'s adapter \<Rightarrow> string \<Rightarrow> container \<Rightarrow> time \<Rightarrow> item" where
  "docker_item ad sid ct observed =
     (let uc = ax_unicode ad;
          state = to_lower uc (trim_space (ct_state ct));
          health = health_from_status uc (ct_status ct);
          sev = (if health = ''unhealthy'' then SeverityError else docker_severity state);
          (name, name_r, name_c) = clean ad (primary_name uc ct) 256;
          (state_s, state_r, state_c) = clean ad state 64;
          (status_s, status_r, status_c) = clean ad (ct_status ct) 256;
          (image_s, image_r, image_c) = clean ad (ct_image ct) 256;
          (names, names_r, names_c) = clean_names ad (ct_names ct);
          (service, service_r, service_c) = label_attr ad (ct_labels ct) ''com.docker.compose.service'' ''compose_service'';
          (project, project_r, project_c) = label_attr ad (ct_labels ct) ''com.docker.compose.project'' ''compose_project'';
          (sum, sum_r, sum_c) = clean ad (docker_summary uc ct state) 512
      in \<lparr>it_id = ax_id ad 0, it_service_id = sid, it_source = SourceDocker, it_source_id = name, it_kind = KindContainer,
          it_observed_at = observed, it_retrieved_at = ax_now ad, it_window_start = None, it_window_end = None,
          it_summary = sum, it_severity = sev,
          it_attributes = [(''container_name'', AStr name), (''names'', AStrs names), (''state'', AStr state_s),
              (''status'', AStr status_s), (''image'', AStr image_s), (''found'', ABool True), (''snapshot'', ABool True)]
            @ (if health = [] then [] else [(''health'', AStr health)]) @ service @ project
            @ (if ct_created ct > 0 then [(''created_at'', AStr (ax_format ad (unix_time (ct_created ct) 0)))] else []),
          it_truncated = name_c \<or> state_c \<or> status_c \<or> image_c \<or> names_c \<or> service_c \<or> project_c \<or> sum_c,
          it_redactions = name_r + state_r + status_r + image_r + names_r + service_r + project_r + sum_r,
          it_freshness = compute_freshness observed (ax_now ad), it_order = 0\<rparr>)"

definition docker_missing :: "'s adapter \<Rightarrow> string \<Rightarrow> string \<Rightarrow> time \<Rightarrow> item" where
  "docker_missing ad sid container_name observed =
     (let (name, r, c) = clean ad container_name 256
      in \<lparr>it_id = ax_id ad 0, it_service_id = sid, it_source = SourceDocker, it_source_id = name, it_kind = KindContainer,
          it_observed_at = observed, it_retrieved_at = ax_now ad, it_window_start = None, it_window_end = None,
          it_summary = ''docker container not found in list'', it_severity = SeverityUnknown,
          it_attributes = [(''container_name'', AStr name), (''found'', ABool False)],
          it_truncated = c, it_redactions = r, it_freshness = FreshnessMissing, it_order = 0\<rparr>)"

definition docker_status ::
  "'s adapter \<Rightarrow> container list decoder \<Rightarrow> string \<Rightarrow> string \<Rightarrow> 's \<Rightarrow> (go_error + item) \<times> 's" where
  "docker_status ad decode sid container_name s =
     (case docker_list ad decode s of
        (Inl err, s) \<Rightarrow> (Inl err, s)
      | (Inr (cts, observed), s) \<Rightarrow>
          (Inr (case find_container (ax_unicode ad) cts container_name of
             None \<Rightarrow> docker_missing ad sid container_name observed
           | Some ct \<Rightarrow> docker_item ad sid ct observed), s))"

definition docker_evidence ::
  "'s adapter \<Rightarrow> container list decoder \<Rightarrow> string \<Rightarrow> string \<Rightarrow> 's \<Rightarrow> (go_error + item list) \<times> 's" where
  "docker_evidence ad decode sid container_name s =
     (case docker_status ad decode sid container_name s of
        (Inl err, s) \<Rightarrow> (Inl err, s)
      | (Inr it, s) \<Rightarrow> (Inr [it], s))"

section \<open>Lemmas\<close>

lemma docker_list_gets: "docker_list ad decode s = (r, s') \<Longrightarrow> only_gets ad 1 (\<lambda>p. p = docker_path) s s'"
  using only_gets_get [of "\<lambda>p. p = docker_path" docker_path ad 0 s]
  by (auto simp: docker_list_def split: prod.splits sum.splits)

lemma docker_evidence_gets: "docker_evidence ad decode sid n s = (r, s') \<Longrightarrow> only_gets ad 1 (\<lambda>p. p = docker_path) s s'"
  by (auto simp: docker_evidence_def docker_status_def dest: docker_list_gets split: prod.splits sum.splits)

lemma health_screened [screened_simps]: "screened e fixed_words fmt (health_from_status uc st)"
  by (auto simp: health_from_status_def Let_def fixed_words_def intro: screened_word)

lemma label_attr_screened [screened_simps]:
  "list_all (screened (ax_engine ad) w (ax_format ad)) (concat (map (\<lambda>(k, v). attr_texts v) (fst (label_attr ad ls k n))))"
  by (simp add: label_attr_def Let_def case_prod_beta screened_simps)

lemma clean_names_screened [screened_simps]: "list_all (screened (ax_engine ad) w (ax_format ad)) (fst (clean_names ad ns))"
  by (simp add: clean_names_def case_prod_beta Let_def screened_simps)

lemma docker_item_screened: "item_screened ad (docker_item ad sid ct observed)"
  unfolding item_screened_def docker_item_def Let_def item_texts_def case_prod_beta
  using label_attr_screened [of ad fixed_words, unfolded case_prod_beta]
  by (simp add: screened_simps)

lemma docker_missing_screened: "item_screened ad (docker_missing ad sid n observed)"
  by (simp add: item_screened_def docker_missing_def item_texts_def Let_def case_prod_beta screened_simps)
    (simp add: fixed_words_def screened_word)

lemma docker_evidence_items:
  assumes "docker_evidence ad decode sid n s = (Inr items, s')"
  shows "list_all (item_screened ad) items"
  using assms
  by (auto simp: docker_evidence_def docker_status_def docker_item_screened docker_missing_screened
      split: prod.splits sum.splits option.splits)

text \<open>The first container one of whose names is the wanted one, up to case, spaces and the leading slash.\<close>

lemma find_container_first:
  "find_container uc cts want = Some ct \<longleftrightarrow>
     (\<exists>i < length cts. ct = cts ! i \<and> normalize_name uc want \<in> normalize_name uc ` set (ct_names ct)
        \<and> (\<forall>j < i. normalize_name uc want \<notin> normalize_name uc ` set (ct_names (cts ! j))))"
proof -
  have "list_ex (\<lambda>n. normalize_name uc n = normalize_name uc want) ns \<longleftrightarrow> normalize_name uc want \<in> normalize_name uc ` set ns" for ns
    unfolding list_ex_iff image_iff by metis
  then show ?thesis unfolding find_container_def find_Some_iff by auto
qed

text \<open>The interface that the operation implements.\<close>

interpretation docker_op: source_operation ad "docker_evidence ad decode sid name" found_list 1 "\<lambda>p. p = docker_path"
  for ad decode sid name
proof
  show "only_gets ad 1 (\<lambda>p. p = docker_path) s s'" if "docker_evidence ad decode sid name s = (r, s')" for s r s'
    using that by (rule docker_evidence_gets)
  show "list_all (item_screened ad) (found_list r)" if "docker_evidence ad decode sid name s = (r, s')" for s r s'
    using that docker_evidence_items by (cases r) auto
qed

end
