(* ===== verification/Gatus.thy ===== *)
theory Gatus
  imports Adapter
begin

text \<open>
  The Gatus adapter (\<open>internal/adapters/gatus/gatus.go\<close>): the two routes, the selection of an endpoint,
  its latest result and the results of a window. \<open>decode\<close> is \<open>json.Unmarshal\<close> into a slice of endpoints
  (with \<open>flex_duration\<close> for the durations), \<open>parse\<close> is \<open>time.Parse\<close> with a layout. Lemmas: requests and
  texts, the endpoint that a key selects, the newest result and the window.
\<close>

section \<open>Data\<close>

record endpoint_result =
  rs_status :: int
  rs_success :: bool
  rs_timestamp :: string
  rs_duration :: string
  rs_errors :: "string list"

record endpoint =
  ep_name :: string
  ep_group :: string
  ep_key :: string
  ep_results :: "endpoint_result list"

text \<open>A duration in the response: null, a string, or a number of nanoseconds.\<close>

datatype json_duration = DurNull | DurString string | DurNanos int

definition flex_duration :: "json_duration \<Rightarrow> string" where
  "flex_duration d = (case d of DurNull \<Rightarrow> [] | DurString s \<Rightarrow> s | DurNanos n \<Rightarrow> if n < 0 then [] else duration_string n)"

section \<open>Requests\<close>

definition gatus_paths :: "string list" where
  "gatus_paths = [''/api/v1/endpoints/statuses'', ''/api/v1/endpoints/statuses/'']"

definition gatus_not_found :: go_error where
  "gatus_not_found = plain_error ''gatus returned 404 for statuses''"

text \<open>\<open>fetchAll\<close>: the next route is tried after a failed request or a 404.\<close>

fun gatus_fetch ::
  "'s adapter \<Rightarrow> endpoint list decoder \<Rightarrow> string list \<Rightarrow> go_error \<Rightarrow> 's \<Rightarrow> (go_error + endpoint list \<times> time) \<times> 's" where
  "gatus_fetch ad decode [] err0 s = (Inl err0, s)"
| "gatus_fetch ad decode (p # ps) err0 s =
     (case ax_get ad p s of
        (Inl err, s) \<Rightarrow> gatus_fetch ad decode ps err s
      | (Inr (resp, body), s) \<Rightarrow>
          if rp_status resp = 404 then gatus_fetch ad decode ps gatus_not_found s
          else (if rp_status resp \<noteq> 200 then Inl (plain_error (''gatus HTTP '' @ show_int (rp_status resp)))
                else (case decode body of
                    None \<Rightarrow> Inl (plain_error ''gatus decode: invalid JSON'')
                  | Some None \<Rightarrow> Inl (plain_error ''gatus decode: expected status array'')
                  | Some (Some eps) \<Rightarrow> Inr (eps, ax_collected ad resp)), s))"

definition gatus_fetch_all ::
  "'s adapter \<Rightarrow> endpoint list decoder \<Rightarrow> 's \<Rightarrow> (go_error + endpoint list \<times> time) \<times> 's" where
  "gatus_fetch_all ad decode s =
     gatus_fetch ad decode gatus_paths (plain_error ''gatus: no statuses endpoint available'') s"

section \<open>Selection\<close>

definition ambiguous_endpoint :: go_error where
  "ambiguous_endpoint = plain_error ''gatus endpoint selection is ambiguous''"

definition is_alias :: "string \<Rightarrow> endpoint \<Rightarrow> bool" where
  "is_alias key ep \<longleftrightarrow> ep_name ep = key \<or> ep_group ep \<noteq> [] \<and> ep_group ep @ ''_'' @ ep_name ep = key"

definition find_endpoint :: "endpoint list \<Rightarrow> string \<Rightarrow> go_error + endpoint option" where
  "find_endpoint eps key =
     (let key = trim_space key
      in case filter (\<lambda>ep. ep_key ep = key) eps of
          [ep] \<Rightarrow> Inr (Some ep)
        | [] \<Rightarrow> (case filter (is_alias key) eps of
              [ep] \<Rightarrow> Inr (Some ep)
            | [] \<Rightarrow> Inr None
            | _ \<Rightarrow> Inl ambiguous_endpoint)
        | _ \<Rightarrow> Inl ambiguous_endpoint)"

section \<open>Items\<close>

definition gatus_layouts :: "string list" where
  "gatus_layouts = [''2006-01-02T15:04:05.999999999Z07:00'', ''2006-01-02T15:04:05Z07:00'',
     ''2006-01-02T15:04:05.999999999Z07:00'', ''2006-01-02 15:04:05'']"

definition gatus_time :: "(string \<Rightarrow> string \<Rightarrow> time option) \<Rightarrow> string \<Rightarrow> time option" where
  "gatus_time parse s =
     (let s = trim_space s in if s = [] then None else parse_first parse gatus_layouts s)"

definition safe_name :: "endpoint \<Rightarrow> string" where
  "safe_name ep =
     (if ep_group ep \<noteq> [] then ep_group ep @ ''/'' @ ep_name ep
      else if ep_name ep \<noteq> [] then ep_name ep else ep_key ep)"

definition gatus_missing :: "'s adapter \<Rightarrow> string \<Rightarrow> string \<Rightarrow> time \<Rightarrow> item" where
  "gatus_missing ad sid endpoint_key observed =
     (let (key, r, c) = clean ad endpoint_key 256
      in \<lparr>it_id = ax_id ad 0, it_service_id = sid, it_source = SourceGatus, it_source_id = key, it_kind = KindEndpointCheck,
          it_observed_at = observed, it_retrieved_at = ax_now ad, it_window_start = None, it_window_end = None,
          it_summary = ''gatus endpoint not found in status list'', it_severity = SeverityUnknown,
          it_attributes = [(''endpoint_key'', AStr key), (''found'', ABool False)],
          it_truncated = c, it_redactions = r, it_freshness = FreshnessMissing, it_order = 0\<rparr>)"

definition gatus_empty :: "'s adapter \<Rightarrow> string \<Rightarrow> endpoint \<Rightarrow> time \<Rightarrow> item" where
  "gatus_empty ad sid ep observed =
     (let (key, key_r, key_c) = clean ad (ep_key ep) 256;
          (name, name_r, name_c) = clean ad (ep_name ep) 256;
          (group, group_r, group_c) = clean ad (ep_group ep) 256;
          (sum, sum_r, sum_c) = clean ad (''gatus endpoint '' @ safe_name ep @ '' has empty results'') 512
      in \<lparr>it_id = ax_id ad 0, it_service_id = sid, it_source = SourceGatus, it_source_id = key, it_kind = KindEndpointCheck,
          it_observed_at = observed, it_retrieved_at = ax_now ad, it_window_start = None, it_window_end = None,
          it_summary = sum, it_severity = SeverityUnknown,
          it_attributes = [(''endpoint_key'', AStr key), (''name'', AStr name), (''group'', AStr group),
            (''found'', ABool True), (''results'', AInt 0)],
          it_truncated = key_c \<or> name_c \<or> group_c \<or> sum_c, it_redactions = key_r + name_r + group_r + sum_r,
          it_freshness = FreshnessUnknown, it_order = 0\<rparr>)"

text \<open>\<open>itemFromResult\<close>; \<open>i\<close> is the number of the identifier that it makes.\<close>

definition gatus_item :: "'s adapter \<Rightarrow> nat \<Rightarrow> string \<Rightarrow> endpoint \<Rightarrow> endpoint_result \<Rightarrow> time \<Rightarrow> bool \<Rightarrow> item" where
  "gatus_item ad i sid ep r ts known =
     (let raw_summary = ''gatus '' @ safe_name ep @ (if rs_success r then '' success status='' else '' failure status='')
            @ show_int (rs_status r);
          (key, key_r, key_c) = clean ad (ep_key ep) 256;
          (name, name_r, name_c) = clean ad (ep_name ep) 256;
          (group, group_r, group_c) = clean ad (ep_group ep) 256;
          (dur, dur_r, dur_c) = (if rs_duration r = [] then ([], 0, False) else clean ad (rs_duration r) 64);
          (errs, errs_r, errs_c) = clean_all ad 256 (take 10 (rs_errors r));
          (sum, sum_r, sum_c) = clean ad raw_summary 512
      in \<lparr>it_id = ax_id ad i, it_service_id = sid, it_source = SourceGatus, it_source_id = key, it_kind = KindEndpointCheck,
          it_observed_at = ts, it_retrieved_at = ax_now ad, it_window_start = None, it_window_end = None,
          it_summary = sum, it_severity = (if rs_success r then SeverityInfo else SeverityError),
          it_attributes = [(''endpoint_key'', AStr key), (''name'', AStr name), (''group'', AStr group),
              (''success'', ABool (rs_success r)), (''http_status'', AInt (rs_status r)), (''found'', ABool True),
              (''source_time_known'', ABool known)]
            @ (if known then [] else [(''collection_time_derived'', ABool True)])
            @ (if rs_duration r = [] then [] else [(''duration'', AStr dur)])
            @ (if rs_errors r = [] then [] else [(''errors'', AStrs errs)]),
          it_truncated = key_c \<or> name_c \<or> group_c \<or> dur_c \<or> length (rs_errors r) > 10 \<or> errs_c \<or> sum_c,
          it_redactions = key_r + name_r + group_r + dur_r + errs_r + sum_r,
          it_freshness = (if known then compute_freshness ts (ax_now ad) else FreshnessUnknown), it_order = 0\<rparr>)"

text \<open>The loop of \<open>itemFromEndpoint\<close>: the result with the greatest time, the first of equal ones.\<close>

fun latest_result ::
  "(string \<Rightarrow> string \<Rightarrow> time option) \<Rightarrow> endpoint_result list \<Rightarrow> (endpoint_result \<times> time) option \<Rightarrow> (endpoint_result \<times> time) option" where
  "latest_result parse [] best = best"
| "latest_result parse (r # rs) best =
     latest_result parse rs (case gatus_time parse (rs_timestamp r) of
        None \<Rightarrow> best
      | Some ts \<Rightarrow> (case best of None \<Rightarrow> Some (r, ts) | Some (_, t) \<Rightarrow> if ts > t then Some (r, ts) else best))"

definition gatus_endpoint_item ::
  "'s adapter \<Rightarrow> (string \<Rightarrow> string \<Rightarrow> time option) \<Rightarrow> string \<Rightarrow> endpoint \<Rightarrow> time \<Rightarrow> item" where
  "gatus_endpoint_item ad parse sid ep snapshot =
     (case ep_results ep of
        [] \<Rightarrow> gatus_empty ad sid ep snapshot
      | first # _ \<Rightarrow> (case latest_result parse (ep_results ep) None of
            None \<Rightarrow> gatus_item ad 0 sid ep first snapshot False
          | Some (r, ts) \<Rightarrow> gatus_item ad 0 sid ep r ts True))"

definition gatus_status ::
  "'s adapter \<Rightarrow> endpoint list decoder \<Rightarrow> (string \<Rightarrow> string \<Rightarrow> time option) \<Rightarrow> string \<Rightarrow> string \<Rightarrow> 's \<Rightarrow>
   (go_error + item) \<times> 's" where
  "gatus_status ad decode parse sid key s =
     (case gatus_fetch_all ad decode s of
        (Inl err, s) \<Rightarrow> (Inl err, s)
      | (Inr (eps, snapshot), s) \<Rightarrow>
          ((case find_endpoint eps key of
              Inl err \<Rightarrow> Inl err
            | Inr None \<Rightarrow> Inr (gatus_missing ad sid key snapshot)
            | Inr (Some ep) \<Rightarrow> Inr (gatus_endpoint_item ad parse sid ep snapshot)), s))"

section \<open>The window\<close>

text \<open>The results whose time is known and in the window, in time order.\<close>

definition timed_results ::
  "(string \<Rightarrow> string \<Rightarrow> time option) \<Rightarrow> time \<Rightarrow> time \<Rightarrow> endpoint_result list \<Rightarrow> (endpoint_result \<times> time) list" where
  "timed_results parse st fin rs =
     slice_stable (\<lambda>a b. snd a < snd b)
       (concat (map (\<lambda>r. case gatus_time parse (rs_timestamp r) of
          None \<Rightarrow> []
        | Some ts \<Rightarrow> if ts < st \<or> fin < ts then [] else [(r, ts)]) rs))"

definition gatus_window ::
  "'s adapter \<Rightarrow> endpoint list decoder \<Rightarrow> (string \<Rightarrow> string \<Rightarrow> time option) \<Rightarrow> string \<Rightarrow> string \<Rightarrow> time \<Rightarrow> time \<Rightarrow> int \<Rightarrow> 's \<Rightarrow>
   ((item list \<times> bool) \<times> go_error option) \<times> 's" where
  "gatus_window ad decode parse sid key st fin mx s =
     (case gatus_fetch_all ad decode s of
        (Inl err, s) \<Rightarrow> ((([], False), Some err), s)
      | (Inr (eps, snapshot), s) \<Rightarrow>
          ((case find_endpoint eps key of
              Inl err \<Rightarrow> (([], False), Some err)
            | Inr None \<Rightarrow>
                if snapshot < st \<or> fin + 30 * second < snapshot then (([], False), None)
                else (([in_window st fin (gatus_missing ad sid key snapshot)], False), None)
            | Inr (Some ep) \<Rightarrow>
                (let mx = (if mx \<le> 0 then 20 else mx);
                     prs = timed_results parse st fin (ep_results ep);
                     clipped = int (length prs) > mx;
                     prs = (if clipped then drop (length prs - nat mx) prs else prs)
                 in ((map (\<lambda>(i, r, ts). in_window st fin (gatus_item ad i sid ep r ts True)) (enumerate 0 prs), clipped), None))), s))"

section \<open>Lemmas\<close>

lemma gatus_fetch_gets:
  "gatus_fetch ad decode ps err0 s = (r, s') \<Longrightarrow> set ps \<subseteq> Q \<Longrightarrow> only_gets ad (length ps) (\<lambda>p. p \<in> Q) s s'"
proof (induction ad decode ps err0 s rule: gatus_fetch.induct)
  case (2 ad decode p ps err0 s)
  obtain g s1 where g: "ax_get ad p s = (g, s1)" by fastforce
  have p: "p \<in> Q" using 2(4) by simp
  have one: "only_gets ad (length (p # ps)) (\<lambda>p. p \<in> Q) s s1"
    using only_gets_mono [OF only_gets_get [of "\<lambda>p. p \<in> Q" p ad 0 s, OF p], of "length (p # ps)"] g by simp
  have step: "only_gets ad (length (p # ps)) (\<lambda>p. p \<in> Q) s s'" if "only_gets ad (length ps) (\<lambda>p. p \<in> Q) s1 s'"
    using only_gets_step [of "\<lambda>p. p \<in> Q" p ad "length ps" s s'] p that g by simp
  show ?case
  proof (cases g)
    case (Inl err)
    with 2 g step show ?thesis by (auto simp: Inl)
  next
    case (Inr b)
    obtain resp body where b: "b = (resp, body)" by fastforce
    show ?thesis
    proof (cases "rp_status resp = 404")
      case True
      with 2 g b Inr step show ?thesis by auto
    next
      case False
      with 2(3) g b Inr have "s' = s1" by (auto split: option.splits)
      with one show ?thesis by simp
    qed
  qed
qed simp

lemma gatus_fetch_all_gets:
  "gatus_fetch_all ad decode s = (r, s') \<Longrightarrow> only_gets ad 2 (\<lambda>p. p \<in> set gatus_paths) s s'"
  unfolding gatus_fetch_all_def
  by (drule gatus_fetch_gets [of _ _ _ _ _ _ _ "set gatus_paths"]) (simp_all add: gatus_paths_def eval_nat_numeral)

lemma gatus_item_screened: "item_screened ad (gatus_item ad i sid ep r ts known)"
  unfolding item_screened_def gatus_item_def Let_def item_texts_def case_prod_beta
  by (simp add: screened_simps if_distrib)

lemma gatus_missing_screened: "item_screened ad (gatus_missing ad sid key observed)"
  by (simp add: item_screened_def gatus_missing_def item_texts_def Let_def case_prod_beta screened_simps)
    (simp add: fixed_words_def screened_word)

lemma gatus_empty_screened: "item_screened ad (gatus_empty ad sid ep observed)"
  by (simp add: item_screened_def gatus_empty_def item_texts_def Let_def case_prod_beta screened_simps)

lemma gatus_endpoint_screened: "item_screened ad (gatus_endpoint_item ad parse sid ep snapshot)"
  by (auto simp: gatus_endpoint_item_def gatus_item_screened gatus_empty_screened split: list.split option.split)

lemma gatus_status_gets: "gatus_status ad decode parse sid key s = (r, s') \<Longrightarrow> only_gets ad 2 (\<lambda>p. p \<in> set gatus_paths) s s'"
  by (auto simp: gatus_status_def dest: gatus_fetch_all_gets split: prod.splits sum.splits)

lemma gatus_window_gets:
  "gatus_window ad decode parse sid key st fin mx s = (r, s') \<Longrightarrow> only_gets ad 2 (\<lambda>p. p \<in> set gatus_paths) s s'"
  by (auto simp: gatus_window_def dest: gatus_fetch_all_gets split: prod.splits sum.splits)

lemma gatus_status_screened: "gatus_status ad decode parse sid key s = (Inr it, s') \<Longrightarrow> item_screened ad it"
  by (auto simp: gatus_status_def gatus_missing_screened gatus_endpoint_screened split: prod.splits sum.splits option.splits)

lemma gatus_window_screened:
  "gatus_window ad decode parse sid key st fin mx s = (((items, c), err), s') \<Longrightarrow> list_all (item_screened ad) items"
  by (auto simp: gatus_window_def gatus_missing_screened gatus_item_screened Let_def list_all_iff
      split: prod.splits sum.splits option.splits if_splits)

text \<open>An exact key is preferred to an alias, and only a single endpoint is ever selected.\<close>

lemma single_filter: "filter P xs = [x] \<Longrightarrow> x \<in> set xs \<and> P x \<and> (\<forall>y \<in> set xs. P y \<longrightarrow> y = x)"
proof -
  assume "filter P xs = [x]"
  then have "set (filter P xs) = set [x]" by (rule arg_cong)
  then show ?thesis by auto
qed

lemma find_endpoint_selects:
  assumes "find_endpoint eps key = Inr (Some ep)"
  shows "ep \<in> set eps \<and> (ep_key ep = trim_space key
      \<or> is_alias (trim_space key) ep \<and> (\<forall>e \<in> set eps. ep_key e \<noteq> trim_space key))"
    and "\<forall>e \<in> set eps. ep_key e = trim_space key \<longrightarrow> e = ep"
proof -
  let ?k = "trim_space key"
  consider (by_key) "filter (\<lambda>e. ep_key e = ?k) eps = [ep]"
    | (by_alias) "filter (\<lambda>e. ep_key e = ?k) eps = []" "filter (is_alias ?k) eps = [ep]"
    using assms by (auto simp: find_endpoint_def Let_def split: list.splits)
  then have "ep \<in> set eps \<and> (ep_key ep = ?k \<or> is_alias ?k ep \<and> (\<forall>e \<in> set eps. ep_key e \<noteq> ?k))
      \<and> (\<forall>e \<in> set eps. ep_key e = ?k \<longrightarrow> e = ep)"
  proof cases
    case by_key
    from single_filter [OF by_key] show ?thesis by blast
  next
    case by_alias
    from single_filter [OF by_alias(2)] by_alias(1) show ?thesis by (auto simp: filter_empty_conv)
  qed
  then show "ep \<in> set eps \<and> (ep_key ep = ?k \<or> is_alias ?k ep \<and> (\<forall>e \<in> set eps. ep_key e \<noteq> ?k))"
    and "\<forall>e \<in> set eps. ep_key e = ?k \<longrightarrow> e = ep" by blast+
qed

text \<open>The times of results that can be read.\<close>

definition known_times :: "(string \<Rightarrow> string \<Rightarrow> time option) \<Rightarrow> endpoint_result list \<Rightarrow> time set" where
  "known_times parse rs = {ts. \<exists>r \<in> set rs. gatus_time parse (rs_timestamp r) = Some ts}"

lemma latest_result_spec:
  "case latest_result parse rs best of
     None \<Rightarrow> best = None \<and> known_times parse rs = {}
   | Some (r, ts) \<Rightarrow> (r \<in> set rs \<and> gatus_time parse (rs_timestamp r) = Some ts \<or> best = Some (r, ts))
       \<and> (\<forall>t \<in> known_times parse rs. t \<le> ts) \<and> (\<forall>p. best = Some p \<longrightarrow> snd p \<le> ts)"
proof (induction rs arbitrary: best)
  case Nil
  then show ?case by (auto simp: known_times_def split: option.split)
next
  case (Cons a rs)
  have known: "known_times parse (a # rs) = (case gatus_time parse (rs_timestamp a) of
      None \<Rightarrow> known_times parse rs | Some ts \<Rightarrow> insert ts (known_times parse rs))"
    by (auto simp: known_times_def split: option.split)
  show ?case
  proof (cases "gatus_time parse (rs_timestamp a)")
    case None
    with Cons.IH [of best] known show ?thesis by (auto split: option.splits)
  next
    case (Some ta)
    show ?thesis
    proof (cases best)
      case None
      with Cons.IH [of "Some (a, ta)"] Some known show ?thesis by (auto split: option.splits)
    next
      case best: (Some p)
      obtain rb tb where p: "p = (rb, tb)" by fastforce
      show ?thesis
      proof (cases "ta > tb")
        case True
        with Cons.IH [of "Some (a, ta)"] Some known best p show ?thesis by (fastforce split: option.splits)
      next
        case False
        with Cons.IH [of "Some (rb, tb)"] Some known best p show ?thesis by (fastforce split: option.splits)
      qed
    qed
  qed
qed

lemma timed_results_ok:
  "sorted (map snd (timed_results parse st fin rs))"
  "(r, ts) \<in> set (timed_results parse st fin rs)
     \<longleftrightarrow> r \<in> set rs \<and> gatus_time parse (rs_timestamp r) = Some ts \<and> st \<le> ts \<and> ts \<le> fin"
proof -
  have eq: "timed_results parse st fin rs = sort_key snd
       (concat (map (\<lambda>r. case gatus_time parse (rs_timestamp r) of
          None \<Rightarrow> [] | Some ts \<Rightarrow> if ts < st \<or> fin < ts then [] else [(r, ts)]) rs))"
    unfolding timed_results_def by (rule slice_stable_sort_key) simp
  show "sorted (map snd (timed_results parse st fin rs))" unfolding eq by (rule sorted_sort_key)
  show "(r, ts) \<in> set (timed_results parse st fin rs)
     \<longleftrightarrow> r \<in> set rs \<and> gatus_time parse (rs_timestamp r) = Some ts \<and> st \<le> ts \<and> ts \<le> fin"
  proof
    assume "(r, ts) \<in> set (timed_results parse st fin rs)"
    then show "r \<in> set rs \<and> gatus_time parse (rs_timestamp r) = Some ts \<and> st \<le> ts \<and> ts \<le> fin"
      unfolding eq by (auto split: option.splits if_splits)
  next
    assume "r \<in> set rs \<and> gatus_time parse (rs_timestamp r) = Some ts \<and> st \<le> ts \<and> ts \<le> fin"
    then show "(r, ts) \<in> set (timed_results parse st fin rs)"
      unfolding eq set_sort set_concat set_map by (intro UN_I [of "_"] imageI) auto
  qed
qed

lemma gatus_item_time [simp]: "it_observed_at (gatus_item ad i sid ep r ts known) = ts"
  "is_missing_item (gatus_item ad i sid ep r ts known) = False"
  by (simp_all add: gatus_item_def Let_def case_prod_beta is_missing_item_def compute_freshness_def)

lemma gatus_missing_simps [simp]:
  "it_observed_at (gatus_missing ad sid key t) = t" "is_missing_item (gatus_missing ad sid key t)"
  by (simp_all add: gatus_missing_def Let_def case_prod_beta is_missing_item_def)

lemma gatus_window_history:
  assumes "gatus_window ad decode parse sid key st fin mx s = (((items, c), None), s')"
  shows "history_ok is_missing_item st fin (if mx \<le> 0 then 20 else mx) items"
proof -
  obtain eps snapshot where fetch: "gatus_fetch_all ad decode s = (Inr (eps, snapshot), s')"
    using assms by (auto simp: gatus_window_def split: prod.splits sum.splits)
  have mx: "1 \<le> (if mx \<le> 0 then 20 else mx)" by simp
  consider (missing) "find_endpoint eps key = Inr None" | ep where "find_endpoint eps key = Inr (Some ep)"
    using assms fetch by (auto simp: gatus_window_def split: sum.splits option.splits)
  then show ?thesis
  proof cases
    case missing
    with assms fetch show ?thesis
      using mx by (auto simp: gatus_window_def history_ok_def split: if_splits)
  next
    case (2 ep)
    define m where "m = (if mx \<le> 0 then 20 else mx)"
    define prs where "prs = timed_results parse st fin (ep_results ep)"
    define kept where "kept = (if int (length prs) > m then drop (length prs - nat m) prs else prs)"
    have items: "items = map (\<lambda>(i, r, ts). in_window st fin (gatus_item ad i sid ep r ts True)) (enumerate 0 kept)"
      using assms fetch 2 by (simp add: gatus_window_def Let_def m_def prs_def kept_def split: if_splits)
    have sub: "set kept \<subseteq> set prs" "sorted (map snd kept)" "int (length kept) \<le> m"
      using timed_results_ok(1) [of parse st fin "ep_results ep"] set_drop_subset [of _ prs] mx
      by (auto simp: kept_def prs_def drop_map [symmetric] sorted_wrt_drop m_def)
    have times: "map it_observed_at items = map snd kept"
      unfolding items map_map by (simp add: comp_def case_prod_beta map_enumerate_snd)
    have "st \<le> it_observed_at it \<and> it_observed_at it \<le> fin \<and> \<not> is_missing_item it
        \<and> it_window_start it = Some st \<and> it_window_end it = Some fin" if "it \<in> set items" for it
    proof -
      from that obtain i r ts where it: "it = in_window st fin (gatus_item ad i sid ep r ts True)" "(r, ts) \<in> set kept"
        unfolding items by (auto dest: in_enumerate)
      with sub(1) timed_results_ok(2) [of r ts parse st fin "ep_results ep"] show ?thesis
        by (auto simp: prs_def)
    qed
    with sub(2,3) times show ?thesis
      unfolding history_ok_def m_def [symmetric] by (auto simp: list_all_iff items)
  qed
qed

section \<open>The interface\<close>

text \<open>The interface that the operations implement.\<close>

interpretation gatus_status_op: source_operation ad "gatus_status ad decode parse sid key" found_one 2 "\<lambda>p. p \<in> set gatus_paths"
  for ad decode parse sid key
proof
  show "only_gets ad 2 (\<lambda>p. p \<in> set gatus_paths) s s'" if "gatus_status ad decode parse sid key s = (r, s')" for s r s'
    using that by (rule gatus_status_gets)
  show "list_all (item_screened ad) (found_one r)" if "gatus_status ad decode parse sid key s = (r, s')" for s r s'
    using that gatus_status_screened by (cases r) auto
qed

interpretation gatus_window_op: source_operation ad "gatus_window ad decode parse sid key st fin mx" "\<lambda>r. fst (fst r)" 2 "\<lambda>p. p \<in> set gatus_paths"
  for ad decode parse sid key st fin mx
proof
  show "only_gets ad 2 (\<lambda>p. p \<in> set gatus_paths) s s'" if "gatus_window ad decode parse sid key st fin mx s = (r, s')" for s r s'
    using that by (rule gatus_window_gets)
  show "list_all (item_screened ad) (fst (fst r))" if "gatus_window ad decode parse sid key st fin mx s = (r, s')" for s r s'
    using that gatus_window_screened by (cases r; cases "fst r") auto
qed

section \<open>Properties\<close>

text \<open>
  Property C39: the status of an endpoint is its newest result. If the key selects an endpoint with
  results of which some have a readable time, the item is dated with the greatest of these times and
  its success and severity are those of a result with that time, wherever it stands in the response;
  without any readable time it is dated with the collection and is never called fresh.
\<close>
theorem gatus_status_is_newest_result:
  assumes "gatus_status ad decode parse sid key s = (Inr it, s')"
    and "gatus_fetch_all ad decode s = (Inr (eps, snapshot), s')" and "find_endpoint eps key = Inr (Some ep)"
    and "ep_results ep \<noteq> []"
  shows "if known_times parse (ep_results ep) = {}
    then it_observed_at it = snapshot \<and> it_freshness it = FreshnessUnknown
    else it_observed_at it \<in> known_times parse (ep_results ep)
      \<and> (\<forall>t \<in> known_times parse (ep_results ep). t \<le> it_observed_at it)
      \<and> (\<exists>r \<in> set (ep_results ep). gatus_time parse (rs_timestamp r) = Some (it_observed_at it)
          \<and> map_of (it_attributes it) ''success'' = Some (ABool (rs_success r))
          \<and> it_severity it = (if rs_success r then SeverityInfo else SeverityError))"
proof -
  have it: "it = gatus_endpoint_item ad parse sid ep snapshot"
    using assms(1-3) by (auto simp: gatus_status_def)
  have attrs: "map_of (it_attributes (gatus_item ad i sid ep r ts known)) ''success'' = Some (ABool (rs_success r))"
    "it_severity (gatus_item ad i sid ep r ts known) = (if rs_success r then SeverityInfo else SeverityError)"
    "it_freshness (gatus_item ad i sid ep r ts False) = FreshnessUnknown" for i r ts known
    by (simp_all add: gatus_item_def Let_def case_prod_beta)
  obtain r1 rs where rs: "ep_results ep = r1 # rs" using assms(4) by (cases "ep_results ep") auto
  note spec = latest_result_spec [where parse = parse and rs = "ep_results ep" and best = None]
  show ?thesis
  proof (cases "latest_result parse (ep_results ep) None")
    case None
    with spec have "known_times parse (ep_results ep) = {}" by simp
    moreover have "it = gatus_item ad 0 sid ep r1 snapshot False"
      using None by (simp add: it gatus_endpoint_item_def rs)
    ultimately show ?thesis using attrs(3) by simp
  next
    case (Some p)
    obtain r ts where p: "p = (r, ts)" by fastforce
    from spec Some p have r: "r \<in> set (ep_results ep)" "gatus_time parse (rs_timestamp r) = Some ts"
      "\<forall>t \<in> known_times parse (ep_results ep). t \<le> ts" by auto
    then have "ts \<in> known_times parse (ep_results ep)" by (auto simp: known_times_def)
    moreover have "it = gatus_item ad 0 sid ep r ts True"
      using Some p by (simp add: it gatus_endpoint_item_def rs)
    ultimately show ?thesis using r attrs(1,2) by auto
  qed
qed

text \<open>One endpoint whose second result is the newest.\<close>

definition example_endpoint :: endpoint where
  "example_endpoint = \<lparr>ep_name = ''web'', ep_group = [], ep_key = ''k'', ep_results =
     [\<lparr>rs_status = 200, rs_success = True, rs_timestamp = ''3'', rs_duration = [], rs_errors = []\<rparr>,
      \<lparr>rs_status = 500, rs_success = False, rs_timestamp = ''7'', rs_duration = [], rs_errors = []\<rparr>]\<rparr>"

definition example_parse_ts :: "string \<Rightarrow> string \<Rightarrow> time option" where
  "example_parse_ts l s = (if s = ''3'' then Some 3 else if s = ''7'' then Some 7 else None)"

lemma gatus_status_is_newest_result_witness:
  "\<exists>it s'. gatus_status example_adapter (\<lambda>_. Some (Some [example_endpoint])) example_parse_ts ''s'' ''k'' 0 = (Inr it, s')
     \<and> it_observed_at it = 7 \<and> it_severity it = SeverityError"
proof -
  have trim: "trim_space ''k'' = ''k''" "trim_space ''3'' = ''3''" "trim_space ''7'' = ''7''"
    by (simp_all add: ascii_eval trim_space_def space_chunk_def is_space_def)
  have known: "known_times example_parse_ts (ep_results example_endpoint) = {3, 7}"
    by (auto simp: known_times_def example_endpoint_def gatus_time_def trim gatus_layouts_def example_parse_ts_def)
  have fetch: "gatus_fetch_all example_adapter (\<lambda>_. Some (Some [example_endpoint])) 0 = (Inr ([example_endpoint], 100), 1)"
    by (simp add: gatus_fetch_all_def gatus_paths_def example_adapter_def collection_time_def header_get_def)
  have find: "find_endpoint [example_endpoint] ''k'' = Inr (Some example_endpoint)"
    by (simp add: find_endpoint_def trim example_endpoint_def)
  obtain it where it: "gatus_status example_adapter (\<lambda>_. Some (Some [example_endpoint])) example_parse_ts ''s'' ''k'' 0 = (Inr it, 1)"
    using fetch find by (simp add: gatus_status_def)
  have ne: "ep_results example_endpoint \<noteq> []" by (simp add: example_endpoint_def)
  from gatus_status_is_newest_result [OF it fetch find ne] known
  have obs: "it_observed_at it \<in> {3, 7}" "7 \<le> it_observed_at it"
    and "\<exists>r \<in> set (ep_results example_endpoint). gatus_time example_parse_ts (rs_timestamp r) = Some (it_observed_at it)
      \<and> it_severity it = (if rs_success r then SeverityInfo else SeverityError)" by auto
  moreover have "it_observed_at it = 7" using obs by auto
  ultimately have "it_severity it = SeverityError"
    by (auto simp: example_endpoint_def gatus_time_def trim gatus_layouts_def example_parse_ts_def)
  with it \<open>it_observed_at it = 7\<close> show ?thesis by blast
qed

end
