(* ===== verification/Ntfy.thy ===== *)
theory Ntfy
  imports Adapter
begin

text \<open>
  The ntfy adapter (\<open>internal/adapters/ntfy/ntfy.go\<close>): the request for stored messages, the two response
  forms, and the history of a topic. \<open>array\<close> is \<open>json.Unmarshal\<close> into a slice of message pointers and
  \<open>object\<close> into one message pointer, both \<open>None\<close> for an error. Lemmas: the request stays on the topic, texts
  are screened, and the history is in the window and bounded.
\<close>

section \<open>Messages\<close>

record message =
  ms_id :: string
  ms_time :: int
  ms_event :: string
  ms_title :: string
  ms_message :: string
  ms_priority :: "int option"
  ms_tags :: "string list"

definition ntfy_default_priority :: int where "ntfy_default_priority = 3"
definition ntfy_minimum_priority :: int where "ntfy_minimum_priority = 1"
definition ntfy_maximum_priority :: int where "ntfy_maximum_priority = 5"

definition severity_for_priority :: "int \<Rightarrow> severity \<times> bool" where
  "severity_for_priority p =
     (if p = 1 \<or> p = 2 \<or> p = 3 then (SeverityInfo, True)
      else if p = 4 then (SeverityError, True)
      else if p = 5 then (SeverityCritical, True)
      else (SeverityUnknown, False))"

definition effective_priority :: "int option \<Rightarrow> int \<times> bool" where
  "effective_priority reported =
     (case reported of
        None \<Rightarrow> (ntfy_default_priority, True)
      | Some p \<Rightarrow> (p, \<not> (p < ntfy_minimum_priority \<or> p > ntfy_maximum_priority)))"

section \<open>Decoding\<close>

record ntfy_json =
  nj_array :: "string \<Rightarrow> message option list option"
  nj_object :: "string \<Rightarrow> message option"

text \<open>The lines of \<open>bufio.Scanner\<close>: no empty last line, and a final carriage return is dropped.\<close>

definition drop_cr :: "string \<Rightarrow> string" where
  "drop_cr s = (if s \<noteq> [] \<and> last s = CHR 0x0D then butlast s else s)"

definition scan_lines :: "string \<Rightarrow> string list" where
  "scan_lines s =
     (let ls = split_on (CHR 0x0A) s
      in if last ls = [] then butlast ls else ls)"

text \<open>A line of one MiB does not fit the scanner's buffer.\<close>

fun decode_lines :: "ntfy_json \<Rightarrow> string list \<Rightarrow> go_error + message list" where
  "decode_lines js [] = Inr []"
| "decode_lines js (l # ls) =
     (if length l \<ge> 2 ^ 20 then Inl (plain_error ''ntfy decode: bufio.Scanner: token too long'')
      else (let line = trim_space (drop_cr l)
            in if line = [] then decode_lines js ls
               else (case nj_object js line of
                   None \<Rightarrow> Inl (plain_error ''ntfy decode: invalid NDJSON line'')
                 | Some m \<Rightarrow> (case decode_lines js ls of Inl e \<Rightarrow> Inl e | Inr ms \<Rightarrow> Inr (m # ms)))))"

definition decode_messages :: "ntfy_json \<Rightarrow> string \<Rightarrow> go_error + message list" where
  "decode_messages js body =
     (let body = trim_space body
      in if body = [] then Inr []
         else if hd body = CHR ''['' then
           (case nj_array js body of
              None \<Rightarrow> Inl (plain_error ''ntfy decode: invalid JSON array'')
            | Some ms \<Rightarrow> if None \<in> set ms then Inl (plain_error ''ntfy decode: null message'') else Inr (map the ms))
         else decode_lines js (scan_lines body))"

section \<open>Items\<close>

definition ntfy_text :: "message \<Rightarrow> string" where
  "ntfy_text m = (if ms_title m \<noteq> [] then ms_title m @ '': '' @ ms_message m else ms_message m)"

text \<open>The cleaning of the tags (\<open>SanitizeControl\<close>, \<open>Apply\<close>, \<open>Truncate\<close>) is that of \<open>ApplyAndTruncate\<close>.\<close>

definition ntfy_item :: "'s adapter \<Rightarrow> int \<Rightarrow> nat \<Rightarrow> string \<Rightarrow> string \<Rightarrow> message \<Rightarrow> time \<Rightarrow> item" where
  "ntfy_item ad max_line i sid topic m ts =
     (let (topic_s, topic_r, topic_c) = clean ad topic 64;
          (cleaned, text_r) = redact_apply (Some (ax_engine ad)) (sanitize_control (ntfy_text m));
          (cleaned, text_c) = truncate_bytes (neutralize_instruction_like (ax_unicode ad) cleaned) max_line;
          (priority, priority_ok) = effective_priority (ms_priority m);
          (sev, mapped) = severity_for_priority priority;
          (sum, sum_c) = (if rune_count cleaned > 200 then truncate_runes cleaned 200 else (cleaned, False));
          (tags, tags_r, tags_c) = clean_all ad 64 (take 32 (ms_tags m));
          (source, source_r, source_c) = (if ms_id m = [] then (topic_s, 0, False) else clean ad (ms_id m) 256)
      in \<lparr>it_id = ax_id ad i, it_service_id = sid, it_source = SourceNtfy, it_source_id = source, it_kind = KindNotification,
          it_observed_at = ts, it_retrieved_at = ax_now ad, it_window_start = None, it_window_end = None,
          it_summary = sum, it_severity = (if \<not> priority_ok \<or> \<not> mapped then SeverityUnknown else sev),
          it_attributes = [(''topic'', AStr topic_s), (''priority'', AInt priority), (''message'', AStr cleaned)]
            @ (if priority_ok then [] else [(''priority_valid'', ABool False)])
            @ (if ms_tags m = [] then [] else [(''tags'', AStrs tags)]),
          it_truncated = text_c \<or> sum_c \<or> length (ms_tags m) > 32 \<or> tags_c \<or> source_c \<or> topic_c,
          it_redactions = text_r + topic_r + tags_r + source_r,
          it_freshness = compute_freshness ts (ax_now ad), it_order = 0\<rparr>)"

definition message_less :: "message \<Rightarrow> message \<Rightarrow> bool" where
  "message_less a b = (if ms_time a \<noteq> ms_time b then ms_time a < ms_time b else ms_id a < ms_id b)"

text \<open>The time at which a message counts, if it is one and lies in the window.\<close>

definition message_time :: "time \<Rightarrow> time \<Rightarrow> time \<Rightarrow> message \<Rightarrow> time option" where
  "message_time snapshot st fin m =
     (if ms_event m \<noteq> [] \<and> ms_event m \<noteq> ''message'' then None
      else if ms_time m \<le> 0 then (if snapshot < st \<or> fin + 30 * second < snapshot then None else Some snapshot)
      else (let ts = unix_time (ms_time m) 0 in if ts < st \<or> fin < ts then None else Some ts))"

definition message_items ::
  "'s adapter \<Rightarrow> int \<Rightarrow> string \<Rightarrow> string \<Rightarrow> time \<Rightarrow> time \<Rightarrow> time \<Rightarrow> message list \<Rightarrow> item list" where
  "message_items ad max_line sid topic snapshot st fin ms =
     (let timed = concat (map (\<lambda>m. case message_time snapshot st fin m of None \<Rightarrow> [] | Some ts \<Rightarrow> [(m, ts)]) ms)
      in map (\<lambda>(i, m, ts). in_window st fin (ntfy_item ad max_line i sid topic m ts)) (enumerate 0 timed))"

section \<open>History\<close>

definition unix_seconds :: "time \<Rightarrow> int" where
  "unix_seconds t = (t - unix_epoch) div second"

definition ntfy_path :: "string \<Rightarrow> time \<Rightarrow> string" where
  "ntfy_path topic st = ''/'' @ path_escape topic @ ''/json?''
     @ encode_values [(''poll'', ''1''), (''since'', show_int (unix_seconds st))]"

definition ntfy_history ::
  "'s adapter \<Rightarrow> ntfy_json \<Rightarrow> int \<Rightarrow> string \<Rightarrow> string \<Rightarrow> time \<Rightarrow> time \<Rightarrow> int \<Rightarrow> 's \<Rightarrow>
   ((item list \<times> bool \<times> bool) \<times> go_error option) \<times> 's" where
  "ntfy_history ad js max_line sid topic st fin limit s =
     (let failed = (\<lambda>e. (([], False, False), Some (plain_error e)));
          limit = (if limit \<le> 0 then 50 else limit)
      in if topic = [] then (failed ''ntfy topic is required'', s)
         else if \<not> st < fin then (failed ''invalid time window'', s)
         else (case ax_get ad (ntfy_path topic st) s of
             (Inl err, s) \<Rightarrow> ((([], False, False), Some err), s)
           | (Inr (resp, body), s) \<Rightarrow>
               (if rp_status resp = 401 \<or> rp_status resp = 403 then failed ''ntfy authentication failed''
                else if rp_status resp = 404 then failed ''ntfy topic not found''
                else if rp_status resp \<noteq> 200 then failed (''ntfy HTTP '' @ show_int (rp_status resp))
                else (case decode_messages js body of
                    Inl err \<Rightarrow> (([], False, False), Some err)
                  | Inr ms \<Rightarrow>
                      (let max_line = (if max_line \<le> 0 then 2048 else max_line);
                           items = message_items ad max_line sid topic (ax_collected ad resp) st fin (slice_stable message_less ms);
                           (kept, clipped) = keep_newest items limit
                       in ((kept, upstream_truncated (ax_unicode ad) (Some resp), clipped), None))), s)))"

section \<open>Lemmas\<close>

text \<open>An escaped topic is one segment of a path.\<close>

lemma percent_chars: "set (percent c) \<subseteq> insert (CHR ''%'') (set ''0123456789ABCDEF'')"
proof -
  have "hex_upper (of_char c div 16) \<in> set ''0123456789ABCDEF''" "hex_upper (of_char c mod 16) \<in> set ''0123456789ABCDEF''"
    unfolding hex_upper_def by (rule nth_mem, simp add: less_mult_imp_div_less)+
  then show ?thesis by (simp add: percent_def)
qed

lemma path_escape_segment: "CHR ''/'' \<notin> set (path_escape s)" "CHR ''?'' \<notin> set (path_escape s)" "CHR ''#'' \<notin> set (path_escape s)"
  using percent_chars by (fastforce simp: path_escape_def unreserved_def Let_def)+

text \<open>The requests of the adapter: one segment, then the route for stored messages.\<close>

definition ntfy_route :: "string \<Rightarrow> bool" where
  "ntfy_route p \<longleftrightarrow> (\<exists>seg q. p = ''/'' @ seg @ ''/json?poll=1&since='' @ q \<and> set seg \<inter> set ''/?#'' = {}
     \<and> list_all unreserved q)"

lemma ntfy_path_route: "ntfy_route (ntfy_path topic st)"
proof -
  have words: "query_escape ''poll'' = ''poll''" "query_escape ''1'' = ''1''" "query_escape ''since'' = ''since''"
    by (rule query_escape_plain, simp add: unreserved_def Let_def)+
  have "ntfy_path topic st = ''/'' @ path_escape topic @ ''/json?poll=1&since='' @ show_int (unix_seconds st)"
    by (simp add: ntfy_path_def encode_values_def words query_escape_plain [OF unreserved_show_int])
  moreover have "set (path_escape topic) \<inter> set ''/?#'' = {}" using path_escape_segment [of topic] by simp
  ultimately show ?thesis using unreserved_show_int unfolding ntfy_route_def by blast
qed

lemma ntfy_history_gets:
  assumes "ntfy_history ad js max_line sid topic st fin limit s = (r, s')"
  shows "only_gets ad 1 (\<lambda>p. p = ntfy_path topic st) s s'"
  using assms only_gets_get [of "\<lambda>p. p = ntfy_path topic st" "ntfy_path topic st" ad 0 s]
  by (auto simp: ntfy_history_def Let_def split: prod.splits sum.splits if_splits)

lemma ntfy_item_screened: "item_screened ad (ntfy_item ad max_line i sid topic m ts)"
proof -
  have body: "screened (ax_engine ad) w (ax_format ad)
      (fst (truncate_bytes (neutralize_instruction_like uc (fst (redact_apply (Some (ax_engine ad)) x))) n))" for w uc x n
    by (intro screened_bytes screened_marked screened_engine)
  show ?thesis
    unfolding item_screened_def ntfy_item_def Let_def item_texts_def case_prod_beta
    by (simp add: screened_simps body screened_runes)
qed

lemma ntfy_item_time [simp]: "it_observed_at (ntfy_item ad max_line i sid topic m ts) = ts"
  by (simp add: ntfy_item_def Let_def case_prod_beta)

lemma message_items_cases:
  assumes "it \<in> set (message_items ad max_line sid topic snapshot st fin ms)"
  obtains i m ts where "m \<in> set ms" "message_time snapshot st fin m = Some ts"
    "it = in_window st fin (ntfy_item ad max_line i sid topic m ts)"
proof -
  from assms obtain i m ts where it: "it = in_window st fin (ntfy_item ad max_line i sid topic m ts)"
    "(m, ts) \<in> set (concat (map (\<lambda>m. case message_time snapshot st fin m of None \<Rightarrow> [] | Some ts \<Rightarrow> [(m, ts)]) ms))"
    unfolding message_items_def Let_def by (auto dest!: in_enumerate)
  then have "m \<in> set ms" "message_time snapshot st fin m = Some ts" by (auto split: option.splits)
  with it(1) that show ?thesis by blast
qed

lemma message_time_window:
  "message_time snapshot st fin m = Some ts \<Longrightarrow> st \<le> ts \<and> ts \<le> (if ts = snapshot then fin + 30 * second else fin)"
  by (auto simp: message_time_def Let_def second_def split: if_splits)

lemma ntfy_history_screened:
  assumes "ntfy_history ad js max_line sid topic st fin limit s = (((items, u, c), err), s')"
  shows "list_all (item_screened ad) items"
proof -
  have "item_screened ad it" if "it \<in> set (fst (keep_newest (message_items ad n sid topic snapshot st fin ms) l))" for it n snapshot ms l
    using that keep_newest_subset [of "message_items ad n sid topic snapshot st fin ms" l]
    by (auto elim!: message_items_cases simp: ntfy_item_screened)
  with assms show ?thesis
    by (auto simp: ntfy_history_def Let_def list_all_iff case_prod_beta split: prod.splits sum.splits if_splits)
qed

lemma ntfy_history_window:
  assumes "ntfy_history ad js max_line sid topic st fin limit s = (((items, u, c), None), s')"
  shows "\<exists>snapshot. history_ok (\<lambda>it. it_observed_at it = snapshot) st fin (if limit \<le> 0 then 50 else limit) items"
proof -
  from assms obtain n snapshot ms where items: "items = fst (keep_newest (message_items ad n sid topic snapshot st fin ms)
      (if limit \<le> 0 then 50 else limit))"
    by (auto simp: ntfy_history_def Let_def case_prod_beta split: prod.splits sum.splits if_splits)
  have "history_item (\<lambda>it. it_observed_at it = snapshot) st fin it"
    if "it \<in> set (message_items ad n sid topic snapshot st fin ms)" for it
    using that by (rule message_items_cases) (use message_time_window [of snapshot st fin] in \<open>auto simp: history_item_def\<close>)
  then show ?thesis unfolding items by (intro exI keep_newest_history) auto
qed

text \<open>The interface that the operation implements.\<close>

interpretation ntfy_op: source_operation ad "ntfy_history ad js max_line sid topic st fin limit" "\<lambda>r. fst (fst r)" 1
    "\<lambda>p. ntfy_route p \<and> p = ntfy_path topic st"
  for ad js max_line sid topic st fin limit
proof
  show "only_gets ad 1 (\<lambda>p. ntfy_route p \<and> p = ntfy_path topic st) s s'" if "ntfy_history ad js max_line sid topic st fin limit s = (r, s')" for s r s'
    by (rule only_gets_mono [OF ntfy_history_gets [OF that]]) (simp_all add: ntfy_path_route)
  show "list_all (item_screened ad) (fst (fst r))" if "ntfy_history ad js max_line sid topic st fin limit s = (r, s')" for s r s'
    using that ntfy_history_screened by (cases r; cases "fst r") auto
qed

end
