(* ===== verification/Loki.thy ===== *)
theory Loki
  imports Adapter
begin

text \<open>
  The Loki adapter (\<open>internal/adapters/loki/loki.go\<close>): the query from the configured selector and the
  caller's filters, the request, and the lines as items. \<open>decode\<close> is \<open>json.Unmarshal\<close> into the response,
  \<open>compiles\<close> says whether \<open>regexp.Compile\<close> accepts an expression. Lemmas: a reader of the query gets
  the selector and exactly the filters of the caller; requests, texts and the window.
\<close>

section \<open>The query\<close>

definition quote :: char where "quote = CHR 0x22"
definition backslash :: char where "backslash = CHR 0x5C"

text \<open>\<open>strings.ReplaceAll\<close> of one character.\<close>

definition replace_char :: "char \<Rightarrow> string \<Rightarrow> string \<Rightarrow> string" where
  "replace_char c r s = concat (map (\<lambda>x. if x = c then r else [x]) s)"

definition escape_logql :: "string \<Rightarrow> string" where
  "escape_logql s = replace_char quote [backslash, quote] (replace_char backslash [backslash, backslash] s)"

definition count_char :: "char \<Rightarrow> string \<Rightarrow> nat" where
  "count_char c s = length (filter (\<lambda>x. x = c) s)"

definition build_query :: "(string \<Rightarrow> bool) \<Rightarrow> string \<Rightarrow> string \<Rightarrow> string \<Rightarrow> string + string" where
  "build_query compiles selector txt rx =
     (let q = trim_space selector;
          res = (if txt = [] then Inr q
            else if has_control txt then Inl ''search text must be single-line''
            else (let txt = (if quote \<in> set txt \<or> backslash \<in> set txt then escape_logql txt else txt)
                  in if length txt > 200 then Inl ''search text too long''
                     else Inr (q @ '' |= '' @ [quote] @ txt @ [quote])))
      in case res of
          Inl e \<Rightarrow> Inl e
        | Inr q \<Rightarrow>
            if rx = [] then Inr q
            else if has_control rx then Inl ''search regex must be single-line''
            else if length rx > 200 then Inl ''search regex too long''
            else if \<not> compiles rx then Inl ''invalid search regex''
            else if count_char (CHR ''+'') rx + count_char (CHR ''*'') rx > 8 then Inl ''search regex too complex''
            else Inr (q @ '' |~ '' @ [quote] @ escape_logql rx @ [quote]))"

section \<open>Responses\<close>

record loki_stream =
  sm_labels :: "(string, string) gomap"
  sm_values :: "string list list"

record loki_response =
  lr_status :: string
  lr_result_type :: string
  lr_result :: "loki_stream list option"

definition allowed_labels :: "string list" where
  "allowed_labels = [''job'', ''namespace'', ''container'', ''pod'', ''app'', ''host'', ''service'', ''filename'',
     ''level'', ''compose'']"

fun filter_labels :: "'s adapter \<Rightarrow> (string, string) gomap \<Rightarrow> (string, string) gomap \<times> int \<times> bool" where
  "filter_labels ad [] = ([], 0, False)"
| "filter_labels ad ((k, v) # ls) =
     (let (out, rs, cs) = filter_labels ad ls
      in if k \<in> set allowed_labels
         then (let (x, r, c) = clean ad v 128 in ((k, x) # out, r + rs, c \<or> cs))
         else (out, rs, cs))"

definition stream_source_id :: "(string, string) gomap \<Rightarrow> string" where
  "stream_source_id labels =
     (if labels = [] then ''stream''
      else str_join '','' (map (\<lambda>k. k @ ''='' @ (case map_of labels k of None \<Rightarrow> [] | Some v \<Rightarrow> v)) (sort (map fst labels))))"

text \<open>\<open>strconv.ParseInt(s, 10, 64)\<close>.\<close>

definition parse_digits :: "string \<Rightarrow> int option" where
  "parse_digits s = (if s \<noteq> [] \<and> list_all is_digit s then Some (int (digits_value s)) else None)"

definition parse_int64 :: "string \<Rightarrow> int option" where
  "parse_int64 s =
     (let (neg, ds) = (case s of [] \<Rightarrow> (False, []) | c # cs \<Rightarrow>
            if c = CHR ''-'' then (True, cs) else if c = CHR ''+'' then (False, cs) else (False, s))
      in case parse_digits ds of
          None \<Rightarrow> None
        | Some n \<Rightarrow> (let n = (if neg then - n else n) in if min_int64 \<le> n \<and> n \<le> max_int64 then Some n else None))"

text \<open>Nanoseconds to a time; Go's division truncates towards zero.\<close>

definition parse_nano :: "string \<Rightarrow> time option" where
  "parse_nano s =
     (case parse_int64 s of
        None \<Rightarrow> None
      | Some n \<Rightarrow>
          (let sec = (if n < 0 then - ((- n) div second) else n div second); nsec = n - sec * second
           in if sec < 0 then None else Some (unix_time sec nsec)))"

definition severity_from_line :: "unicode \<Rightarrow> string \<Rightarrow> severity" where
  "severity_from_line uc line =
     (let l = to_lower uc line
      in if str_contains l ''fatal'' \<or> str_contains l ''panic'' then SeverityCritical
         else if str_contains l ''error'' \<or> str_contains l ''timeout'' \<or> str_contains l ''fail'' then SeverityError
         else if str_contains l ''warn'' then SeverityWarning
         else SeverityInfo)"

section \<open>Items\<close>

definition loki_item ::
  "'s adapter \<Rightarrow> int \<Rightarrow> loki_query \<Rightarrow> (string, string) gomap \<Rightarrow> int \<Rightarrow> bool \<Rightarrow> nat \<Rightarrow> time \<Rightarrow> string \<Rightarrow> item" where
  "loki_item ad max_line opt labels labels_r labels_c position ts line =
     (let (cleaned, line_r) = redact_apply (Some (ax_engine ad)) (sanitize_control line);
          (cleaned, line_c) = truncate_bytes (neutralize_instruction_like (ax_unicode ad) cleaned) max_line;
          (sum, sum_c) = (if rune_count cleaned > 200 then truncate_runes cleaned 200 else (cleaned, False))
      in \<lparr>it_id = ax_id ad position, it_service_id = lq_service_id opt, it_source = SourceLoki,
          it_source_id = stream_source_id labels, it_kind = KindLogLine, it_observed_at = ts, it_retrieved_at = ax_now ad,
          it_window_start = Some (lq_start opt), it_window_end = Some (lq_end opt), it_summary = sum,
          it_severity = severity_from_line (ax_unicode ad) cleaned,
          it_attributes = (''line'', AStr cleaned) # map (\<lambda>(k, v). (''label_'' @ k, AStr v)) labels,
          it_truncated = line_c \<or> sum_c \<or> labels_c, it_redactions = line_r + labels_r,
          it_freshness = compute_freshness ts (ax_now ad), it_order = int position\<rparr>)"

text \<open>One record of a stream: the items so far and the number of unusable records.\<close>

definition loki_record ::
  "'s adapter \<Rightarrow> int \<Rightarrow> loki_query \<Rightarrow> (string, string) gomap \<times> int \<times> bool \<Rightarrow> string list \<Rightarrow> item list \<times> int \<Rightarrow> item list \<times> int" where
  "loki_record ad max_line opt = (\<lambda>(labels, labels_r, labels_c) pair (items, discarded).
     case pair of
       a # line # _ \<Rightarrow>
         (case parse_nano a of
            None \<Rightarrow> (items, discarded + 1)
          | Some ts \<Rightarrow>
              if ts < lq_start opt \<or> lq_end opt < ts then (items, discarded)
              else (items @ [loki_item ad max_line opt labels labels_r labels_c (length items) ts line], discarded))
     | _ \<Rightarrow> (items, discarded + 1))"

definition loki_items :: "'s adapter \<Rightarrow> int \<Rightarrow> loki_query \<Rightarrow> loki_stream list \<Rightarrow> item list \<times> int" where
  "loki_items ad max_line opt streams =
     fold (\<lambda>sm. fold (loki_record ad max_line opt (filter_labels ad (sm_labels sm))) (sm_values sm)) streams ([], 0)"

section \<open>Search\<close>

definition unix_nano :: "time \<Rightarrow> int" where
  "unix_nano t = wrap64 (t - unix_epoch)"

definition loki_path :: "string \<Rightarrow> time \<Rightarrow> time \<Rightarrow> int \<Rightarrow> string" where
  "loki_path q st fin limit = ''/loki/api/v1/query_range?'' @ encode_values
     [(''direction'', ''backward''), (''end'', show_int (unix_nano fin)), (''limit'', show_int (limit + 1)), (''query'', q),
      (''start'', show_int (unix_nano st))]"

text \<open>What is made of a response, for options with their defaults.\<close>

definition loki_failed :: "string \<Rightarrow> ((item list \<times> bool) \<times> int) \<times> go_error option" where
  "loki_failed e = ((([], False), 0), Some (plain_error e))"

definition loki_answer ::
  "'s adapter \<Rightarrow> (string \<Rightarrow> loki_response option) \<Rightarrow> int \<Rightarrow> loki_query \<Rightarrow> response \<Rightarrow> string \<Rightarrow>
   ((item list \<times> bool) \<times> int) \<times> go_error option" where
  "loki_answer ad decode max_line opt resp body =
     (if rp_status resp = 429 then loki_failed ''loki rate limited (429)''
      else if rp_status resp \<noteq> 200 then loki_failed (''loki HTTP '' @ show_int (rp_status resp))
      else (case decode body of
          None \<Rightarrow> loki_failed ''loki decode: invalid JSON''
        | Some raw \<Rightarrow>
            if lr_status raw \<noteq> ''success'' then loki_failed ''loki returned non-success status''
            else (case lr_result raw of
                None \<Rightarrow> loki_failed ''loki decode: missing result array''
              | Some streams \<Rightarrow>
                  if lr_result_type raw \<noteq> [] \<and> lr_result_type raw \<noteq> ''streams''
                  then loki_failed ''loki decode: unexpected result type''
                  else (let max_line = (if max_line \<le> 0 then 2048 else max_line);
                            (items, discarded) = loki_items ad max_line opt streams
                        in ((keep_newest items (lq_limit opt), discarded), None)))))"

text \<open>The options after the defaults.\<close>

definition effective_query :: "'s adapter \<Rightarrow> loki_query \<Rightarrow> loki_query" where
  "effective_query ad opt = opt\<lparr>lq_limit := (if lq_limit opt \<le> 0 then 50 else lq_limit opt),
     lq_end := (if lq_end opt = 0 then ax_now ad else lq_end opt)\<rparr>"

definition loki_search ::
  "'s adapter \<Rightarrow> (string \<Rightarrow> loki_response option) \<Rightarrow> (string \<Rightarrow> bool) \<Rightarrow> int \<Rightarrow> loki_query \<Rightarrow> 's \<Rightarrow>
   (((item list \<times> bool) \<times> int) \<times> go_error option) \<times> 's" where
  "loki_search ad decode compiles max_line opt s =
     (if lq_selector opt = [] then (loki_failed ''loki selector is required'', s)
      else (let opt = effective_query ad opt
        in if lq_limit opt > 1000 then (loki_failed ''limit exceeds 1000'', s)
           else if lq_start opt = 0 \<or> \<not> lq_start opt < lq_end opt then (loki_failed ''invalid time window'', s)
           else (case build_query compiles (lq_selector opt) (lq_text opt) (lq_regex opt) of
               Inl e \<Rightarrow> (loki_failed e, s)
             | Inr q \<Rightarrow> (case ax_get ad (loki_path q (lq_start opt) (lq_end opt) (lq_limit opt)) s of
                   (Inl err, s) \<Rightarrow> (((([], False), 0), Some err), s)
                 | (Inr (resp, body), s) \<Rightarrow> (loki_answer ad decode max_line opt resp body, s)))))"

section \<open>Reading a query\<close>

text \<open>A reader of the text after an opening quote: up to the first quote that no backslash precedes.\<close>

fun read_quoted :: "string \<Rightarrow> (string \<times> string) option" where
  "read_quoted [] = None"
| "read_quoted (c # cs) =
     (if c = quote then Some ([], cs)
      else if c = backslash then (case cs of [] \<Rightarrow> None | d # ds \<Rightarrow> map_option (\<lambda>(s, r). (d # s, r)) (read_quoted ds))
      else map_option (\<lambda>(s, r). (c # s, r)) (read_quoted cs))"

lemma replace_char_simps [simp]:
  "replace_char c r [] = []" "replace_char c r (x # xs) = (if x = c then r else [x]) @ replace_char c r xs"
  "replace_char c r (xs @ ys) = replace_char c r xs @ replace_char c r ys"
  by (simp_all add: replace_char_def)

lemma quote_backslash [simp]: "quote \<noteq> backslash" "backslash \<noteq> quote"
  by (simp_all add: quote_def backslash_def)

lemma escape_logql_simps [simp]:
  "escape_logql [] = []"
  "escape_logql (c # cs) = (if c = quote then [backslash, quote] else if c = backslash then [backslash, backslash] else [c]) @ escape_logql cs"
  by (simp_all add: escape_logql_def)

lemma read_escaped: "read_quoted (escape_logql s @ quote # rest) = Some (s, rest)"
  by (induction s) auto

lemma read_plain: "quote \<notin> set s \<Longrightarrow> backslash \<notin> set s \<Longrightarrow> read_quoted (s @ quote # rest) = Some (s, rest)"
  by (induction s) auto

section \<open>Lemmas\<close>

definition loki_route :: "string \<Rightarrow> bool" where
  "loki_route p \<longleftrightarrow> has_prefix p ''/loki/api/v1/query_range?direction=backward&end=''"

lemma loki_path_route: "loki_route (loki_path q st fin limit)"
proof -
  have "query_escape ''direction'' = ''direction''" "query_escape ''backward'' = ''backward''" "query_escape ''end'' = ''end''"
    by (rule query_escape_plain, simp add: unreserved_def Let_def)+
  then show ?thesis by (simp add: loki_route_def loki_path_def encode_values_def has_prefix_def)
qed

lemma loki_search_gets:
  assumes "loki_search ad decode compiles max_line opt s = (r, s')"
  shows "only_gets ad 1 loki_route s s'"
proof -
  have g: "only_gets ad 1 loki_route s s1" if "ax_get ad (loki_path q st fin n) s = (x, s1)" for q st fin n x s1
    using only_gets_get [of loki_route "loki_path q st fin n" ad 0 s] loki_path_route that by simp
  with assms show ?thesis
    unfolding loki_search_def Let_def by (auto split: if_splits sum.splits prod.splits)
qed

lemma filter_labels_ok:
  "list_all (\<lambda>(k, v). k \<in> fixed_words \<and> screened (ax_engine ad) w (ax_format ad) v) (fst (filter_labels ad ls))"
proof -
  have "set allowed_labels \<subseteq> fixed_words" by (simp add: allowed_labels_def fixed_words_def)
  then show ?thesis
    by (induction ls) (auto simp: case_prod_beta Let_def clean_screened)
qed

lemma str_join_screened:
  "\<forall>s \<in> set ss. screened e w fmt s \<Longrightarrow> screened e w fmt sep \<Longrightarrow> screened e w fmt (str_join sep ss)"
  by (induction sep ss rule: str_join.induct) (auto intro!: screened_append)

lemma stream_source_id_screened:
  assumes "list_all (\<lambda>(k, v). k \<in> fixed_words \<and> screened e fixed_words fmt v) labels"
  shows "screened e fixed_words fmt (stream_source_id labels)"
proof -
  have v: "screened e fixed_words fmt (case map_of labels k of None \<Rightarrow> [] | Some v \<Rightarrow> v)" for k
    using assms by (auto simp: list_all_iff dest!: map_of_SomeD split: option.split)
  have k: "screened e fixed_words fmt k" if "k \<in> fst ` set labels" for k
  proof -
    from that obtain v where "(k, v) \<in> set labels" by auto
    with assms have "k \<in> fixed_words" by (auto simp: list_all_iff)
    then show ?thesis by (rule screened_word)
  qed
  have w: "screened e fixed_words fmt s" if "s \<in> set ['','', ''='', ''stream'']" for s
    using that by (intro screened_word) (auto simp: fixed_words_def)
  have eq: "screened e fixed_words fmt (''='' @ t)" if "screened e fixed_words fmt t" for t
    using that by (rule screened_append [OF w [of "''=''"], rotated]) simp
  have part: "screened e fixed_words fmt (k @ ''='' @ (case map_of labels k of None \<Rightarrow> [] | Some v \<Rightarrow> v))"
    if "k \<in> fst ` set labels" for k
    by (rule screened_append [OF k [OF that] eq [OF v]])
  have join: "screened e fixed_words fmt (str_join '','' (map (\<lambda>k. k @ ''='' @ (case map_of labels k of None \<Rightarrow> [] | Some v \<Rightarrow> v))
      (sort (map fst labels))))"
    by (rule str_join_screened) (use part w [of "'',''"] in auto)
  show ?thesis
    unfolding stream_source_id_def using join w [of "''stream''"] by simp
qed

lemma loki_item_screened:
  assumes "list_all (\<lambda>(k, v). k \<in> fixed_words \<and> screened (ax_engine ad) fixed_words (ax_format ad) v) labels"
  shows "item_screened ad (loki_item ad max_line opt labels labels_r labels_c i ts line)"
proof -
  have body: "screened (ax_engine ad) w (ax_format ad)
      (fst (truncate_bytes (neutralize_instruction_like uc (fst (redact_apply (Some (ax_engine ad)) x))) n))" for w uc x n
    by (intro screened_bytes screened_marked screened_engine)
  have labels: "list_all (screened (ax_engine ad) fixed_words (ax_format ad))
      (concat (map ((\<lambda>(k, v). attr_texts v) \<circ> (\<lambda>(k, v). (''label_'' @ k, AStr v))) labels))"
    using assms by (induction labels) auto
  show ?thesis
    unfolding item_screened_def loki_item_def Let_def item_texts_def
    using stream_source_id_screened [OF assms] labels
    by (auto simp: body screened_runes case_prod_beta)
qed

text \<open>What every item of the loops satisfies.\<close>

definition loki_item_ok :: "'s adapter \<Rightarrow> loki_query \<Rightarrow> item \<Rightarrow> bool" where
  "loki_item_ok ad opt it \<longleftrightarrow> item_screened ad it \<and> history_item (\<lambda>_. False) (lq_start opt) (lq_end opt) it"

lemma loki_item_fields [simp]:
  "it_observed_at (loki_item ad n opt ls r c i ts line) = ts"
  "it_window_start (loki_item ad n opt ls r c i ts line) = Some (lq_start opt)"
  "it_window_end (loki_item ad n opt ls r c i ts line) = Some (lq_end opt)"
  by (simp_all add: loki_item_def Let_def case_prod_beta)

lemma loki_record_ok:
  assumes "list_all (loki_item_ok ad opt) (fst acc)"
  shows "list_all (loki_item_ok ad opt) (fst (loki_record ad n opt (filter_labels ad ls) pair acc))"
proof -
  obtain labels r c where l: "filter_labels ad ls = (labels, r, c)" by (metis prod.collapse)
  obtain items d where acc: "acc = (items, d)" by fastforce
  have "list_all (\<lambda>(k, v). k \<in> fixed_words \<and> screened (ax_engine ad) fixed_words (ax_format ad) v) labels"
    using filter_labels_ok [of ad fixed_words ls] l by simp
  then have "item_screened ad (loki_item ad n opt labels r c i ts line)" for i ts line by (rule loki_item_screened)
  with assms show ?thesis
    by (auto simp: loki_record_def l acc loki_item_ok_def history_item_def split: list.split option.split)
qed

lemma loki_items_ok: "list_all (loki_item_ok ad opt) (fst (loki_items ad n opt streams))"
proof -
  have inner: "list_all (loki_item_ok ad opt) (fst acc) \<Longrightarrow>
      list_all (loki_item_ok ad opt) (fst (fold (loki_record ad n opt (filter_labels ad ls)) vs acc))" for ls vs acc
    by (induction vs arbitrary: acc) (simp_all add: loki_record_ok)
  have "list_all (loki_item_ok ad opt) (fst acc) \<Longrightarrow> list_all (loki_item_ok ad opt)
      (fst (fold (\<lambda>sm. fold (loki_record ad n opt (filter_labels ad (sm_labels sm))) (sm_values sm)) streams acc))" for acc
    by (induction streams arbitrary: acc) (simp_all add: inner)
  then show ?thesis unfolding loki_items_def by simp
qed

lemma loki_answer_items:
  assumes "loki_answer ad decode max_line opt resp body = (((items, clipped), discarded), err)"
  shows "err \<noteq> None \<and> items = [] \<or>
    err = None \<and> (\<exists>n streams. items = fst (keep_newest (fst (loki_items ad n opt streams)) (lq_limit opt)))"
proof -
  have "(\<exists>n streams. keep_newest (fst (loki_items ad n opt streams)) (lq_limit opt) = (items, clipped))
      \<Longrightarrow> \<exists>n streams. items = fst (keep_newest (fst (loki_items ad n opt streams)) (lq_limit opt))"
    by (metis fst_conv)
  with assms show ?thesis
    by (auto simp: loki_answer_def loki_failed_def Let_def case_prod_beta split: if_splits option.splits)
qed

lemma loki_search_items:
  assumes "loki_search ad decode compiles max_line opt s = ((((items, clipped), discarded), err), s')"
  shows "err \<noteq> None \<and> items = [] \<or> err = None \<and> 0 < lq_limit (effective_query ad opt) \<and> lq_limit (effective_query ad opt) \<le> 1000
    \<and> (\<exists>n streams. items = fst (keep_newest (fst (loki_items ad n (effective_query ad opt) streams)) (lq_limit (effective_query ad opt))))"
proof (cases "err = None")
  case True
  let ?o = "effective_query ad opt"
  obtain resp body where "lq_limit ?o \<le> 1000" "loki_answer ad decode max_line ?o resp body = (((items, clipped), discarded), err)"
    using assms True by (auto simp: loki_search_def Let_def loki_failed_def split: if_splits sum.splits prod.splits)
  moreover have "0 < lq_limit ?o" by (simp add: effective_query_def)
  ultimately show ?thesis
    using loki_answer_items [of ad decode max_line ?o resp body items clipped discarded err] True by simp
next
  case False
  with assms show ?thesis
    by (auto simp: loki_search_def Let_def loki_failed_def dest!: loki_answer_items split: if_splits sum.splits prod.splits)
qed

lemma loki_search_screened:
  assumes "loki_search ad decode compiles max_line opt s = ((((items, clipped), discarded), err), s')"
  shows "list_all (item_screened ad) items"
proof -
  have "item_screened ad it" if "it \<in> set (fst (keep_newest (fst (loki_items ad n o1 streams)) l))" for it n o1 streams l
  proof -
    have "it \<in> set (fst (loki_items ad n o1 streams))" using that keep_newest_subset by blast
    with loki_items_ok [of ad o1 n streams] show ?thesis by (auto simp: list_all_iff loki_item_ok_def)
  qed
  with loki_search_items [OF assms] show ?thesis by (auto simp: list_all_iff)
qed

lemma loki_search_history:
  assumes "loki_search ad decode compiles max_line opt s = ((((items, clipped), discarded), None), s')"
  shows "history_ok (\<lambda>_. False) (lq_start opt) (lq_end (effective_query ad opt)) (lq_limit (effective_query ad opt)) items
    \<and> length items \<le> 1000"
proof -
  let ?o = "effective_query ad opt"
  from loki_search_items [OF assms] obtain n streams where 1: "0 < lq_limit ?o" "lq_limit ?o \<le> 1000"
    "items = fst (keep_newest (fst (loki_items ad n ?o streams)) (lq_limit ?o))" by auto
  have "history_item (\<lambda>_. False) (lq_start ?o) (lq_end ?o) it" if "it \<in> set (fst (loki_items ad n ?o streams))" for it
    using that loki_items_ok [of ad ?o n streams] by (auto simp: list_all_iff loki_item_ok_def)
  from keep_newest_history [OF this 1(1)]
  have "history_ok (\<lambda>_. False) (lq_start ?o) (lq_end ?o) (lq_limit ?o) items" unfolding 1(3) by simp
  moreover from this have "int (length items) \<le> lq_limit ?o" by (simp add: history_ok_def)
  moreover have "lq_start ?o = lq_start opt" by (simp add: effective_query_def)
  ultimately show ?thesis using 1(2) by simp
qed

section \<open>The interface\<close>

text \<open>The interface that the operations implement.\<close>

interpretation loki_op: source_operation ad "loki_search ad decode compiles max_line opt" "\<lambda>r. fst (fst (fst r))" 1 "loki_route"
  for ad decode compiles max_line opt
proof
  show "only_gets ad 1 (loki_route) s s'" if "loki_search ad decode compiles max_line opt s = (r, s')" for s r s'
    using that by (rule loki_search_gets)
  show "list_all (item_screened ad) (fst (fst (fst r)))" if "loki_search ad decode compiles max_line opt s = (r, s')" for s r s'
    using that loki_search_screened by (cases r; cases "fst r"; cases "fst (fst r)") auto
qed

section \<open>Properties\<close>

text \<open>
  Property C10: a query that is built starts with the configured selector, and the caller's text and
  expression only stand in it as quoted literals: whatever characters they contain, a reader of the
  literal gets back exactly the text or the expression and goes on right after the closing quote, so
  a caller can neither end the literal early nor add a stage; and both are on one line.
\<close>
theorem loki_query_keeps_selector:
  assumes "build_query compiles sel txt rx = Inr q"
  shows "\<exists>lt lr. q = trim_space sel @ (if txt = [] then [] else '' |= '' @ [quote] @ lt @ [quote])
      @ (if rx = [] then [] else '' |~ '' @ [quote] @ lr @ [quote])
    \<and> (\<forall>rest. read_quoted (lt @ [quote] @ rest) = Some (txt, rest)) \<and> (\<forall>rest. read_quoted (lr @ [quote] @ rest) = Some (rx, rest))
    \<and> \<not> (txt \<noteq> [] \<and> has_control txt) \<and> \<not> (rx \<noteq> [] \<and> has_control rx)"
proof -
  define lt where "lt = (if quote \<in> set txt \<or> backslash \<in> set txt then escape_logql txt else txt)"
  have "read_quoted (lt @ [quote] @ rest) = Some (txt, rest)" "read_quoted (escape_logql rx @ [quote] @ rest) = Some (rx, rest)" for rest
    by (simp_all add: lt_def read_escaped read_plain)
  moreover have "q = trim_space sel @ (if txt = [] then [] else '' |= '' @ [quote] @ lt @ [quote])
      @ (if rx = [] then [] else '' |~ '' @ [quote] @ escape_logql rx @ [quote])
    \<and> \<not> (txt \<noteq> [] \<and> has_control txt) \<and> \<not> (rx \<noteq> [] \<and> has_control rx)"
    using assms by (auto simp: build_query_def Let_def lt_def split: if_splits)
  ultimately show ?thesis by blast
qed

lemma loki_query_keeps_selector_witness:
  "\<exists>lt. build_query (\<lambda>_. True) ''{a}'' [quote, CHR ''x''] [] = Inr (''{a}'' @ '' |= '' @ [quote] @ lt @ [quote])
     \<and> read_quoted (lt @ [quote]) = Some ([quote, CHR ''x''], [])"
proof -
  let ?q = "''{a}'' @ '' |= '' @ [quote] @ [backslash, quote, CHR ''x''] @ [quote]"
  have "\<not> has_control [quote, CHR ''x'']" "trim_space ''{a}'' = ''{a}''"
    by (simp_all add: quote_def has_control_def is_control_def ascii_eval trim_space_def space_chunk_def is_space_def)
  then have q: "build_query (\<lambda>_. True) ''{a}'' [quote, CHR ''x''] [] = Inr ?q"
    by (simp add: build_query_def Let_def) (simp add: quote_def backslash_def)
  from loki_query_keeps_selector [OF q] obtain lt where "?q = trim_space ''{a}'' @ '' |= '' @ [quote] @ lt @ [quote]"
    "\<forall>rest. read_quoted (lt @ [quote] @ rest) = Some ([quote, CHR ''x''], rest)" by auto
  then have "?q = ''{a}'' @ '' |= '' @ [quote] @ lt @ [quote]" "read_quoted (lt @ [quote]) = Some ([quote, CHR ''x''], [])"
    using \<open>trim_space ''{a}'' = ''{a}''\<close> by (simp, metis append_Nil2)
  with q show ?thesis by metis
qed

end
