(* ===== verification/Beszel.thy ===== *)
theory Beszel
  imports Adapter
begin

text \<open>
  The Beszel adapter (\<open>internal/adapters/beszel/beszel.go\<close>): the routes with their fallbacks, the pages
  of the PocketBase collection, the selection of a system and its item. The two JSON decoders are
  parameters. Lemmas: requests and texts, the bounds of a collection and what its pages are.
\<close>

section \<open>Data\<close>

record system_row =
  sr_name :: string
  sr_status :: string
  sr_host :: string
  sr_cpu :: "64 word option"
  sr_mem :: "64 word option"
  sr_system :: string
  sr_info_host :: string
  sr_info_cpu :: "64 word option"
  sr_info_mem :: "64 word option"

record system_wrap =
  sw_items :: "system_row list option"
  sw_systems :: "system_row list option"
  sw_data :: "system_row list option"
  sw_page :: "int option"
  sw_per_page :: "int option"
  sw_total_items :: "int option"
  sw_total_pages :: "int option"

record beszel_json =
  bj_array :: "system_row list decoder"
  bj_wrap :: "string \<Rightarrow> system_wrap option"

record system_page =
  sp_items :: "system_row list"
  sp_page :: int
  sp_total_items :: int
  sp_total_pages :: int
  sp_paginated :: bool
  sp_has_total :: bool

definition plain_page :: "system_row list \<Rightarrow> system_page" where
  "plain_page rows = \<lparr>sp_items = rows, sp_page = 0, sp_total_items = 0, sp_total_pages = 0, sp_paginated = False,
     sp_has_total = False\<rparr>"

definition beszel_page_size :: int where "beszel_page_size = 200"
definition max_beszel_pages :: int where "max_beszel_pages = 32"
definition max_beszel_records :: int where "max_beszel_records = beszel_page_size * max_beszel_pages"

section \<open>Decoding\<close>

definition meta_incomplete :: string where "meta_incomplete = ''beszel pagination metadata is incomplete''"
definition meta_invalid :: string where "meta_invalid = ''beszel pagination metadata is invalid''"

text \<open>The number of pages that the metadata of a page claims.\<close>

definition claimed_pages :: "system_wrap \<Rightarrow> int \<Rightarrow> system_row list \<Rightarrow> string + int" where
  "claimed_pages w per_page items =
     (case sw_total_pages w of
        Some n \<Rightarrow>
          if n > 0 then Inr n
          else if sw_total_items w \<noteq> Some 0 \<or> items \<noteq> [] then Inl meta_incomplete
          else Inr 1
      | None \<Rightarrow> (case sw_total_items w of
            None \<Rightarrow> Inl meta_incomplete
          | Some t \<Rightarrow>
              (let n = t div per_page + (if t mod per_page \<noteq> 0 then 1 else 0) in Inr (if n = 0 then 1 else n))))"

definition paginated_page :: "system_wrap \<Rightarrow> system_row list \<Rightarrow> string + system_page" where
  "paginated_page w items =
     (case (sw_page w, sw_per_page w) of
        (Some page, Some per_page) \<Rightarrow>
          if page < 1 \<or> per_page < 1 then Inl meta_incomplete
          else if (case sw_total_items w of None \<Rightarrow> False | Some t \<Rightarrow> t < 0) then Inl meta_invalid
          else if (case sw_total_pages w of None \<Rightarrow> False | Some n \<Rightarrow> n < 0) then Inl meta_invalid
          else (case claimed_pages w per_page items of
              Inl e \<Rightarrow> Inl e
            | Inr total_pages \<Rightarrow>
                if page > total_pages then Inl meta_invalid
                else if (case sw_total_items w of None \<Rightarrow> False | Some t \<Rightarrow> t < int (length items)) then Inl meta_invalid
                else Inr \<lparr>sp_items = items, sp_page = page,
                  sp_total_items = (case sw_total_items w of None \<Rightarrow> 0 | Some t \<Rightarrow> t),
                  sp_total_pages = total_pages, sp_paginated = True, sp_has_total = (sw_total_items w \<noteq> None)\<rparr>)
      | _ \<Rightarrow> Inl meta_incomplete)"

definition decode_system_page :: "beszel_json \<Rightarrow> string \<Rightarrow> string + system_page" where
  "decode_system_page js body =
     (case bj_array js body of
        Some (Some rows) \<Rightarrow> Inr (plain_page rows)
      | _ \<Rightarrow> (case bj_wrap js body of
            None \<Rightarrow> Inl ''beszel decode: invalid JSON''
          | Some w \<Rightarrow> (case sw_systems w of
                Some rows \<Rightarrow> Inr (plain_page rows)
              | None \<Rightarrow> (case sw_data w of
                    Some rows \<Rightarrow> Inr (plain_page rows)
                  | None \<Rightarrow> (case sw_items w of
                        None \<Rightarrow> Inl ''beszel decode: empty systems list''
                      | Some items \<Rightarrow>
                          if sw_page w = None \<and> sw_per_page w = None \<and> sw_total_items w = None \<and> sw_total_pages w = None
                          then Inr (plain_page items)
                          else paginated_page w items)))))"

section \<open>Requests\<close>

definition beszel_collection :: string where "beszel_collection = ''/api/collections/systems/records''"

definition beszel_alternates :: "string list" where
  "beszel_alternates = [''/api/systems'', ''/api/beszel/systems'', ''/api/systems/'']"

definition beszel_page_path :: "int \<Rightarrow> string" where
  "beszel_page_path n = beszel_collection @ ''?''
     @ encode_values [(''page'', show_int n), (''perPage'', show_int beszel_page_size)]"

definition auth_failed :: go_error where "auth_failed = plain_error ''beszel authentication failed''"
definition beszel_404 :: go_error where "beszel_404 = plain_error ''beszel returned 404''"

definition too_many_records :: go_error where
  "too_many_records = plain_error (''beszel collection exceeds '' @ show_int max_beszel_records @ '' records'')"

text \<open>
  One page up to the check of its size: the page with the collection time, or the error and whether
  another route may be tried.
\<close>

definition beszel_get_page ::
  "'s adapter \<Rightarrow> beszel_json \<Rightarrow> int \<Rightarrow> system_row list \<Rightarrow> 's \<Rightarrow> (bool \<times> go_error + system_page \<times> time) \<times> 's" where
  "beszel_get_page ad js n all s =
     (case ax_get ad (beszel_page_path n) s of
        (Inl err, s) \<Rightarrow> (Inl (n = 1, err), s)
      | (Inr (resp, body), s) \<Rightarrow>
          (if rp_status resp = 404 then Inl (n = 1, beszel_404)
           else if rp_status resp = 401 \<or> rp_status resp = 403 then Inl (False, auth_failed)
           else if rp_status resp \<noteq> 200 then Inl (False, plain_error (''beszel HTTP '' @ show_int (rp_status resp)))
           else (case decode_system_page js body of
               Inl e \<Rightarrow> Inl (False, plain_error e)
             | Inr p \<Rightarrow>
                 if sp_has_total p \<and> sp_total_items p > max_beszel_records then Inl (False, too_many_records)
                 else if int (length (sp_items p)) > max_beszel_records - int (length all) then Inl (False, too_many_records)
                 else Inr (p, ax_collected ad resp)), s))"

text \<open>What the first page promises about the others.\<close>

definition same_collection :: "system_page \<Rightarrow> int \<Rightarrow> system_page \<Rightarrow> bool" where
  "same_collection first n p \<longleftrightarrow> sp_page p = n \<and> sp_total_pages p = sp_total_pages first
     \<and> sp_has_total p = sp_has_total first \<and> (sp_has_total p \<longrightarrow> sp_total_items p = sp_total_items first)"

definition pagination_changed :: go_error where
  "pagination_changed = plain_error ''beszel pagination changed during collection''"

definition count_mismatch :: go_error where
  "count_mismatch = plain_error ''beszel collection item count does not match totalItems''"

text \<open>The pages after the first one.\<close>

fun beszel_more ::
  "'s adapter \<Rightarrow> beszel_json \<Rightarrow> system_page \<Rightarrow> int list \<Rightarrow> system_row list \<Rightarrow> time \<Rightarrow> 's \<Rightarrow>
   (bool \<times> go_error + system_row list \<times> time) \<times> 's" where
  "beszel_more ad js first [] all observed s =
     (if sp_has_total first \<and> int (length all) \<noteq> sp_total_items first then Inl (False, count_mismatch)
      else Inr (all, observed), s)"
| "beszel_more ad js first (n # ns) all observed s =
     (case beszel_get_page ad js n all s of
        (Inl err, s) \<Rightarrow> (Inl err, s)
      | (Inr (p, collected), s) \<Rightarrow>
          (let observed = (if observed = 0 then collected else observed); all = all @ sp_items p
           in if \<not> sp_paginated p then (Inr (all, observed), s)
              else if sp_page p < 1 \<or> sp_total_pages p < 1 then (Inl (False, plain_error meta_incomplete), s)
              else if \<not> same_collection first n p then (Inl (False, pagination_changed), s)
              else beszel_more ad js first ns all observed s))"

definition beszel_fetch_pages ::
  "'s adapter \<Rightarrow> beszel_json \<Rightarrow> 's \<Rightarrow> (bool \<times> go_error + system_row list \<times> time) \<times> 's" where
  "beszel_fetch_pages ad js s =
     (case beszel_get_page ad js 1 [] s of
        (Inl err, s) \<Rightarrow> (Inl err, s)
      | (Inr (p, observed), s) \<Rightarrow>
          if \<not> sp_paginated p then (Inr (sp_items p, observed), s)
          else if sp_page p < 1 \<or> sp_total_pages p < 1 then (Inl (False, plain_error meta_incomplete), s)
          else if sp_total_pages p > max_beszel_pages
          then (Inl (False, plain_error (''beszel collection exceeds '' @ show_int max_beszel_pages @ '' pages'')), s)
          else if \<not> same_collection p 1 p then (Inl (False, pagination_changed), s)
          else beszel_more ad js p [2 .. sp_total_pages p] (sp_items p) observed s)"

fun beszel_try ::
  "'s adapter \<Rightarrow> beszel_json \<Rightarrow> string list \<Rightarrow> go_error \<Rightarrow> 's \<Rightarrow> (go_error + system_row list \<times> time) \<times> 's" where
  "beszel_try ad js [] err0 s = (Inl err0, s)"
| "beszel_try ad js (p # ps) err0 s =
     (case ax_get ad p s of
        (Inl err, s) \<Rightarrow> beszel_try ad js ps err s
      | (Inr (resp, body), s) \<Rightarrow>
          if rp_status resp = 404 then beszel_try ad js ps beszel_404 s
          else (if rp_status resp = 401 \<or> rp_status resp = 403 then Inl auth_failed
                else if rp_status resp \<noteq> 200 then Inl (plain_error (''beszel HTTP '' @ show_int (rp_status resp)))
                else (case decode_system_page js body of
                    Inl e \<Rightarrow> Inl (plain_error e)
                  | Inr page \<Rightarrow> Inr (sp_items page, ax_collected ad resp)), s))"

definition beszel_fetch :: "'s adapter \<Rightarrow> beszel_json \<Rightarrow> 's \<Rightarrow> (go_error + system_row list \<times> time) \<times> 's" where
  "beszel_fetch ad js s =
     (case beszel_fetch_pages ad js s of
        (Inl (True, err), s) \<Rightarrow> beszel_try ad js beszel_alternates err s
      | (Inl (False, err), s) \<Rightarrow> (Inl err, s)
      | (Inr res, s) \<Rightarrow> (Inr res, s))"

section \<open>Items\<close>

definition system_names :: "system_row \<Rightarrow> string list" where
  "system_names r = [sr_name r, sr_system r, sr_host r, sr_info_host r]"

definition find_system :: "unicode \<Rightarrow> system_row list \<Rightarrow> string \<Rightarrow> system_row option" where
  "find_system uc rows want =
     find (\<lambda>r. list_ex (\<lambda>n. to_lower uc (trim_space n) = to_lower uc (trim_space want)) (system_names r)) rows"

definition display_name :: "system_row \<Rightarrow> string" where
  "display_name r =
     (if sr_name r \<noteq> [] then sr_name r else if sr_system r \<noteq> [] then sr_system r
      else if sr_host r \<noteq> [] then sr_host r else sr_info_host r)"

definition beszel_severity :: "string \<Rightarrow> severity" where
  "beszel_severity st =
     (if st \<in> set [''up'', ''online'', ''ok''] then SeverityInfo
      else if st \<in> set [''down'', ''offline'', ''error''] then SeverityError
      else if st \<in> set [''paused'', ''pending'', ''warn'', ''warning''] then SeverityWarning
      else SeverityUnknown)"

definition beszel_summary :: "string \<Rightarrow> string \<Rightarrow> string" where
  "beszel_summary name st =
     (if st = [] then ''beszel system '' @ name @ '' snapshot''
      else if st \<in> set [''down'', ''offline'', ''error''] then ''beszel system '' @ name @ '' is '' @ st
      else ''beszel system '' @ name @ '' status='' @ st)"

definition float_attr :: "string \<Rightarrow> 64 word option \<Rightarrow> 64 word option \<Rightarrow> (string, attr) gomap" where
  "float_attr k a b = (case (case a of None \<Rightarrow> b | Some x \<Rightarrow> Some x) of None \<Rightarrow> [] | Some x \<Rightarrow> [(k, AFloat x)])"

definition beszel_item :: "'s adapter \<Rightarrow> string \<Rightarrow> system_row \<Rightarrow> time \<Rightarrow> item" where
  "beszel_item ad sid r observed =
     (let name = display_name r;
          st = to_lower (ax_unicode ad) (trim_space (sr_status r));
          (name_s, name_r, name_c) = clean ad name 256;
          (status_s, status_r, status_c) = clean ad (if st = [] then ''unknown'' else st) 64;
          (sum, sum_r, sum_c) = clean ad (beszel_summary name st) 512
      in \<lparr>it_id = ax_id ad 0, it_service_id = sid, it_source = SourceBeszel, it_source_id = name_s, it_kind = KindMetricSample,
          it_observed_at = observed, it_retrieved_at = ax_now ad, it_window_start = None, it_window_end = None,
          it_summary = sum, it_severity = beszel_severity st,
          it_attributes = [(''system_name'', AStr name_s), (''status'', AStr status_s), (''found'', ABool True),
              (''snapshot'', ABool True)] @ float_attr ''cpu'' (sr_info_cpu r) (sr_cpu r) @ float_attr ''mem'' (sr_info_mem r) (sr_mem r),
          it_truncated = name_c \<or> status_c \<or> sum_c, it_redactions = name_r + status_r + sum_r,
          it_freshness = compute_freshness observed (ax_now ad), it_order = 0\<rparr>)"

definition beszel_missing :: "'s adapter \<Rightarrow> string \<Rightarrow> string \<Rightarrow> time \<Rightarrow> item" where
  "beszel_missing ad sid system_name observed =
     (let (name, r, c) = clean ad system_name 256
      in \<lparr>it_id = ax_id ad 0, it_service_id = sid, it_source = SourceBeszel, it_source_id = name, it_kind = KindMetricSample,
          it_observed_at = observed, it_retrieved_at = ax_now ad, it_window_start = None, it_window_end = None,
          it_summary = ''beszel system not found'', it_severity = SeverityUnknown,
          it_attributes = [(''system_name'', AStr name), (''found'', ABool False)],
          it_truncated = c, it_redactions = r, it_freshness = FreshnessMissing, it_order = 0\<rparr>)"

definition beszel_status ::
  "'s adapter \<Rightarrow> beszel_json \<Rightarrow> string \<Rightarrow> string \<Rightarrow> 's \<Rightarrow> (go_error + item) \<times> 's" where
  "beszel_status ad js sid system_name s =
     (case beszel_fetch ad js s of
        (Inl err, s) \<Rightarrow> (Inl err, s)
      | (Inr (rows, observed), s) \<Rightarrow>
          (Inr (case find_system (ax_unicode ad) rows system_name of
             None \<Rightarrow> beszel_missing ad sid system_name observed
           | Some r \<Rightarrow> beszel_item ad sid r observed), s))"

definition beszel_evidence ::
  "'s adapter \<Rightarrow> beszel_json \<Rightarrow> string \<Rightarrow> string \<Rightarrow> 's \<Rightarrow> (go_error + item list) \<times> 's" where
  "beszel_evidence ad js sid system_name s =
     (case beszel_status ad js sid system_name s of
        (Inl err, s) \<Rightarrow> (Inl err, s)
      | (Inr it, s) \<Rightarrow> (Inr [it], s))"

section \<open>Lemmas\<close>

definition beszel_route :: "string \<Rightarrow> bool" where
  "beszel_route p \<longleftrightarrow> p \<in> set beszel_alternates \<or> (\<exists>n. p = beszel_page_path n)"

lemma beszel_get_page_gets: "beszel_get_page ad js n all s = (r, s') \<Longrightarrow> only_gets ad 1 beszel_route s s'"
  using only_gets_get [of beszel_route "beszel_page_path n" ad 0 s]
  by (auto simp: beszel_get_page_def beszel_route_def split: prod.splits sum.splits if_splits)

lemma beszel_more_Cons:
  assumes "beszel_more ad js first (n # ns) all observed s = (r, s')"
  obtains x s1 where "beszel_get_page ad js n all s = (x, s1)" and
    "s' = s1 \<and> (\<forall>err. r = Inl err \<longrightarrow> x = Inl err \<or> \<not> fst err) \<or> (\<exists>p t0 t. x = Inr (p, t0) \<and> sp_paginated p \<and> same_collection first n p
      \<and> beszel_more ad js first ns (all @ sp_items p) t s1 = (r, s'))"
  using assms by (auto simp: Let_def split: prod.splits sum.splits if_splits)

lemma beszel_more_gets:
  "beszel_more ad js first ns all observed s = (r, s') \<Longrightarrow> only_gets ad (length ns) beszel_route s s'"
proof (induction ns arbitrary: all observed s)
  case (Cons n ns)
  obtain x s1 where x: "beszel_get_page ad js n all s = (x, s1)"
    "s' = s1 \<and> (\<forall>err. r = Inl err \<longrightarrow> x = Inl err \<or> \<not> fst err) \<or> (\<exists>p t0 t. x = Inr (p, t0) \<and> sp_paginated p
      \<and> same_collection first n p \<and> beszel_more ad js first ns (all @ sp_items p) t s1 = (r, s'))"
    using Cons.prems by (rule beszel_more_Cons)
  from x(2) have "only_gets ad (length ns) beszel_route s1 s'" using Cons.IH by auto
  from only_gets_trans [OF beszel_get_page_gets [OF x(1)] this] show ?case by simp
qed simp

text \<open>Only the first page lets another route be tried.\<close>

lemma beszel_more_final: "\<forall>n \<in> set ns. n \<noteq> 1 \<Longrightarrow> beszel_more ad js first ns all observed s \<noteq> (Inl (True, err), s')"
proof (induction ns arbitrary: all observed s)
  case (Cons n ns)
  have one: "beszel_get_page ad js n all s \<noteq> (Inl (True, err), s1)" for s1
    using Cons.prems by (auto simp: beszel_get_page_def split: prod.splits sum.splits if_splits)
  show ?case
  proof
    assume "beszel_more ad js first (n # ns) all observed s = (Inl (True, err), s')"
    then show False
      by (rule beszel_more_Cons) (use Cons one in auto)
  qed
qed simp

lemma beszel_fetch_pages_cases:
  assumes "beszel_fetch_pages ad js s = (r, s')"
  obtains x where "beszel_get_page ad js 1 [] s = (x, s')" "\<forall>e. x = Inl e \<longrightarrow> r = Inl e"
      "\<forall>p t rows observed. x = Inr (p, t) \<and> r = Inr (rows, observed) \<longrightarrow> \<not> sp_paginated p \<and> rows = sp_items p"
    | p t s1 where "beszel_get_page ad js 1 [] s = (Inr (p, t), s1)" "sp_paginated p" "1 \<le> sp_total_pages p"
      "sp_total_pages p \<le> max_beszel_pages" "same_collection p 1 p"
      "beszel_more ad js p [2 .. sp_total_pages p] (sp_items p) t s1 = (r, s')"
proof -
  obtain x s1 where x: "beszel_get_page ad js 1 [] s = (x, s1)" by fastforce
  show ?thesis
  proof (cases x)
    case (Inl e)
    with assms x have "r = Inl e" "s' = s1" by (auto simp: beszel_fetch_pages_def)
    with x Inl that(1) [of x] show ?thesis by simp
  next
    case (Inr b)
    obtain p t where b: "b = (p, t)" by fastforce
    show ?thesis
    proof (cases "sp_paginated p \<and> \<not> (sp_page p < 1 \<or> sp_total_pages p < 1) \<and> sp_total_pages p \<le> max_beszel_pages \<and> same_collection p 1 p")
      case True
      with assms x Inr b have "beszel_more ad js p [2 .. sp_total_pages p] (sp_items p) t s1 = (r, s')"
        by (auto simp: beszel_fetch_pages_def)
      with True x Inr b that(2) [of p t s1] show ?thesis by simp
    next
      case False
      with assms x Inr b have "s' = s1" "\<forall>rows observed. r = Inr (rows, observed) \<longrightarrow> \<not> sp_paginated p \<and> rows = sp_items p"
        by (auto simp: beszel_fetch_pages_def split: if_splits)
      with x Inr b that(1) [of x] show ?thesis by auto
    qed
  qed
qed

lemma beszel_fetch_pages_gets:
  assumes "beszel_fetch_pages ad js s = (r, s')"
  shows "only_gets ad 32 beszel_route s s'" and "r = Inl (True, err) \<Longrightarrow> only_gets ad 1 beszel_route s s'"
proof -
  have "only_gets ad 32 beszel_route s s' \<and> (r = Inl (True, err) \<longrightarrow> only_gets ad 1 beszel_route s s')"
    using assms
  proof (cases rule: beszel_fetch_pages_cases)
    case (1 x)
    from beszel_get_page_gets [OF 1(1)] only_gets_mono [OF beszel_get_page_gets [OF 1(1)], of 32] show ?thesis by simp
  next
    case (2 p t s1)
    have "1 + length [2 .. sp_total_pages p] \<le> 32" using 2(4) by (simp add: max_beszel_pages_def)
    from only_gets_mono [OF only_gets_trans [OF beszel_get_page_gets [OF 2(1)] beszel_more_gets [OF 2(6)]] this]
    have "only_gets ad 32 beszel_route s s'" by simp
    moreover have "r \<noteq> Inl (True, err)"
      using beszel_more_final [of "[2 .. sp_total_pages p]" ad js p "sp_items p" t s1 err s'] 2(6) by auto
    ultimately show ?thesis by blast
  qed
  then show "only_gets ad 32 beszel_route s s'" and "r = Inl (True, err) \<Longrightarrow> only_gets ad 1 beszel_route s s'" by blast+
qed

lemma beszel_try_gets:
  "beszel_try ad js ps err0 s = (r, s') \<Longrightarrow> set ps \<subseteq> set beszel_alternates \<Longrightarrow> only_gets ad (length ps) beszel_route s s'"
proof (induction ad js ps err0 s rule: beszel_try.induct)
  case (2 ad js p ps err0 s)
  obtain g s1 where g: "ax_get ad p s = (g, s1)" by fastforce
  have p: "beszel_route p" using 2(4) by (simp add: beszel_route_def)
  have one: "only_gets ad (length (p # ps)) beszel_route s s1"
    using only_gets_mono [OF only_gets_get [of beszel_route p ad 0 s, OF p], of "length (p # ps)"] g by simp
  have step: "only_gets ad (length (p # ps)) beszel_route s s'" if "only_gets ad (length ps) beszel_route s1 s'"
    using only_gets_step [of beszel_route p ad "length ps" s s'] p that g by simp
  show ?case
  proof (cases g)
    case (Inl err)
    with 2 g step show ?thesis by auto
  next
    case (Inr b)
    obtain resp body where b: "b = (resp, body)" by fastforce
    show ?thesis
    proof (cases "rp_status resp = 404")
      case True
      with 2 g b Inr step show ?thesis by auto
    next
      case False
      with 2(3) g b Inr have "s' = s1" by (auto split: sum.splits if_splits)
      with one show ?thesis by simp
    qed
  qed
qed simp

lemma beszel_fetch_gets: "beszel_fetch ad js s = (r, s') \<Longrightarrow> only_gets ad 32 beszel_route s s'"
proof -
  assume a: "beszel_fetch ad js s = (r, s')"
  obtain x s1 where x: "beszel_fetch_pages ad js s = (x, s1)" by fastforce
  show ?thesis
  proof (cases "\<exists>err. x = Inl (True, err)")
    case True
    then obtain err where err: "x = Inl (True, err)" by blast
    with a x have "beszel_try ad js beszel_alternates err s1 = (r, s')" by (simp add: beszel_fetch_def)
    from only_gets_trans [OF beszel_fetch_pages_gets(2) [OF x err] beszel_try_gets [OF this order_refl]]
    show ?thesis by (rule only_gets_mono) (simp_all add: beszel_alternates_def)
  next
    case False
    with a x have "s' = s1" by (auto simp: beszel_fetch_def split: sum.splits bool.splits)
    with beszel_fetch_pages_gets(1) [OF x] show ?thesis by simp
  qed
qed

lemma beszel_evidence_gets: "beszel_evidence ad js sid n s = (r, s') \<Longrightarrow> only_gets ad 32 beszel_route s s'"
  by (auto simp: beszel_evidence_def beszel_status_def dest: beszel_fetch_gets split: prod.splits sum.splits)

lemma float_attr_texts [simp]: "concat (map (\<lambda>x. attr_texts (snd x)) (float_attr k a b)) = []"
  by (cases a; cases b) (simp_all add: float_attr_def)

lemma beszel_item_screened: "item_screened ad (beszel_item ad sid r observed)"
  unfolding item_screened_def beszel_item_def Let_def item_texts_def case_prod_beta
  by (simp add: screened_simps)

lemma beszel_missing_screened: "item_screened ad (beszel_missing ad sid n observed)"
  by (simp add: item_screened_def beszel_missing_def item_texts_def Let_def case_prod_beta screened_simps)
    (simp add: fixed_words_def screened_word)

lemma beszel_evidence_items:
  assumes "beszel_evidence ad js sid n s = (Inr items, s')"
  shows "list_all (item_screened ad) items"
  using assms
  by (auto simp: beszel_evidence_def beszel_status_def beszel_item_screened beszel_missing_screened
      split: prod.splits sum.splits option.splits)

text \<open>
  The pages as the server answers them: the requests for the pages \<open>ns\<close>, one after the other from
  \<open>s\<close> to \<open>s'\<close>, are answered with status 200 and bodies that decode to \<open>ps\<close>.
\<close>

fun answered :: "'s adapter \<Rightarrow> beszel_json \<Rightarrow> int list \<Rightarrow> system_page list \<Rightarrow> 's \<Rightarrow> 's \<Rightarrow> bool" where
  "answered ad js [] ps s s' \<longleftrightarrow> ps = [] \<and> s' = s"
| "answered ad js (n # ns) [] s s' \<longleftrightarrow> False"
| "answered ad js (n # ns) (p # ps) s s' \<longleftrightarrow> (\<exists>resp body s1. ax_get ad (beszel_page_path n) s = (Inr (resp, body), s1)
     \<and> rp_status resp = 200 \<and> decode_system_page js body = Inr p \<and> answered ad js ns ps s1 s')"

declare answered.simps(3) [simp del]

text \<open>Pages of one collection: numbered \<open>ns\<close>, with the metadata of \<open>first\<close>.\<close>

definition pages_of :: "system_page \<Rightarrow> int list \<Rightarrow> system_page list \<Rightarrow> bool" where
  "pages_of first ns ps \<longleftrightarrow> map sp_page ps = ns
     \<and> (\<forall>p \<in> set ps. sp_paginated p \<and> sp_total_pages p = sp_total_pages first \<and> sp_has_total p = sp_has_total first
          \<and> (sp_has_total p \<longrightarrow> sp_total_items p = sp_total_items first))"

text \<open>
  How a collection of \<open>m\<close> announced pages ends after the pages \<open>ps\<close>: with all of them and the announced
  number of records, or at a page without metadata.
\<close>

definition ends_with :: "system_page \<Rightarrow> nat \<Rightarrow> system_page list \<Rightarrow> system_page list \<Rightarrow> system_row list \<Rightarrow> bool" where
  "ends_with first m ps plain rows \<longleftrightarrow>
     plain = [] \<and> length ps = m \<and> (sp_has_total first \<longrightarrow> int (length rows) = sp_total_items first)
     \<or> (\<exists>q. plain = [q] \<and> \<not> sp_paginated q \<and> length ps < m)"

lemma pages_of_Cons:
  "same_collection first n p \<Longrightarrow> sp_paginated p \<Longrightarrow> pages_of first ns ps \<Longrightarrow> pages_of first (n # ns) (p # ps)"
  by (auto simp: pages_of_def same_collection_def)

lemma ends_with_Cons: "ends_with first m ps plain rows \<Longrightarrow> ends_with first (Suc m) (p # ps) plain rows"
  by (auto simp: ends_with_def)

lemma beszel_get_page_Inr:
  assumes "beszel_get_page ad js n all s = (Inr (p, t), s')"
  shows "int (length (all @ sp_items p)) \<le> max_beszel_records"
    "\<And>ns ps s2. answered ad js (n # ns) (p # ps) s s2 \<longleftrightarrow> answered ad js ns ps s' s2"
  using assms by (auto simp: beszel_get_page_def answered.simps(3) split: prod.splits sum.splits if_splits)

lemma beszel_more_pages:
  assumes "beszel_more ad js first ns all t s = (Inr (rows, t'), s')" and "int (length all) \<le> max_beszel_records"
  shows "\<exists>ps plain. answered ad js (take (length (ps @ plain)) ns) (ps @ plain) s s' \<and> pages_of first (take (length ps) ns) ps
    \<and> rows = all @ concat (map sp_items (ps @ plain)) \<and> int (length rows) \<le> max_beszel_records
    \<and> ends_with first (length ns) ps plain rows"
  using assms
proof (induction ns arbitrary: all t s)
  case Nil
  then show ?case by (intro exI [of _ "[]"]) (auto simp: pages_of_def ends_with_def split: if_splits)
next
  case (Cons n ns)
  obtain x s1 where x: "beszel_get_page ad js n all s = (x, s1)" by fastforce
  with Cons.prems(1) obtain p c where p: "x = Inr (p, c)" by (cases x) auto
  note get = beszel_get_page_Inr [OF x [unfolded p]]
  show ?case
  proof (cases "sp_paginated p")
    case False
    with Cons.prems(1) x p have "rows = all @ sp_items p" "s' = s1" by (simp_all add: Let_def)
    with False get show ?thesis
      by (intro exI [of _ "[]"] exI [of _ "[p]"]) (simp add: pages_of_def ends_with_def)
  next
    case True
    with Cons.prems(1) x p obtain t1 where more: "same_collection first n p"
      "beszel_more ad js first ns (all @ sp_items p) t1 s1 = (Inr (rows, t'), s')"
      by (auto simp: Let_def split: if_splits)
    from Cons.IH [OF more(2) get(1)] obtain ps plain where
      "answered ad js (take (length (ps @ plain)) ns) (ps @ plain) s1 s'" "pages_of first (take (length ps) ns) ps"
      "rows = (all @ sp_items p) @ concat (map sp_items (ps @ plain))" "int (length rows) \<le> max_beszel_records"
      "ends_with first (length ns) ps plain rows" by blast
    with more(1) True get(2) show ?thesis
      by (intro exI [of _ "p # ps"] exI [of _ plain]) (simp add: pages_of_Cons ends_with_Cons)
  qed
qed

lemma take_upto: "int k \<le> m \<Longrightarrow> take k [1 .. m] = [1 .. int k]"
  by (rule nth_equalityI) (simp_all add: nth_upto)

section \<open>The interface\<close>

text \<open>The interface that the operations implement.\<close>

interpretation beszel_op: source_operation ad "beszel_evidence ad js sid name" found_list 32 "beszel_route"
  for ad js sid name
proof
  show "only_gets ad 32 (beszel_route) s s'" if "beszel_evidence ad js sid name s = (r, s')" for s r s'
    using that by (rule beszel_evidence_gets)
  show "list_all (item_screened ad) (found_list r)" if "beszel_evidence ad js sid name s = (r, s')" for s r s'
    using that beszel_evidence_items by (cases r) auto
qed

section \<open>Properties\<close>

text \<open>
  Property C15: the rows of an accepted collection are the rows of the pages 1, 2, ... that the server
  answered, each asked for once and in that order, at most 32 pages and 6400 records. The pages \<open>ps\<close> with
  metadata are numbered from 1 and all announce the same collection. Either they are all the pages that the
  first one announces, with exactly as many records as it announces if it announces a number, or a page
  without metadata came earlier, and the reading stops with it: only then can rows be missing.
\<close>
theorem beszel_collection_is_complete:
  assumes "beszel_fetch_pages ad js s = (Inr (rows, observed), s')"
  shows "\<exists>ps plain. answered ad js [1 .. int (length (ps @ plain))] (ps @ plain) s s'
    \<and> rows = concat (map sp_items (ps @ plain)) \<and> length (ps @ plain) \<le> 32 \<and> int (length rows) \<le> 6400
    \<and> pages_of (hd ps) [1 .. int (length ps)] ps
    \<and> (plain = [] \<and> ps \<noteq> [] \<and> int (length ps) = sp_total_pages (hd ps)
          \<and> (sp_has_total (hd ps) \<longrightarrow> int (length rows) = sp_total_items (hd ps))
       \<or> (\<exists>q. plain = [q] \<and> \<not> sp_paginated q \<and> (ps \<noteq> [] \<longrightarrow> int (length ps) < sp_total_pages (hd ps))))"
  using assms
proof (cases rule: beszel_fetch_pages_cases)
  case (1 x)
  then obtain p t where x: "x = Inr (p, t)" by (cases x) auto
  note get = beszel_get_page_Inr [OF 1(1) [unfolded x]]
  from 1(3) x have "\<not> sp_paginated p" "rows = sp_items p" by simp_all
  with get show ?thesis
    by (intro exI [of _ "[]"] exI [of _ "[p]"]) (simp add: pages_of_def max_beszel_records_def beszel_page_size_def max_beszel_pages_def)
next
  case (2 p t s1)
  note get = beszel_get_page_Inr [OF 2(1)]
  let ?ns = "[2 .. sp_total_pages p]"
  obtain ps plain where ps: "answered ad js (take (length (ps @ plain)) ?ns) (ps @ plain) s1 s'" "pages_of p (take (length ps) ?ns) ps"
    "rows = sp_items p @ concat (map sp_items (ps @ plain))" "int (length rows) \<le> max_beszel_records"
    "ends_with p (length ?ns) ps plain rows"
    using beszel_more_pages [OF 2(6)] get(1) by auto
  have all: "[1 .. sp_total_pages p] = 1 # ?ns" using 2(3) by (simp add: upto_rec1)
  have len: "int (length ((p # ps) @ plain)) \<le> sp_total_pages p" "int (length (p # ps)) \<le> sp_total_pages p"
    using ps(5) 2(3) by (auto simp: ends_with_def)
  have "answered ad js (1 # take (length (ps @ plain)) ?ns) ((p # ps) @ plain) s s'"
    using ps(1) get(2) by simp
  moreover have "pages_of p (1 # take (length ps) ?ns) (p # ps)" using 2(5,2) ps(2) by (rule pages_of_Cons)
  moreover have "1 # take (length (ps @ plain)) ?ns = [1 .. int (length ((p # ps) @ plain))]"
    "1 # take (length ps) ?ns = [1 .. int (length (p # ps))]"
    using take_upto [OF len(1)] take_upto [OF len(2)] by (simp_all add: all)
  moreover have "plain = [] \<and> int (length (p # ps)) = sp_total_pages p \<and> (sp_has_total p \<longrightarrow> int (length rows) = sp_total_items p)
      \<or> (\<exists>q. plain = [q] \<and> \<not> sp_paginated q \<and> int (length (p # ps)) < sp_total_pages p)"
    using ps(5) 2(3) by (auto simp: ends_with_def)
  ultimately show ?thesis
    using ps(3,4) len(1) 2(4)
    by (intro exI [of _ "p # ps"] exI [of _ plain])
      (simp add: max_beszel_pages_def max_beszel_records_def beszel_page_size_def)
qed

text \<open>A collection of one page with one system.\<close>

definition example_row :: system_row where
  "example_row = \<lparr>sr_name = ''nas'', sr_status = ''up'', sr_host = [], sr_cpu = None, sr_mem = None, sr_system = [],
     sr_info_host = [], sr_info_cpu = None, sr_info_mem = None\<rparr>"

definition example_pages :: beszel_json where
  "example_pages = \<lparr>bj_array = (\<lambda>_. None), bj_wrap = (\<lambda>_. Some \<lparr>sw_items = Some [example_row], sw_systems = None, sw_data = None,
     sw_page = Some 1, sw_per_page = Some 200, sw_total_items = Some 1, sw_total_pages = Some 1\<rparr>)\<rparr>"

lemma beszel_collection_is_complete_witness:
  "\<exists>ps plain. beszel_fetch_pages example_adapter example_pages 0 = (Inr ([example_row], 100), 1)
     \<and> answered example_adapter example_pages [1 .. int (length (ps @ plain))] (ps @ plain) 0 1
     \<and> [example_row] = concat (map sp_items (ps @ plain)) \<and> pages_of (hd ps) [1 .. int (length ps)] ps"
proof -
  have page: "decode_system_page example_pages body = Inr \<lparr>sp_items = [example_row], sp_page = 1, sp_total_items = 1,
      sp_total_pages = 1, sp_paginated = True, sp_has_total = True\<rparr>" for body
    by (simp add: decode_system_page_def example_pages_def paginated_page_def claimed_pages_def)
  have run: "beszel_fetch_pages example_adapter example_pages 0 = (Inr ([example_row], 100), 1)"
    by (simp add: beszel_fetch_pages_def beszel_get_page_def page example_adapter_def max_beszel_records_def
        beszel_page_size_def max_beszel_pages_def same_collection_def collection_time_def header_get_def)
  from beszel_collection_is_complete [OF run] run show ?thesis by blast
qed

text \<open>
  A page without metadata in the middle of a collection ends it: the records so far are returned as
  the whole collection, without the check of their number.
\<close>
lemma beszel_plain_page_ends_collection:
  assumes "beszel_get_page ad js 1 [] s = (Inr (p, t), s1)" "sp_paginated p" "1 < sp_total_pages p" "sp_total_pages p \<le> 32"
    and "same_collection p 1 p" and "beszel_get_page ad js 2 (sp_items p) s1 = (Inr (q, t2), s2)" "\<not> sp_paginated q"
  shows "\<exists>observed. beszel_fetch_pages ad js s = (Inr (sp_items p @ sp_items q, observed), s2)"
proof -
  have "[2 .. sp_total_pages p] = 2 # [3 .. sp_total_pages p]" using assms(3) by (simp add: upto_rec1)
  with assms show ?thesis by (simp add: beszel_fetch_pages_def max_beszel_pages_def same_collection_def)
qed

end
