(* ===== verification/Healthchecks.thy ===== *)
theory Healthchecks
  imports Adapter
begin

text \<open>
  The Healthchecks adapter (\<open>internal/adapters/healthchecks/healthchecks.go\<close>): the list of checks, the
  filter of a binding, the current state, and the dated transitions with their counters. JSON decoding,
  \<open>time.Parse\<close> and \<open>unicode.IsPrint\<close> beyond ASCII are parameters. Lemmas: requests and texts, the
  window and the number of transitions, and how every selected check is accounted for.
\<close>

section \<open>Data\<close>

record check =
  ck_name :: string
  ck_slug :: string
  ck_tags :: string
  ck_grace :: int
  ck_status :: string
  ck_last_ping :: string
  ck_next_ping :: string
  ck_uuid :: string
  ck_unique_key :: string

record flip =
  fl_timestamp :: string
  fl_up :: "int option"

text \<open>
  The library functions, and whether the client has headers. A \<open>decoder\<close> of a wrapped list gives
  \<open>Some None\<close> when the member is missing or null.
\<close>

record hc_env =
  he_headers :: bool
  he_checks :: "check list decoder"
  he_wrapped_checks :: "check list decoder"
  he_flips :: "flip list decoder"
  he_wrapped_flips :: "flip list decoder"
  he_parse :: "string \<Rightarrow> string \<Rightarrow> time option"
  he_print :: "rune \<Rightarrow> bool"

definition max_transition_checks :: nat where "max_transition_checks = 32"
definition max_flips_per_check :: nat where "max_flips_per_check = 200"

text \<open>\<open>transitionKeyRe\<close>.\<close>

definition transition_key_re :: "string \<Rightarrow> bool" where
  "transition_key_re = match_class key_char 1 256"

definition err_no_match :: go_error where
  "err_no_match = \<lparr>er_text = ''healthchecks binding matched no check'', er_no_match = True\<rparr>"

definition hc_auth_failed :: go_error where
  "hc_auth_failed = plain_error ''healthchecks authentication failed''"

section \<open>Selection\<close>

definition selects :: "hc_filter \<Rightarrow> bool" where
  "selects f \<longleftrightarrow> hf_name f \<noteq> [] \<or> hf_uuid f \<noteq> [] \<or> hf_unique_key f \<noteq> [] \<or> hf_tags f \<noteq> [] \<or> hf_status f \<noteq> []"

definition tags_match :: "unicode \<Rightarrow> string \<Rightarrow> string list \<Rightarrow> bool" where
  "tags_match uc tag_str want =
     (let have = map (to_lower uc) (str_fields tag_str) in list_all (\<lambda>w. to_lower uc w \<in> set have) want)"

definition check_selected :: "unicode \<Rightarrow> hc_filter \<Rightarrow> check \<Rightarrow> bool" where
  "check_selected uc f ch \<longleftrightarrow>
     \<not> (hf_uuid f \<noteq> [] \<and> \<not> equal_fold uc (ck_uuid ch) (hf_uuid f))
     \<and> \<not> (hf_unique_key f \<noteq> [] \<and> \<not> equal_fold uc (ck_unique_key ch) (hf_unique_key f))
     \<and> \<not> (hf_name f \<noteq> [] \<and> \<not> equal_fold uc (ck_name ch) (hf_name f) \<and> \<not> equal_fold uc (ck_slug ch) (hf_name f))
     \<and> \<not> (hf_tags f \<noteq> [] \<and> \<not> tags_match uc (ck_tags ch) (hf_tags f))
     \<and> \<not> (hf_status f \<noteq> [] \<and> \<not> equal_fold uc (trim_space (ck_status ch)) (hf_status f))
     \<and> selects f"

definition filter_checks :: "unicode \<Rightarrow> check list \<Rightarrow> hc_filter \<Rightarrow> check list" where
  "filter_checks uc checks f = filter (check_selected uc f) checks"

text \<open>The selection of \<open>FailedInWindow\<close> and \<open>Transitions\<close>: all checks without a service and a filter.\<close>

definition window_checks :: "unicode \<Rightarrow> string \<Rightarrow> hc_filter \<Rightarrow> check list \<Rightarrow> go_error + check list" where
  "window_checks uc sid f checks =
     (if sid \<noteq> [] \<or> selects f
      then (let matched = filter_checks uc checks f
            in if matched = [] \<and> selects f then Inl err_no_match else Inr matched)
      else Inr checks)"

definition safe_source_id :: "check \<Rightarrow> string" where
  "safe_source_id ch =
     (if ck_slug ch \<noteq> [] then ck_slug ch else if ck_name ch \<noteq> [] then ck_name ch else ''check'')"

section \<open>Text\<close>

text \<open>\<open>strconv.Quote\<close>, the verb \<open>%q\<close>.\<close>

definition hex_lower :: "nat \<Rightarrow> char" where
  "hex_lower n = ''0123456789abcdef'' ! n"

definition hex_digits :: "nat \<Rightarrow> nat \<Rightarrow> string" where
  "hex_digits k n = map (\<lambda>i. hex_lower (n div 16 ^ i mod 16)) (rev [0..<k])"

definition is_print :: "(rune \<Rightarrow> bool) \<Rightarrow> rune \<Rightarrow> bool" where
  "is_print pr r = (if r < 128 then 32 \<le> r \<and> r < 127 else pr r)"

definition control_escapes :: "(rune \<times> char) list" where
  "control_escapes = [(7, CHR ''a''), (8, CHR ''b''), (12, CHR ''f''), (10, CHR ''n''), (13, CHR ''r''),
     (9, CHR ''t''), (11, CHR ''v'')]"

definition quote_chunk :: "(rune \<Rightarrow> bool) \<Rightarrow> rune \<times> string \<Rightarrow> string" where
  "quote_chunk pr rb =
     (let (r, b) = rb; esc = CHR 0x5C
      in if length b = 1 \<and> r = rune_error then [esc, CHR ''x''] @ hex_digits 2 (of_char (hd b))
         else if r = 34 \<or> r = 92 then esc # encode_rune r
         else if is_print pr r then encode_rune r
         else (case map_of control_escapes r of
             Some c \<Rightarrow> [esc, c]
           | None \<Rightarrow>
               if r < 32 \<or> r = 127 then [esc, CHR ''x''] @ hex_digits 2 r
               else if r < 65536 then [esc, CHR ''u''] @ hex_digits 4 r
               else [esc, CHR ''U''] @ hex_digits 8 r))"

definition go_quote :: "(rune \<Rightarrow> bool) \<Rightarrow> string \<Rightarrow> string" where
  "go_quote pr s = [CHR 0x22] @ concat (map (quote_chunk pr) (chunks s)) @ [CHR 0x22]"

definition hc_layouts :: "string list" where
  "hc_layouts = [''2006-01-02T15:04:05.999999999Z07:00'', ''2006-01-02T15:04:05Z07:00'']"

definition hc_time :: "(string \<Rightarrow> string \<Rightarrow> time option) \<Rightarrow> string \<Rightarrow> time option" where
  "hc_time parse s =
     (let s = trim_space s in if s = [] \<or> s = ''null'' then None else parse_first parse hc_layouts s)"

section \<open>Items\<close>

definition hc_state :: "unicode \<Rightarrow> check \<Rightarrow> string" where
  "hc_state uc ch = to_lower uc (trim_space (ck_status ch))"

definition hc_severity :: "string \<Rightarrow> severity" where
  "hc_severity st =
     (if st = ''up'' then SeverityInfo
      else if st = ''grace'' then SeverityWarning
      else if st = ''down'' then SeverityError
      else if st = ''paused'' \<or> st = ''new'' then SeverityWarning
      else SeverityUnknown)"

definition hc_summary :: "(rune \<Rightarrow> bool) \<Rightarrow> string \<Rightarrow> string \<Rightarrow> string" where
  "hc_summary pr name st =
     ''healthchecks '' @ go_quote pr name
       @ (if st = ''grace'' then '' is in grace'' else if st = ''down'' then '' is down'' else '' status='' @ st)"

definition date_attr :: "'s adapter \<Rightarrow> string \<Rightarrow> time option \<Rightarrow> (string, attr) gomap" where
  "date_attr ad k t = (case t of None \<Rightarrow> [] | Some t \<Rightarrow> [(k, AStr (ax_format ad t))])"

definition hc_item :: "'s adapter \<Rightarrow> hc_env \<Rightarrow> nat \<Rightarrow> string \<Rightarrow> check \<Rightarrow> time \<Rightarrow> item" where
  "hc_item ad he i sid ch observed =
     (let st = hc_state (ax_unicode ad) ch;
          (name, name_r, name_c) = clean ad (ck_name ch) 256;
          (slug, slug_r, slug_c) = clean ad (ck_slug ch) 256;
          (status, status_r, status_c) = clean ad st 64;
          (source, source_r, source_c) = clean ad (safe_source_id ch) 256;
          raw_tags = str_fields (ck_tags ch);
          (tags, tags_r, tags_c) = clean_all ad 128 (take 32 raw_tags);
          (sum, sum_r, sum_c) = clean ad (hc_summary (he_print he) (ck_name ch) st) 512
      in \<lparr>it_id = ax_id ad i, it_service_id = sid, it_source = SourceHealthchecks, it_source_id = source, it_kind = KindCronCheck,
          it_observed_at = observed, it_retrieved_at = ax_now ad, it_window_start = None, it_window_end = None,
          it_summary = sum, it_severity = hc_severity st,
          it_attributes = [(''name'', AStr name), (''slug'', AStr slug), (''status'', AStr status), (''grace'', AInt (ck_grace ch))]
            @ (if ck_tags ch = [] then [] else [(''tags'', AStrs tags)])
            @ date_attr ad ''last_ping'' (hc_time (he_parse he) (ck_last_ping ch))
            @ date_attr ad ''next_ping'' (hc_time (he_parse he) (ck_next_ping ch)),
          it_truncated = name_c \<or> slug_c \<or> status_c \<or> source_c \<or> length raw_tags > 32 \<or> tags_c \<or> sum_c,
          it_redactions = name_r + slug_r + status_r + source_r + tags_r + sum_r,
          it_freshness = compute_freshness observed (ax_now ad), it_order = 0\<rparr>)"

definition transition_item ::
  "'s adapter \<Rightarrow> hc_env \<Rightarrow> nat \<Rightarrow> string \<Rightarrow> check \<Rightarrow> time \<times> int \<Rightarrow> time \<Rightarrow> time \<Rightarrow> item" where
  "transition_item ad he i sid ch entry st fin =
     (let (at, up) = entry;
          (state, sev) = (if up = 1 then (''up'', SeverityInfo) else (''down'', SeverityError));
          (name, name_r, name_c) = clean ad (ck_name ch) 256;
          (slug, slug_r, slug_c) = clean ad (ck_slug ch) 256;
          (source, source_r, source_c) = clean ad (safe_source_id ch) 256;
          (sum, sum_r, sum_c) =
            clean ad (''healthchecks '' @ go_quote (he_print he) (ck_name ch) @ '' transitioned '' @ state) 512
      in \<lparr>it_id = ax_id ad i, it_service_id = sid, it_source = SourceHealthchecks, it_source_id = source, it_kind = KindCronCheck,
          it_observed_at = at, it_retrieved_at = ax_now ad, it_window_start = Some st, it_window_end = Some fin,
          it_summary = sum, it_severity = sev,
          it_attributes = [(''name'', AStr name), (''slug'', AStr slug), (''transition'', AStr state), (''current'', ABool False)],
          it_truncated = name_c \<or> slug_c \<or> source_c \<or> sum_c, it_redactions = name_r + slug_r + source_r + sum_r,
          it_freshness = compute_freshness at (ax_now ad), it_order = 0\<rparr>)"

section \<open>The list of checks\<close>

definition hc_list_path :: string where "hc_list_path = ''/api/v3/checks/''"

definition decode_checks :: "hc_env \<Rightarrow> string \<Rightarrow> check list option" where
  "decode_checks he body =
     (case he_wrapped_checks he body of
        Some (Some checks) \<Rightarrow> Some checks
      | _ \<Rightarrow> (case he_checks he body of Some (Some checks) \<Rightarrow> Some checks | _ \<Rightarrow> None))"

definition hc_list :: "'s adapter \<Rightarrow> hc_env \<Rightarrow> 's \<Rightarrow> (go_error + check list \<times> time) \<times> 's" where
  "hc_list ad he s =
     (if \<not> he_headers he then (Inl (plain_error ''healthchecks token not configured''), s)
      else (case ax_get ad hc_list_path s of
          (Inl err, s) \<Rightarrow> (Inl err, s)
        | (Inr (resp, body), s) \<Rightarrow>
            (if rp_status resp = 401 \<or> rp_status resp = 403 then Inl hc_auth_failed
             else if rp_status resp \<noteq> 200 then Inl (plain_error (''healthchecks HTTP '' @ show_int (rp_status resp)))
             else (case decode_checks he body of
                 None \<Rightarrow> Inl (plain_error ''healthchecks decode: expected checks array'')
               | Some checks \<Rightarrow> Inr (checks, ax_collected ad resp)), s)))"

definition hc_items :: "'s adapter \<Rightarrow> hc_env \<Rightarrow> string \<Rightarrow> check list \<Rightarrow> time \<Rightarrow> item list" where
  "hc_items ad he sid checks observed = map (\<lambda>(i, ch). hc_item ad he i sid ch observed) (enumerate 0 checks)"

definition hc_status :: "'s adapter \<Rightarrow> hc_env \<Rightarrow> string \<Rightarrow> hc_filter \<Rightarrow> 's \<Rightarrow> (go_error + item list) \<times> 's" where
  "hc_status ad he sid f s =
     (case hc_list ad he s of
        (Inl err, s) \<Rightarrow> (Inl err, s)
      | (Inr (checks, observed), s) \<Rightarrow>
          (let matched = filter_checks (ax_unicode ad) checks f
           in if matched = [] \<and> selects f then Inl err_no_match else Inr (hc_items ad he sid matched observed), s))"

definition interesting :: "unicode \<Rightarrow> check \<Rightarrow> bool" where
  "interesting uc ch \<longleftrightarrow> hc_state uc ch \<in> set [''down'', ''grace'', ''paused'']"

definition hc_failed ::
  "'s adapter \<Rightarrow> hc_env \<Rightarrow> string \<Rightarrow> hc_filter \<Rightarrow> time \<Rightarrow> time \<Rightarrow> 's \<Rightarrow> (go_error + item list) \<times> 's" where
  "hc_failed ad he sid f st fin s =
     (case hc_list ad he s of
        (Inl err, s) \<Rightarrow> (Inl err, s)
      | (Inr (checks, observed), s) \<Rightarrow>
          (case window_checks (ax_unicode ad) sid f checks of
             Inl err \<Rightarrow> Inl err
           | Inr matched \<Rightarrow>
               if observed < st \<or> fin + 30 * second < observed then Inr []
               else Inr (map (in_window st fin)
                      (hc_items ad he sid (filter (interesting (ax_unicode ad)) matched) observed)), s))"

section \<open>Transitions\<close>

definition hc_flips_path :: "'s adapter \<Rightarrow> string \<Rightarrow> time \<Rightarrow> time \<Rightarrow> string" where
  "hc_flips_path ad key st fin = ''/api/v3/checks/'' @ path_escape key @ ''/flips/?''
     @ encode_values [(''end'', ax_format ad fin), (''start'', ax_format ad st)]"

definition decode_flips :: "hc_env \<Rightarrow> string \<Rightarrow> flip list option" where
  "decode_flips he body =
     (case he_flips he body of
        Some (Some flips) \<Rightarrow> Some flips
      | _ \<Rightarrow> (case he_wrapped_flips he body of Some (Some flips) \<Rightarrow> Some flips | _ \<Rightarrow> None))"

text \<open>A flip with a readable time and a state, or none.\<close>

definition read_flip :: "hc_env \<Rightarrow> flip \<Rightarrow> (time \<times> int) option" where
  "read_flip he fl =
     (case fl_up fl of
        None \<Rightarrow> None
      | Some up \<Rightarrow>
          if up \<noteq> 0 \<and> up \<noteq> 1 then None
          else (case hc_time (he_parse he) (fl_timestamp fl) of None \<Rightarrow> None | Some at \<Rightarrow> Some (at, up)))"

definition window_flips :: "hc_env \<Rightarrow> time \<Rightarrow> time \<Rightarrow> flip list \<Rightarrow> (time \<times> int) list" where
  "window_flips he st fin flips =
     slice_stable (\<lambda>a b. fst a < fst b)
       (filter (\<lambda>(at, up). \<not> (at < st \<or> fin < at)) (List.map_filter (read_flip he) flips))"

text \<open>The effect of one decoded history on the result.\<close>

definition add_flips ::
  "'s adapter \<Rightarrow> hc_env \<Rightarrow> string \<Rightarrow> time \<Rightarrow> time \<Rightarrow> check \<Rightarrow> flip list \<Rightarrow> transition_result \<Rightarrow> transition_result" where
  "add_flips ad he sid st fin ch flips tr =
     (let parsed = window_flips he st fin flips;
          clipped = length parsed > max_flips_per_check;
          kept = (if clipped then drop (length parsed - max_flips_per_check) parsed else parsed);
          items = map (\<lambda>(i, entry). transition_item ad he i sid ch entry st fin) (enumerate (length (tr_items tr)) kept)
      in tr\<lparr>tr_items := tr_items tr @ items,
            tr_discarded := tr_discarded tr + int (length (filter (\<lambda>fl. read_flip he fl = None) flips)),
            tr_truncated := tr_truncated tr \<or> clipped\<rparr>)"

abbreviation request_failed :: "transition_result \<Rightarrow> transition_result" where
  "request_failed tr \<equiv> tr\<lparr>tr_failures := tr_failures tr + 1\<rparr>"

fun hc_histories ::
  "'s adapter \<Rightarrow> hc_env \<Rightarrow> string \<Rightarrow> time \<Rightarrow> time \<Rightarrow> check list \<Rightarrow> transition_result \<Rightarrow> 's \<Rightarrow>
   (transition_result \<times> go_error option) \<times> 's" where
  "hc_histories ad he sid st fin [] tr s = ((tr, None), s)"
| "hc_histories ad he sid st fin (ch # chs) tr s =
     (let key = trim_space (ck_unique_key ch)
      in if \<not> transition_key_re key
         then hc_histories ad he sid st fin chs (tr\<lparr>tr_missing_identity := tr_missing_identity tr + 1\<rparr>) s
         else (let tr = tr\<lparr>tr_requests := tr_requests tr + 1\<rparr>
               in case ax_get ad (hc_flips_path ad key st fin) s of
                   (Inl err, s) \<Rightarrow> hc_histories ad he sid st fin chs (request_failed tr) s
                 | (Inr (resp, body), s) \<Rightarrow>
                     if rp_status resp = 401 \<or> rp_status resp = 403 then ((tr, Some hc_auth_failed), s)
                     else if rp_status resp \<noteq> 200 then hc_histories ad he sid st fin chs (request_failed tr) s
                     else (case decode_flips he body of
                         None \<Rightarrow> hc_histories ad he sid st fin chs (request_failed tr) s
                       | Some flips \<Rightarrow> hc_histories ad he sid st fin chs (add_flips ad he sid st fin ch flips tr) s)))"

definition check_less :: "check \<Rightarrow> check \<Rightarrow> bool" where
  "check_less a b =
     (if safe_source_id a \<noteq> safe_source_id b then safe_source_id a < safe_source_id b
      else ck_unique_key a < ck_unique_key b)"

definition no_transitions :: transition_result where
  "no_transitions = \<lparr>tr_items = [], tr_omitted = 0, tr_discarded = 0, tr_truncated = False, tr_failures = 0,
     tr_missing_identity = 0, tr_requests = 0\<rparr>"

text \<open>The result before the first history: what the limit on the number of checks leaves out.\<close>

definition start_transitions :: "check list \<Rightarrow> transition_result" where
  "start_transitions checks =
     (if length checks > max_transition_checks
      then no_transitions\<lparr>tr_omitted := int (length checks - max_transition_checks), tr_truncated := True\<rparr>
      else no_transitions)"

definition hc_transitions ::
  "'s adapter \<Rightarrow> hc_env \<Rightarrow> string \<Rightarrow> hc_filter \<Rightarrow> time \<Rightarrow> time \<Rightarrow> 's \<Rightarrow> (transition_result \<times> go_error option) \<times> 's" where
  "hc_transitions ad he sid f st fin s =
     (case hc_list ad he s of
        (Inl err, s) \<Rightarrow> ((no_transitions, Some err), s)
      | (Inr (checks, _), s) \<Rightarrow>
          (case window_checks (ax_unicode ad) sid f checks of
             Inl err \<Rightarrow> ((no_transitions, Some err), s)
           | Inr matched \<Rightarrow>
               (let matched = slice_stable check_less matched;
                    ((tr, err), s) =
                      hc_histories ad he sid st fin (take max_transition_checks matched) (start_transitions matched) s
                in case err of
                     Some e \<Rightarrow> ((tr, Some e), s)
                   | None \<Rightarrow>
                       if tr_requests tr > 0 \<and> tr_failures tr = tr_requests tr \<and> tr_items tr = []
                       then ((tr, Some (plain_error ''healthchecks history requests failed'')), s)
                       else ((tr, None), s))))"

section \<open>Requests and texts\<close>

lemma map_filter_set: "(x \<in> set (List.map_filter f xs)) \<longleftrightarrow> (\<exists>y \<in> set xs. f y = Some x)"
  by (induction xs) (auto simp: List.map_filter_simps split: option.splits)

text \<open>The routes: the list, and the flips of one check under a plain key.\<close>

definition hc_route :: "'s adapter \<Rightarrow> time \<Rightarrow> time \<Rightarrow> string \<Rightarrow> bool" where
  "hc_route ad st fin p \<longleftrightarrow> p = hc_list_path \<or> (\<exists>key. transition_key_re key \<and> p = hc_flips_path ad key st fin)"

lemma key_char_unreserved: "key_char c \<Longrightarrow> unreserved c"
  by (auto simp: key_char_def is_alnum_def is_lower_def is_upper_def is_digit_def unreserved_def Let_def less_eq_char_def)

lemma path_escape_key: "transition_key_re key \<Longrightarrow> path_escape key = key"
proof -
  have "list_all key_char k \<Longrightarrow> path_escape k = k" for k
    by (induction k) (simp_all add: path_escape_def key_char_unreserved)
  then show "transition_key_re key \<Longrightarrow> path_escape key = key"
    by (simp add: transition_key_re_def match_class_def)
qed

lemma hc_list_gets: "hc_list ad he s = (r, s') \<Longrightarrow> only_gets ad 1 (\<lambda>p. p = hc_list_path) s s'"
  using only_gets_get [of "\<lambda>p. p = hc_list_path" hc_list_path ad 0 s]
  by (auto simp: hc_list_def split: prod.splits sum.splits if_splits)

lemma hc_status_gets: "hc_status ad he sid f s = (r, s') \<Longrightarrow> only_gets ad 1 (\<lambda>p. p = hc_list_path) s s'"
  by (auto simp: hc_status_def Let_def dest: hc_list_gets split: prod.splits sum.splits)

lemma hc_failed_gets: "hc_failed ad he sid f st fin s = (r, s') \<Longrightarrow> only_gets ad 1 (\<lambda>p. p = hc_list_path) s s'"
  by (auto simp: hc_failed_def dest: hc_list_gets split: prod.splits sum.splits)

text \<open>What one check does to the result: nothing but a counter, or one request.\<close>

definition identified :: "check \<Rightarrow> bool" where
  "identified ch \<longleftrightarrow> transition_key_re (trim_space (ck_unique_key ch))"

definition check_path :: "'s adapter \<Rightarrow> time \<Rightarrow> time \<Rightarrow> check \<Rightarrow> string" where
  "check_path ad st fin ch = hc_flips_path ad (trim_space (ck_unique_key ch)) st fin"

abbreviation requested :: "transition_result \<Rightarrow> transition_result" where
  "requested tr \<equiv> tr\<lparr>tr_requests := tr_requests tr + 1\<rparr>"

lemma hc_histories_skip:
  "\<not> identified ch \<Longrightarrow> hc_histories ad he sid st fin (ch # chs) tr s
    = hc_histories ad he sid st fin chs (tr\<lparr>tr_missing_identity := tr_missing_identity tr + 1\<rparr>) s"
  by (simp add: identified_def)

lemma hc_histories_Cons:
  assumes "hc_histories ad he sid st fin (ch # chs) tr s = ((tr', err), s')" and "identified ch"
  obtains s1 where "s1 = snd (ax_get ad (check_path ad st fin ch) s)"
    and "tr' = requested tr \<and> err = Some hc_auth_failed \<and> s' = s1
      \<or> hc_histories ad he sid st fin chs (request_failed (requested tr)) s1 = ((tr', err), s')
      \<or> (\<exists>flips. hc_histories ad he sid st fin chs (add_flips ad he sid st fin ch flips (requested tr)) s1 = ((tr', err), s'))"
proof -
  obtain g s1 where g: "ax_get ad (check_path ad st fin ch) s = (g, s1)" by fastforce
  note defs = assms [unfolded identified_def] g [unfolded check_path_def]
  show ?thesis
  proof (cases g)
    case (Inl e)
    with defs g that [of s1] show ?thesis by (simp add: Let_def)
  next
    case (Inr b)
    obtain resp body where b: "b = (resp, body)" by fastforce
    with defs g Inr that [of s1] show ?thesis
      by (cases "decode_flips he body") (auto simp: Let_def split: if_splits)
  qed
qed

lemma check_path_route: "identified ch \<Longrightarrow> hc_route ad st fin (check_path ad st fin ch)"
  by (auto simp: identified_def check_path_def hc_route_def)

lemma hc_histories_gets:
  "hc_histories ad he sid st fin chs tr s = ((tr', err), s') \<Longrightarrow> only_gets ad (length chs) (hc_route ad st fin) s s'"
proof (induction chs arbitrary: tr s)
  case (Cons ch chs)
  show ?case
  proof (cases "identified ch")
    case False
    have "only_gets ad (length chs) (hc_route ad st fin) s s'"
      using Cons.prems unfolding hc_histories_skip [OF False] by (rule Cons.IH)
    then show ?thesis by (rule only_gets_mono) simp_all
  next
    case True
    note route = check_path_route [OF True, of ad st fin]
    have "\<exists>s1. s1 = snd (ax_get ad (check_path ad st fin ch) s) \<and> only_gets ad (length chs) (hc_route ad st fin) s1 s'"
      using Cons.prems True by (rule hc_histories_Cons) (metis Cons.IH only_gets_refl)
    with only_gets_step [of "hc_route ad st fin" "check_path ad st fin ch" ad "length chs" s s', OF route] show ?thesis by auto
  qed
qed simp

lemma hc_transitions_cases:
  assumes "hc_transitions ad he sid f st fin s = ((tr, err), s')"
  obtains (list) e where "hc_list ad he s = (Inl e, s')" "tr = no_transitions" "err = Some e"
    | (none) checks t where "hc_list ad he s = (Inr (checks, t), s')" "tr = no_transitions" "err = Some err_no_match"
    | (run) checks t s1 matched err1 where "hc_list ad he s = (Inr (checks, t), s1)"
      "window_checks (ax_unicode ad) sid f checks = Inr matched"
      "hc_histories ad he sid st fin (take max_transition_checks (slice_stable check_less matched))
         (start_transitions (slice_stable check_less matched)) s1 = ((tr, err1), s')"
      "err = None \<Longrightarrow> err1 = None"
  using assms
  by (auto simp: hc_transitions_def window_checks_def Let_def split: prod.splits sum.splits option.splits if_splits)

lemma hc_transitions_gets:
  assumes "hc_transitions ad he sid f st fin s = ((tr, err), s')"
  shows "only_gets ad 33 (hc_route ad st fin) s s'"
proof -
  have one: "only_gets ad 1 (hc_route ad st fin) s s1" if "hc_list ad he s = (r, s1)" for r s1
    by (rule only_gets_mono [OF hc_list_gets [OF that]]) (simp_all add: hc_route_def)
  from assms show ?thesis
  proof (cases rule: hc_transitions_cases)
    case (list e)
    then show ?thesis by (intro only_gets_mono [OF one]) auto
  next
    case (none checks t)
    then show ?thesis by (intro only_gets_mono [OF one]) auto
  next
    case (run checks t s1 matched err1)
    from only_gets_trans [OF one [OF run(1)] hc_histories_gets [OF run(3)]]
    show ?thesis by (rule only_gets_mono) (simp_all add: max_transition_checks_def)
  qed
qed

lemma date_attr_screened: "list_all (screened e w (ax_format ad)) (concat (map (\<lambda>x. attr_texts (snd x)) (date_attr ad k t)))"
  by (cases t) (simp_all add: date_attr_def screened_date)

lemma hc_item_screened: "item_screened ad (hc_item ad he i sid ch observed)"
  unfolding item_screened_def hc_item_def Let_def item_texts_def case_prod_beta
  by (simp add: screened_simps date_attr_screened)

lemma transition_item_screened: "item_screened ad (transition_item ad he i sid ch entry st fin)"
  unfolding item_screened_def transition_item_def Let_def item_texts_def case_prod_beta
  by (simp add: screened_simps) (simp add: fixed_words_def screened_word)

lemma hc_items_screened: "it \<in> set (hc_items ad he sid chs observed) \<Longrightarrow> item_screened ad it"
  by (auto simp: hc_items_def hc_item_screened)

lemma hc_status_screened: "hc_status ad he sid f s = (Inr items, s') \<Longrightarrow> list_all (item_screened ad) items"
  by (auto simp: hc_status_def Let_def list_all_iff hc_items_screened split: prod.splits sum.splits if_splits)

lemma hc_failed_screened: "hc_failed ad he sid f st fin s = (Inr items, s') \<Longrightarrow> list_all (item_screened ad) items"
  by (auto simp: hc_failed_def list_all_iff hc_items_screened split: prod.splits sum.splits if_splits)

text \<open>The current failures carry the window, and their time is in it up to the delay of the collection.\<close>

lemma hc_failed_history:
  assumes "hc_failed ad he sid f st fin s = (Inr items, s')"
  shows "\<forall>it \<in> set items. history_item (\<lambda>_. True) st fin it"
proof -
  have "it_observed_at (hc_item ad he i sid ch t) = t" for i ch t by (simp add: hc_item_def Let_def case_prod_beta)
  with assms show ?thesis
    by (auto simp: hc_failed_def hc_items_def history_item_def split: prod.splits sum.splits if_splits)
qed

section \<open>Counters and the window\<close>

text \<open>An invariant of the loop over the checks.\<close>

lemma hc_histories_inv:
  assumes "hc_histories ad he sid st fin chs tr s = ((tr', err), s')" and "I tr"
    and skip: "\<And>tr. I tr \<Longrightarrow> I (tr\<lparr>tr_missing_identity := tr_missing_identity tr + 1\<rparr>)"
    and auth: "\<And>tr. I tr \<Longrightarrow> I (requested tr)"
    and failure: "\<And>tr. I tr \<Longrightarrow> I (request_failed (requested tr))"
    and flips: "\<And>tr ch flips. I tr \<Longrightarrow> I (add_flips ad he sid st fin ch flips (requested tr))"
  shows "I tr'"
  using assms(1,2)
proof (induction chs arbitrary: tr s)
  case (Cons ch chs)
  show ?case
  proof (cases "identified ch")
    case False
    from Cons.prems(1) Cons.prems(2) skip show ?thesis unfolding hc_histories_skip [OF False] by (blast intro: Cons.IH)
  next
    case True
    from Cons.prems(1) True show ?thesis
      by (rule hc_histories_Cons) (use Cons.IH Cons.prems(2) auth failure flips in blast)
  qed
qed simp

lemma window_flips_ok:
  assumes "(at, up) \<in> set (window_flips he st fin flips)" shows "st \<le> at \<and> at \<le> fin"
proof -
  have "set (slice_stable lt xs) = set xs" for lt and xs :: "(time \<times> int) list"
    by (rule mset_eq_setD) (rule mset_slice_stable)
  with assms show ?thesis by (auto simp: window_flips_def)
qed

lemma transition_item_fields [simp]:
  "it_observed_at (transition_item ad he i sid ch entry st fin) = fst entry"
  "it_window_start (transition_item ad he i sid ch entry st fin) = Some st"
  "it_window_end (transition_item ad he i sid ch entry st fin) = Some fin"
  by (simp_all add: transition_item_def Let_def case_prod_beta)

text \<open>What every item of the result satisfies.\<close>

definition hc_item_ok :: "'s adapter \<Rightarrow> time \<Rightarrow> time \<Rightarrow> item \<Rightarrow> bool" where
  "hc_item_ok ad st fin it \<longleftrightarrow> item_screened ad it \<and> history_item (\<lambda>_. False) st fin it"

lemma add_flips_items:
  assumes "list_all (hc_item_ok ad st fin) (tr_items tr)"
  shows "list_all (hc_item_ok ad st fin) (tr_items (add_flips ad he sid st fin ch flips tr))"
proof -
  define parsed where "parsed = window_flips he st fin flips"
  have "hc_item_ok ad st fin (transition_item ad he i sid ch entry st fin)" if "entry \<in> set parsed" for i entry
    using that window_flips_ok [of "fst entry" "snd entry" he st fin flips]
    by (simp add: hc_item_ok_def transition_item_screened history_item_def parsed_def)
  then show ?thesis
    using assms unfolding add_flips_def parsed_def [symmetric]
    by (auto simp: Let_def list_all_iff dest!: in_enumerate in_set_dropD)
qed

lemma hc_transitions_items:
  assumes "hc_transitions ad he sid f st fin s = ((tr, err), s')"
  shows "list_all (hc_item_ok ad st fin) (tr_items tr)"
  using assms
proof (cases rule: hc_transitions_cases)
  case (run checks t s1 matched err1)
  from run(3) show ?thesis
    by (rule hc_histories_inv) (auto simp: start_transitions_def no_transitions_def add_flips_items)
qed (simp_all add: no_transitions_def)

text \<open>The counters of the loop.\<close>

definition counters_ok :: "int \<Rightarrow> transition_result \<Rightarrow> bool" where
  "counters_ok omitted tr \<longleftrightarrow> 0 \<le> tr_failures tr \<and> tr_failures tr \<le> tr_requests tr \<and> tr_omitted tr = omitted
     \<and> (0 < omitted \<longrightarrow> tr_truncated tr) \<and> int (length (tr_items tr)) \<le> 200 * (tr_requests tr - tr_failures tr)"

lemma add_flips_counters: "counters_ok k tr \<Longrightarrow> counters_ok k (add_flips ad he sid st fin ch flips (requested tr))"
  by (auto simp: counters_ok_def add_flips_def Let_def max_flips_per_check_def)

lemma hc_histories_counters:
  assumes "hc_histories ad he sid st fin chs tr s = ((tr', err), s')" and "counters_ok k tr"
  shows "counters_ok k tr'"
  using assms by (rule hc_histories_inv) (auto simp: add_flips_counters, auto simp: counters_ok_def)

lemma hc_histories_account:
  assumes "hc_histories ad he sid st fin chs tr s = ((tr', None), s')"
  shows "s' = after_gets ad (map (check_path ad st fin) (filter identified chs)) s
    \<and> tr_requests tr' = tr_requests tr + int (length (filter identified chs))
    \<and> tr_missing_identity tr' = tr_missing_identity tr + int (length (filter (\<lambda>ch. \<not> identified ch) chs))"
  using assms
proof (induction chs arbitrary: tr s)
  case (Cons ch chs)
  show ?case
  proof (cases "identified ch")
    case False
    from Cons.IH [OF Cons.prems [unfolded hc_histories_skip [OF False]]] False show ?thesis by simp
  next
    case True
    obtain s1 tr1 where s1: "s1 = snd (ax_get ad (check_path ad st fin ch) s)"
      "hc_histories ad he sid st fin chs tr1 s1 = ((tr', None), s')"
      "tr_requests tr1 = tr_requests tr + 1" "tr_missing_identity tr1 = tr_missing_identity tr"
      using Cons.prems True
    proof (rule hc_histories_Cons)
      fix s1 assume a: "s1 = snd (ax_get ad (check_path ad st fin ch) s)" and
        b: "tr' = requested tr \<and> None = Some hc_auth_failed \<and> s' = s1
          \<or> hc_histories ad he sid st fin chs (request_failed (requested tr)) s1 = ((tr', None), s')
          \<or> (\<exists>flips. hc_histories ad he sid st fin chs (add_flips ad he sid st fin ch flips (requested tr)) s1 = ((tr', None), s'))"
      from b consider "hc_histories ad he sid st fin chs (request_failed (requested tr)) s1 = ((tr', None), s')"
        | flips where "hc_histories ad he sid st fin chs (add_flips ad he sid st fin ch flips (requested tr)) s1 = ((tr', None), s')"
        by auto
      then show thesis by cases (erule that [OF a]; simp add: add_flips_def Let_def)+
    qed
    from Cons.IH [OF s1(2)] s1(1,3,4) True show ?thesis by simp
  qed
qed simp

text \<open>The history of one check: in time order, at most 200 transitions, all under one source id.\<close>

definition one_history :: "item list \<Rightarrow> bool" where
  "one_history g \<longleftrightarrow> sorted (map it_observed_at g) \<and> length g \<le> 200
     \<and> (\<forall>a \<in> set g. \<forall>b \<in> set g. it_source_id a = it_source_id b)"

lemma window_flips_sorted: "sorted (map fst (window_flips he st fin flips))"
  unfolding window_flips_def by (subst slice_stable_sort_key [where f = fst]) simp_all

lemma add_flips_history:
  "\<exists>g. one_history g \<and> tr_items (add_flips ad he sid st fin ch flips tr) = tr_items tr @ g"
proof -
  let ?ps = "window_flips he st fin flips"
  let ?kept = "if length ?ps > max_flips_per_check then drop (length ?ps - max_flips_per_check) ?ps else ?ps"
  let ?g = "map (\<lambda>(i, entry). transition_item ad he i sid ch entry st fin) (enumerate (length (tr_items tr)) ?kept)"
  have "map it_observed_at ?g = map fst ?kept"
    by (simp add: case_prod_beta comp_def flip: map_map [of fst snd, unfolded comp_def])
  moreover have "sorted (map fst ?kept)"
    using window_flips_sorted [of he st fin flips] by (simp add: drop_map [symmetric] sorted_wrt_drop)
  moreover have "length ?kept \<le> 200" by (simp add: max_flips_per_check_def)
  moreover have "it_source_id (transition_item ad he i sid ch e1 st fin) = it_source_id (transition_item ad he j sid ch e2 st fin)"
    for i j e1 e2 by (simp add: transition_item_def Let_def case_prod_beta)
  ultimately have "one_history ?g" by (auto simp: one_history_def)
  then show ?thesis by (intro exI [of _ ?g]) (simp add: add_flips_def Let_def)
qed

lemma hc_histories_groups:
  assumes "hc_histories ad he sid st fin chs tr s = ((tr', None), s')"
  shows "\<exists>groups. length groups = length (filter identified chs) \<and> tr_items tr' = tr_items tr @ concat groups
    \<and> (\<forall>g \<in> set groups. one_history g)"
  using assms
proof (induction chs arbitrary: tr s)
  case (Cons ch chs)
  show ?case
  proof (cases "identified ch")
    case False
    from Cons.IH [OF Cons.prems [unfolded hc_histories_skip [OF False]]] False show ?thesis by simp
  next
    case True
    have "\<exists>g tr1 s1. one_history g \<and> tr_items tr1 = tr_items tr @ g \<and> hc_histories ad he sid st fin chs tr1 s1 = ((tr', None), s')"
      using Cons.prems True
    proof (rule hc_histories_Cons)
      fix s1 assume "tr' = requested tr \<and> None = Some hc_auth_failed \<and> s' = s1
          \<or> hc_histories ad he sid st fin chs (request_failed (requested tr)) s1 = ((tr', None), s')
          \<or> (\<exists>flips. hc_histories ad he sid st fin chs (add_flips ad he sid st fin ch flips (requested tr)) s1 = ((tr', None), s'))"
      then consider "hc_histories ad he sid st fin chs (request_failed (requested tr)) s1 = ((tr', None), s')"
        | flips where "hc_histories ad he sid st fin chs (add_flips ad he sid st fin ch flips (requested tr)) s1 = ((tr', None), s')"
        by auto
      then show ?thesis
      proof cases
        case 1
        then show ?thesis by (intro exI [of _ "[]"] exI [of _ "request_failed (requested tr)"] exI [of _ s1]) (simp add: one_history_def)
      next
        case 2
        with add_flips_history [of ad he sid st fin ch flips "requested tr"] show ?thesis by fastforce
      qed
    qed
    then obtain g tr1 s1 where g: "one_history g" "tr_items tr1 = tr_items tr @ g" and
      rest: "hc_histories ad he sid st fin chs tr1 s1 = ((tr', None), s')" by blast
    from Cons.IH [OF rest] obtain groups where "length groups = length (filter identified chs)"
      "tr_items tr' = tr_items tr1 @ concat groups" "\<forall>g \<in> set groups. one_history g" by blast
    with g True show ?thesis by (intro exI [of _ "g # groups"]) simp
  qed
qed simp

lemma hc_transitions_groups:
  assumes "hc_transitions ad he sid f st fin s = ((tr, None), s')"
  shows "\<exists>paths groups. s' = after_gets ad (hc_list_path # paths) s \<and> length groups = length paths \<and> length paths \<le> 32
    \<and> tr_items tr = concat groups \<and> (\<forall>g \<in> set groups. one_history g)"
  using assms
proof (cases rule: hc_transitions_cases)
  case (run checks t s1 matched err1)
  define cs where "cs = take max_transition_checks (slice_stable check_less matched)"
  have loop: "hc_histories ad he sid st fin cs (start_transitions (slice_stable check_less matched)) s1 = ((tr, None), s')"
    using run(3,4) by (simp add: cs_def)
  have s1: "s1 = snd (ax_get ad hc_list_path s)" using run(1) by (auto simp: hc_list_def split: prod.splits sum.splits if_splits)
  obtain groups where g: "length groups = length (filter identified cs)" "tr_items tr = concat groups" "\<forall>g \<in> set groups. one_history g"
    using hc_histories_groups [OF loop] by (auto simp: start_transitions_def no_transitions_def split: if_splits)
  have "length (filter identified cs) \<le> 32"
    by (rule order_trans [OF length_filter_le]) (simp add: cs_def max_transition_checks_def)
  with g hc_histories_account [OF loop] s1 show ?thesis
    by (intro exI [of _ "map (check_path ad st fin) (filter identified cs)"] exI [of _ groups]) simp
qed simp_all

text \<open>The whole result, from the loop.\<close>

lemma hc_transitions_length:
  assumes "hc_transitions ad he sid f st fin s = ((tr, None), s')"
  shows "int (length (tr_items tr)) \<le> 6400"
  using assms
proof (cases rule: hc_transitions_cases)
  case (run checks t s1 matched err1)
  define ms where "ms = slice_stable check_less matched"
  have loop: "hc_histories ad he sid st fin (take 32 ms) (start_transitions ms) s1 = ((tr, None), s')"
    using run(3,4) by (simp add: max_transition_checks_def ms_def)
  have "counters_ok (int (length ms - 32)) (start_transitions ms)"
    by (simp add: counters_ok_def start_transitions_def no_transitions_def max_transition_checks_def)
  from hc_histories_counters [OF loop this] have "int (length (tr_items tr)) \<le> 200 * (tr_requests tr - tr_failures tr)"
    "0 \<le> tr_failures tr" by (simp_all add: counters_ok_def)
  moreover have "tr_requests tr = int (length (filter identified (take 32 ms)))"
    using hc_histories_account [OF loop] by (simp add: start_transitions_def no_transitions_def)
  moreover have "length (filter identified (take 32 ms)) \<le> 32"
    by (rule order_trans [OF length_filter_le]) simp
  ultimately have "int (length (tr_items tr)) \<le> 200 * (tr_requests tr - tr_failures tr)" "tr_requests tr - tr_failures tr \<le> 32"
    by simp_all
  then show ?thesis by simp
qed simp_all

section \<open>The interface\<close>

text \<open>The interface that the operations implement.\<close>

interpretation hc_status_op: source_operation ad "hc_status ad he sid f" found_list 1 "\<lambda>p. p = hc_list_path"
  for ad he sid f
proof
  show "only_gets ad 1 (\<lambda>p. p = hc_list_path) s s'" if "hc_status ad he sid f s = (r, s')" for s r s'
    using that by (rule hc_status_gets)
  show "list_all (item_screened ad) (found_list r)" if "hc_status ad he sid f s = (r, s')" for s r s'
    using that hc_status_screened by (cases r) auto
qed

interpretation hc_failed_op: source_operation ad "hc_failed ad he sid f st fin" found_list 1 "\<lambda>p. p = hc_list_path"
  for ad he sid f st fin
proof
  show "only_gets ad 1 (\<lambda>p. p = hc_list_path) s s'" if "hc_failed ad he sid f st fin s = (r, s')" for s r s'
    using that by (rule hc_failed_gets)
  show "list_all (item_screened ad) (found_list r)" if "hc_failed ad he sid f st fin s = (r, s')" for s r s'
    using that hc_failed_screened by (cases r) auto
qed

interpretation hc_transitions_op: source_operation ad "hc_transitions ad he sid f st fin" "\<lambda>r. tr_items (fst r)" 33 "hc_route ad st fin"
  for ad he sid f st fin
proof
  show "only_gets ad 33 (hc_route ad st fin) s s'" if "hc_transitions ad he sid f st fin s = (r, s')" for s r s'
    using that by (cases r) (blast intro: hc_transitions_gets)
  show "list_all (item_screened ad) (tr_items (fst r))" if "hc_transitions ad he sid f st fin s = (r, s')" for s r s'
    using that hc_transitions_items [of ad he sid f st fin s "fst r" "snd r" s'] by (auto simp: list_all_iff hc_item_ok_def)
qed

section \<open>Properties\<close>

text \<open>
  Property C13: the transitions account for every check that the binding selects: each of the first 32
  in the fixed order is asked for exactly once, under its own key, or counted as without identity; the
  others are counted as omitted, which marks the result as truncated; the failed requests are counted,
  and at most 200 transitions come from each of the other requests.
\<close>
theorem transitions_account_for_checks:
  assumes "hc_transitions ad he sid f st fin s = ((tr, None), s')"
  shows "\<exists>checks t s1 matched cs. hc_list ad he s = (Inr (checks, t), s1)
    \<and> window_checks (ax_unicode ad) sid f checks = Inr matched \<and> cs = take 32 (slice_stable check_less matched)
    \<and> s' = after_gets ad (map (check_path ad st fin) (filter identified cs)) s1
    \<and> tr_requests tr = int (length (filter identified cs))
    \<and> tr_missing_identity tr = int (length (filter (\<lambda>ch. \<not> identified ch) cs)) \<and> tr_omitted tr = int (length matched - 32)
    \<and> int (length matched) = tr_requests tr + tr_missing_identity tr + tr_omitted tr
    \<and> (tr_omitted tr > 0 \<longrightarrow> length cs = 32 \<and> tr_truncated tr)
    \<and> 0 \<le> tr_failures tr \<and> int (length (tr_items tr)) \<le> 200 * (tr_requests tr - tr_failures tr)"
  using assms
proof (cases rule: hc_transitions_cases)
  case (run checks t s1 matched err1)
  define ms where "ms = slice_stable check_less matched"
  have len: "length ms = length matched"
    unfolding ms_def by (rule mset_eq_length) (rule mset_slice_stable)
  have loop: "hc_histories ad he sid st fin (take 32 ms) (start_transitions ms) s1 = ((tr, None), s')"
    using run(3,4) by (simp add: max_transition_checks_def ms_def)
  have "counters_ok (int (length ms - 32)) (start_transitions ms)"
    by (simp add: counters_ok_def start_transitions_def no_transitions_def max_transition_checks_def)
  from hc_histories_counters [OF loop this] have c: "counters_ok (int (length ms - 32)) tr" .
  have zero: "tr_requests (start_transitions ms) = 0" "tr_missing_identity (start_transitions ms) = 0"
    by (simp_all add: start_transitions_def no_transitions_def)
  have "length (filter identified (take 32 ms)) + length (filter (\<lambda>ch. \<not> identified ch) (take 32 ms)) = min 32 (length ms)"
    by (simp add: sum_length_filter_compl min.commute)
  then have "int (length matched) = int (length (filter identified (take 32 ms)))
      + int (length (filter (\<lambda>ch. \<not> identified ch) (take 32 ms))) + int (length matched - 32)"
    using len by linarith
  moreover note hc_histories_account [OF loop, unfolded zero]
  moreover have "tr_omitted tr > 0 \<longrightarrow> length (take 32 ms) = 32 \<and> tr_truncated tr" "0 \<le> tr_failures tr"
    "int (length (tr_items tr)) \<le> 200 * (tr_requests tr - tr_failures tr)" "tr_omitted tr = int (length matched - 32)"
    using c len by (auto simp: counters_ok_def)
  ultimately show ?thesis
    using run(1,2)
    by (intro exI [of _ checks] exI [of _ t] exI [of _ s1] exI [of _ matched] exI [of _ "take 32 ms"]) (simp add: ms_def)
qed simp_all

text \<open>Two checks, of which one has a key and one flip.\<close>

definition example_check :: "string \<Rightarrow> check" where
  "example_check key = \<lparr>ck_name = ''backup'', ck_slug = ''backup'', ck_tags = [], ck_grace = 60, ck_status = ''up'', ck_last_ping = [],
     ck_next_ping = [], ck_uuid = [], ck_unique_key = key\<rparr>"

definition example_hc_env :: hc_env where
  "example_hc_env = \<lparr>he_headers = True, he_checks = (\<lambda>_. None), he_wrapped_checks = (\<lambda>_. Some (Some [example_check ''k'', example_check []])),
     he_flips = (\<lambda>_. Some (Some [\<lparr>fl_timestamp = ''3'', fl_up = Some 0\<rparr>])), he_wrapped_flips = (\<lambda>_. None),
     he_parse = (\<lambda>l s. if s = ''3'' then Some 3 else None), he_print = (\<lambda>_. True)\<rparr>"

lemma transitions_account_for_checks_witness:
  "\<exists>tr s'. hc_transitions example_adapter example_hc_env [] empty_filter 0 100 0 = ((tr, None), s')
     \<and> tr_requests tr = 1 \<and> tr_missing_identity tr = 1 \<and> tr_omitted tr = 0"
proof -
  let ?cs = "[example_check ''k'', example_check []]"
  have trim: "trim_space ''k'' = ''k''" "trim_space [] = []"
    by (simp_all add: ascii_eval trim_space_def space_chunk_def is_space_def)
  have key: "identified (example_check ''k'')" "\<not> identified (example_check [])"
    by (simp_all add: identified_def example_check_def trim transition_key_re_def match_class_def key_char_def
        is_alnum_def is_lower_def less_eq_char_def)
  have list: "hc_list example_adapter example_hc_env 0 = (Inr (?cs, 100), 1)"
    by (simp add: hc_list_def decode_checks_def example_hc_env_def example_adapter_def collection_time_def header_get_def)
  have sel: "window_checks uc [] empty_filter ?cs = Inr ?cs" for uc
    by (simp add: window_checks_def selects_def empty_filter_def)
  have sorted: "slice_stable check_less ?cs = [example_check [], example_check ''k'']"
    by (simp add: slice_stable_def check_less_def safe_source_id_def example_check_def)
  have one: "hc_histories example_adapter example_hc_env [] 0 100 [example_check ''k''] tr 1
      = ((add_flips example_adapter example_hc_env [] 0 100 (example_check ''k'') [\<lparr>fl_timestamp = ''3'', fl_up = Some 0\<rparr>]
           (requested tr), None), 2)" for tr
    using key(1) by (simp add: identified_def example_adapter_def example_hc_env_def decode_flips_def)
  obtain tr where run: "hc_transitions example_adapter example_hc_env [] empty_filter 0 100 0 = ((tr, None), 2)"
    using list sel sorted one key
    by (simp add: hc_transitions_def max_transition_checks_def start_transitions_def hc_histories_skip Let_def
        add_flips_def no_transitions_def del: hc_histories.simps)
  from transitions_account_for_checks [OF run] list sel sorted key run show ?thesis by auto
qed

text \<open>A text without an exact secret is only cleaned by an engine without expressions.\<close>

lemma redact_apply_untouched:
  assumes "\<forall>ex \<in> set (en_exact e). ex \<noteq> [] \<longrightarrow> \<not> str_contains s ex" and "en_regexps e = []"
  shows "redact_apply (Some e) s = (sanitize_control s, 0)"
proof -
  have one: "mark_exact s ex 0 m = m" if "\<not> str_contains s ex" for ex m
    using that by (subst mark_exact.simps) (simp add: str_contains_def)
  have "mark_exacts s exs m = m" if "\<forall>ex \<in> set exs. ex \<noteq> [] \<longrightarrow> \<not> str_contains s ex" for exs m
    using that by (induction exs) (simp_all add: one Let_def)
  then have mask: "redact_mask e s = (replicate (length s) False, 0)"
    using assms by (simp add: redact_mask_def)
  have "emit_regions (zip t (replicate (length t) False)) = (t, 0)" for t
    by (induction t) simp_all
  then show ?thesis by (simp add: redact_apply_def mask sanitize_control_def)
qed

text \<open>
  The name is quoted before the summary is redacted: an exact secret that contains a quotation mark,
  as the whole name, stays in the summary with the mark escaped.
\<close>
lemma quoted_name_escapes_redaction:
  fixes pr :: "rune \<Rightarrow> bool"
  assumes "name = ''a'' @ [CHR 0x22] @ ''b''"
  shows "redact_apply (Some \<lparr>en_exact = [name], en_regexps = []\<rparr>) (hc_summary pr name ''up'')
    = (sanitize_control (''healthchecks '' @ [CHR 0x22] @ ''a'' @ [CHR 0x5C, CHR 0x22] @ ''b'' @ [CHR 0x22] @ '' status=up''), 0)"
proof -
  have chars: "char_of (97 :: nat) = CHR ''a''" "char_of (34 :: nat) = CHR 0x22" "char_of (98 :: nat) = CHR ''b''"
    by code_simp+
  have quoted: "hc_summary pr name ''up''
      = ''healthchecks '' @ [CHR 0x22] @ ''a'' @ [CHR 0x5C, CHR 0x22] @ ''b'' @ [CHR 0x22] @ '' status=up''"
    using assms by (simp add: hc_summary_def go_quote_def quote_chunk_def ascii_eval is_print_def encode_rune_def byte_def rune_error_def chars)
  have "\<not> str_contains (hc_summary pr name ''up'') name"
    unfolding quoted using assms by (simp add: str_contains_def)
  then have "redact_apply (Some \<lparr>en_exact = [name], en_regexps = []\<rparr>) (hc_summary pr name ''up'')
      = (sanitize_control (hc_summary pr name ''up''), 0)"
    by (intro redact_apply_untouched) simp_all
  then show ?thesis unfolding quoted .
qed

end
