(* ===== verification/Adapters.thy ===== *)
theory Adapters
  imports Docker Gatus Ntfy Loki Beszel Healthchecks
begin

text \<open>
  All adapters together: every operation over the locked HTTP client. Lemmas: an operation keeps the
  client reachable and only asks for its own routes, its items say where they come from and have their
  own identifiers, and its history is in the window.
\<close>

section \<open>An adapter over the locked client\<close>

text \<open>
  The calls of one operation: what the network, the clocks and the context do at the \<open>n\<close>-th of them, the
  destination and the headers of the client, and the text of an error. The state is the locked client
  with the cache record of the call; \<open>sn_asked\<close> records the paths asked for, and \<open>sn_sent\<close> the requests made of
  them, also those that the cache answers.
\<close>

record link =
  lk_send :: "nat \<Rightarrow> network"
  lk_clock :: "nat \<Rightarrow> get_clock"
  lk_context :: "nat \<Rightarrow> string option"
  lk_dest :: string
  lk_headers :: "(string, string) gomap"
  lk_error :: "http_error \<Rightarrow> string"

record session =
  sn_client :: http_client
  sn_info :: "request_info option"
  sn_asked :: "string list"
  sn_sent :: "request list"

definition session_get :: "http_env \<Rightarrow> link \<Rightarrow> string \<Rightarrow> session \<Rightarrow> (go_error + response \<times> string) \<times> session" where
  "session_get env lk p sn =
     (let n = length (sn_asked sn);
         sn = sn\<lparr>sn_asked := sn_asked sn @ [p],
           sn_sent := sn_sent sn @ (case compose_url env (sn_client sn) (lk_context lk n) (lk_dest lk) p of
              Inl _ \<Rightarrow> [] | Inr rq \<Rightarrow> [rq])\<rparr>
      in case http_get env (lk_send lk n) (lk_clock lk n) (lk_context lk n) (lk_dest lk) p (lk_headers lk)
             (sn_client sn, sn_info sn) of
           None \<Rightarrow> (Inl (plain_error []), sn)
         | Some (out, c, info) \<Rightarrow>
             ((case (go_err out, go_resp out) of
                 (None, Some resp) \<Rightarrow> Inr (resp, go_body out)
               | (Some err, _) \<Rightarrow> Inl (plain_error (lk_error lk err))
               | (None, None) \<Rightarrow> Inl (plain_error [])),
              sn\<lparr>sn_client := c, sn_info := info\<rparr>))"

definition session_adapter ::
  "http_env \<Rightarrow> link \<Rightarrow> engine \<Rightarrow> time \<Rightarrow> (nat \<Rightarrow> string) \<Rightarrow> (time \<Rightarrow> string) \<Rightarrow> session adapter" where
  "session_adapter env lk eng now ids fmt = \<lparr>ax_get = session_get env lk, ax_http = env, ax_engine = eng, ax_now = now,
     ax_id = ids, ax_format = fmt\<rparr>"

text \<open>A GET keeps the client reachable and its destinations, and only makes requests locked to its own.\<close>

definition session_ok :: "http_env \<Rightarrow> http_client \<Rightarrow> string \<Rightarrow> session \<Rightarrow> bool" where
  "session_ok env c0 dest sn \<longleftrightarrow> client_reach env (sn_client sn) \<and> ht_destinations (sn_client sn) = ht_destinations c0
     \<and> list_all (locked c0 dest) (sn_sent sn)"

lemma session_get_asked: "sn_asked (snd (session_get env lk p sn)) = sn_asked sn @ [p]"
  by (simp add: session_get_def Let_def split: option.split prod.split)

lemma session_get_ok:
  assumes "session_ok env c0 (lk_dest lk) sn"
  shows "session_ok env c0 (lk_dest lk) (snd (session_get env lk p sn))"
proof -
  let ?n = "length (sn_asked sn)"
  have reach: "client_reach env (sn_client sn)" using assms by (simp add: session_ok_def)
  obtain out c info where g: "http_get env (lk_send lk ?n) (lk_clock lk ?n) (lk_context lk ?n) (lk_dest lk) p (lk_headers lk)
      (sn_client sn, sn_info sn) = Some (out, c, info)" "ht_destinations c = ht_destinations (sn_client sn)"
    using http_get_returns [of "sn_client sn"] client_reach_ok [OF reach] by blast
  have "client_reach env c" by (rule client_reach.get [OF reach g(1)])
  moreover have "locked c0 (lk_dest lk) rq" if "compose_url env (sn_client sn) (lk_context lk ?n) (lk_dest lk) p = Inr rq" for rq
    using compose_url_locked [OF _ that] client_reach_ok [OF reach] assms by (simp add: session_ok_def locked_def)
  ultimately show ?thesis
    using g assms by (simp add: session_get_def session_ok_def Let_def split: sum.split)
qed

text \<open>
  From a reachable client the call returns, so the case for a call that does not is never taken; and the
  requests recorded in \<open>sn_sent\<close> are all that the call can send: the network matters on no other.
\<close>

lemma session_get_returns:
  assumes "client_reach env (sn_client sn)"
  shows "\<exists>out c info. http_get env (lk_send lk (length (sn_asked sn))) (lk_clock lk (length (sn_asked sn)))
        (lk_context lk (length (sn_asked sn))) (lk_dest lk) p (lk_headers lk) (sn_client sn, sn_info sn) = Some (out, c, info)
    \<and> sn_client (snd (session_get env lk p sn)) = c \<and> sn_info (snd (session_get env lk p sn)) = info"
proof -
  let ?n = "length (sn_asked sn)"
  obtain out c info where g: "http_get env (lk_send lk ?n) (lk_clock lk ?n) (lk_context lk ?n) (lk_dest lk) p (lk_headers lk)
      (sn_client sn, sn_info sn) = Some (out, c, info)"
    using http_get_returns [of "sn_client sn"] client_reach_ok [OF assms] by blast
  then show ?thesis by (simp add: session_get_def Let_def)
qed

lemma session_sends_only_recorded:
  assumes agree: "\<And>rq hs. rq \<in> set (sn_sent (snd (session_get env lk p sn))) \<Longrightarrow>
      lk_send lk (length (sn_asked sn)) (rq\<lparr>rq_headers := hs\<rparr>) = send (rq\<lparr>rq_headers := hs\<rparr>)"
  shows "http_get env (lk_send lk (length (sn_asked sn))) clk (lk_context lk (length (sn_asked sn))) (lk_dest lk) p hdrs (sn_client sn, info)
    = http_get env send clk (lk_context lk (length (sn_asked sn))) (lk_dest lk) p hdrs (sn_client sn, info)"
proof (cases "compose_url env (sn_client sn) (lk_context lk (length (sn_asked sn))) (lk_dest lk) p")
  case (Inr full)
  then have "full \<in> set (sn_sent (snd (session_get env lk p sn)))"
    by (auto simp: session_get_def Let_def split: option.split prod.split)
  with agree have eq: "fetch env (lk_send lk (length (sn_asked sn))) clk full headers = fetch env send clk full headers" for headers
    by (intro ext) (simp add: fetch_def)
  show ?thesis unfolding http_get_def Inr Let_def prod.case sum.case eq ..
qed (simp add: http_get_def)

section \<open>The operations\<close>

text \<open>What the adapters take from libraries: JSON decoding, \<open>time.Parse\<close>, the regexp check, the line limit.\<close>

record libraries =
  lb_gatus :: "endpoint list decoder"
  lb_parse :: "string \<Rightarrow> string \<Rightarrow> time option"
  lb_docker :: "container list decoder"
  lb_loki :: "string \<Rightarrow> loki_response option"
  lb_compiles :: "string \<Rightarrow> bool"
  lb_max_line :: int
  lb_hc :: hc_env
  lb_beszel :: beszel_json
  lb_ntfy :: ntfy_json

datatype operation =
    GatusStatusOp string string | GatusWindowOp string string time time int
  | DockerOp string string | BeszelOp string string | LokiOp loki_query
  | HcStatusOp string hc_filter | HcFailedOp string hc_filter time time | HcTransitionsOp string hc_filter time time
  | NtfyOp string string time time int

text \<open>The items and the error of a result, and the state.\<close>

definition one_result :: "(go_error + item) \<times> 's \<Rightarrow> (item list \<times> go_error option) \<times> 's" where
  "one_result r = ((found_one (fst r), case fst r of Inl e \<Rightarrow> Some e | Inr _ \<Rightarrow> None), snd r)"

definition list_result :: "(go_error + item list) \<times> 's \<Rightarrow> (item list \<times> go_error option) \<times> 's" where
  "list_result r = ((found_list (fst r), case fst r of Inl e \<Rightarrow> Some e | Inr _ \<Rightarrow> None), snd r)"

definition both_result :: "('r \<Rightarrow> item list) \<Rightarrow> ('r \<times> go_error option) \<times> 's \<Rightarrow> (item list \<times> go_error option) \<times> 's" where
  "both_result f r = ((f (fst (fst r)), snd (fst r)), snd r)"

fun run_operation :: "'s adapter \<Rightarrow> libraries \<Rightarrow> operation \<Rightarrow> 's \<Rightarrow> (item list \<times> go_error option) \<times> 's" where
  "run_operation ad lb (GatusStatusOp sid key) s = one_result (gatus_status ad (lb_gatus lb) (lb_parse lb) sid key s)"
| "run_operation ad lb (GatusWindowOp sid key st fin mx) s =
     both_result fst (gatus_window ad (lb_gatus lb) (lb_parse lb) sid key st fin mx s)"
| "run_operation ad lb (DockerOp sid name) s = list_result (docker_evidence ad (lb_docker lb) sid name s)"
| "run_operation ad lb (BeszelOp sid name) s = list_result (beszel_evidence ad (lb_beszel lb) sid name s)"
| "run_operation ad lb (LokiOp opt) s =
     both_result (\<lambda>r. fst (fst r)) (loki_search ad (lb_loki lb) (lb_compiles lb) (lb_max_line lb) opt s)"
| "run_operation ad lb (HcStatusOp sid f) s = list_result (hc_status ad (lb_hc lb) sid f s)"
| "run_operation ad lb (HcFailedOp sid f st fin) s = list_result (hc_failed ad (lb_hc lb) sid f st fin s)"
| "run_operation ad lb (HcTransitionsOp sid f st fin) s = both_result tr_items (hc_transitions ad (lb_hc lb) sid f st fin s)"
| "run_operation ad lb (NtfyOp sid topic st fin limit) s =
     both_result fst (ntfy_history ad (lb_ntfy lb) (lb_max_line lb) sid topic st fin limit s)"

text \<open>The requests that an operation may make.\<close>

fun max_requests :: "operation \<Rightarrow> nat" where
  "max_requests (GatusStatusOp _ _) = 2"
| "max_requests (GatusWindowOp _ _ _ _ _) = 2"
| "max_requests (BeszelOp _ _) = 32"
| "max_requests (HcTransitionsOp _ _ _ _) = 33"
| "max_requests _ = 1"

fun op_route :: "'s adapter \<Rightarrow> operation \<Rightarrow> string \<Rightarrow> bool" where
  "op_route ad (GatusStatusOp _ _) = (\<lambda>p. p \<in> set gatus_paths)"
| "op_route ad (GatusWindowOp _ _ _ _ _) = (\<lambda>p. p \<in> set gatus_paths)"
| "op_route ad (DockerOp _ _) = (\<lambda>p. p = docker_path)"
| "op_route ad (BeszelOp _ _) = (\<lambda>p. beszel_route p)"
| "op_route ad (LokiOp _) = (\<lambda>p. loki_route p)"
| "op_route ad (HcTransitionsOp _ _ st fin) = (\<lambda>p. hc_route ad st fin p)"
| "op_route ad (HcStatusOp _ _) = (\<lambda>p. p = hc_list_path)"
| "op_route ad (HcFailedOp _ _ _ _) = (\<lambda>p. p = hc_list_path)"
| "op_route ad (NtfyOp _ topic st _ _) = (\<lambda>p. ntfy_route p \<and> p = ntfy_path topic st)"

text \<open>Every operation implements the interface.\<close>

lemmas result_defs = one_result_def list_result_def both_result_def

lemmas op_gets = gatus_status_op.run_gets [OF surjective_pairing] gatus_window_op.run_gets [OF surjective_pairing]
  docker_op.run_gets [OF surjective_pairing] beszel_op.run_gets [OF surjective_pairing] loki_op.run_gets [OF surjective_pairing]
  hc_status_op.run_gets [OF surjective_pairing] hc_failed_op.run_gets [OF surjective_pairing]
  hc_transitions_op.run_gets [OF surjective_pairing] ntfy_op.run_gets [OF surjective_pairing]

lemmas op_items = gatus_status_op.run_screened [OF surjective_pairing] gatus_window_op.run_screened [OF surjective_pairing]
  docker_op.run_screened [OF surjective_pairing] beszel_op.run_screened [OF surjective_pairing]
  loki_op.run_screened [OF surjective_pairing] hc_status_op.run_screened [OF surjective_pairing]
  hc_failed_op.run_screened [OF surjective_pairing] hc_transitions_op.run_screened [OF surjective_pairing]
  ntfy_op.run_screened [OF surjective_pairing]

interpretation any_op: source_operation ad "run_operation ad lb op" fst "max_requests op" "op_route ad op"
  for ad lb op
proof
  show "only_gets ad (max_requests op) (op_route ad op) s s'" if "run_operation ad lb op s = (r, s')" for s r s'
  proof -
    have "only_gets ad (max_requests op) (op_route ad op) s (snd (run_operation ad lb op s))"
      by (cases op) (simp_all add: result_defs op_gets del: One_nat_def)
    with that show ?thesis by simp
  qed
  show "list_all (item_screened ad) (fst r)" if "run_operation ad lb op s = (r, s')" for s r s'
  proof -
    have "list_all (item_screened ad) (fst (fst (run_operation ad lb op s)))"
      by (cases op) (simp_all add: result_defs op_items)
    with that show ?thesis by simp
  qed
qed

section \<open>The window of a history\<close>

fun op_window :: "'s adapter \<Rightarrow> operation \<Rightarrow> (time \<times> time \<times> int) option" where
  "op_window ad (GatusWindowOp sid key st fin mx) = Some (st, fin, if mx \<le> 0 then 20 else mx)"
| "op_window ad (LokiOp opt) = Some (lq_start opt, lq_end (effective_query ad opt), lq_limit (effective_query ad opt))"
| "op_window ad (NtfyOp sid topic st fin limit) = Some (st, fin, if limit \<le> 0 then 50 else limit)"
| "op_window ad (HcTransitionsOp sid f st fin) = Some (st, fin, 6400)"
| "op_window ad _ = None"

fun per_check :: "operation \<Rightarrow> bool" where
  "per_check (HcTransitionsOp _ _ _ _) = True"
| "per_check _ = False"

text \<open>One item in a window; \<open>t\<close> is the time of the collection.\<close>

definition in_history :: "time \<Rightarrow> time \<Rightarrow> time \<Rightarrow> item \<Rightarrow> bool" where
  "in_history st fin t it \<longleftrightarrow> it_window_start it = Some st \<and> it_window_end it = Some fin \<and> st \<le> it_observed_at it
     \<and> (it_observed_at it \<le> fin \<or> it_observed_at it = t \<and> t \<le> fin + 30 * second)"

lemma history_ok_in:
  assumes "history_ok snap st fin mx items" and "\<And>it. it \<in> set items \<Longrightarrow> snap it \<Longrightarrow> fin < it_observed_at it \<Longrightarrow> it_observed_at it = t"
  shows "sorted (map it_observed_at items) \<and> int (length items) \<le> mx \<and> (\<forall>it \<in> set items. in_history st fin t it)"
proof -
  have "in_history st fin t it" if it: "it \<in> set items" for it
  proof -
    have h: "it_window_start it = Some st" "it_window_end it = Some fin" "st \<le> it_observed_at it"
      "it_observed_at it \<le> (if snap it then fin + 30 * second else fin)"
      using assms(1) it by (simp_all add: history_ok_def list_all_iff)
    show ?thesis
    proof (cases "it_observed_at it \<le> fin")
      case False
      with h(4) have "snap it" by (simp split: if_splits)
      with assms(2) [OF it] h False show ?thesis by (simp add: in_history_def)
    qed (use h in \<open>simp add: in_history_def\<close>)
  qed
  with assms(1) show ?thesis by (auto simp: history_ok_def)
qed

lemma gatus_window_late:
  assumes "gatus_window ad decode parse sid key st fin mx s = (((items, c), None), s')"
  shows "\<exists>t. \<forall>it \<in> set items. is_missing_item it \<longrightarrow> it_observed_at it = t"
  using assms
  by (fastforce simp: gatus_window_def Let_def split: prod.splits sum.splits option.splits if_splits)

lemma hc_transitions_history:
  assumes "hc_transitions ad he sid f st fin s = ((tr, None), s')"
  shows "int (length (tr_items tr)) \<le> 6400 \<and> (\<forall>it \<in> set (tr_items tr). in_history st fin fin it)"
proof -
  have "in_history st fin fin it" if "it \<in> set (tr_items tr)" for it
    using hc_transitions_items [OF assms] that
    by (auto simp: list_all_iff hc_item_ok_def history_item_def in_history_def)
  moreover have "int (length (tr_items tr)) \<le> 6400"
    using assms by (rule hc_transitions_length)
  ultimately show ?thesis by blast
qed

section \<open>The provenance of items\<close>

text \<open>What an item says of its origin: the source, the kind of evidence, the service and the time of retrieval.\<close>

definition provenance :: "'s adapter \<Rightarrow> source_kind \<times> kind \<Rightarrow> string \<Rightarrow> item \<Rightarrow> bool" where
  "provenance ad k sid it \<longleftrightarrow> (it_source it, it_kind it) = k \<and> it_service_id it = sid \<and> it_retrieved_at it = ax_now ad"

fun op_kind :: "operation \<Rightarrow> source_kind \<times> kind" where
  "op_kind (GatusStatusOp _ _) = (SourceGatus, KindEndpointCheck)"
| "op_kind (GatusWindowOp _ _ _ _ _) = (SourceGatus, KindEndpointCheck)"
| "op_kind (DockerOp _ _) = (SourceDocker, KindContainer)"
| "op_kind (BeszelOp _ _) = (SourceBeszel, KindMetricSample)"
| "op_kind (LokiOp _) = (SourceLoki, KindLogLine)"
| "op_kind (NtfyOp _ _ _ _ _) = (SourceNtfy, KindNotification)"
| "op_kind _ = (SourceHealthchecks, KindCronCheck)"

fun op_service :: "operation \<Rightarrow> string" where
  "op_service (GatusStatusOp sid _) = sid"
| "op_service (GatusWindowOp sid _ _ _ _) = sid"
| "op_service (DockerOp sid _) = sid"
| "op_service (BeszelOp sid _) = sid"
| "op_service (LokiOp opt) = lq_service_id opt"
| "op_service (HcStatusOp sid _) = sid"
| "op_service (HcFailedOp sid _ _ _) = sid"
| "op_service (HcTransitionsOp sid _ _ _) = sid"
| "op_service (NtfyOp sid _ _ _ _) = sid"

text \<open>The single items, and the number of the identifier of each.\<close>

named_theorems provenance_simps

lemma gatus_items_provenance [provenance_simps]:
  "provenance ad k sid (gatus_item ad i s ep r ts known) \<longleftrightarrow> k = (SourceGatus, KindEndpointCheck) \<and> sid = s"
  "provenance ad k sid (gatus_missing ad s key t) \<longleftrightarrow> k = (SourceGatus, KindEndpointCheck) \<and> sid = s"
  "provenance ad k sid (gatus_empty ad s ep t) \<longleftrightarrow> k = (SourceGatus, KindEndpointCheck) \<and> sid = s"
  "it_id (gatus_item ad i s ep r ts known) = ax_id ad i"
  by (auto simp: provenance_def gatus_item_def gatus_missing_def gatus_empty_def Let_def case_prod_beta)

lemma gatus_endpoint_provenance [provenance_simps]:
  "provenance ad k sid (gatus_endpoint_item ad parse s ep t) \<longleftrightarrow> k = (SourceGatus, KindEndpointCheck) \<and> sid = s"
  by (simp add: gatus_endpoint_item_def provenance_simps split: list.split option.split)

lemma snapshot_items_provenance [provenance_simps]:
  "provenance ad k sid (docker_item ad s ct t) \<longleftrightarrow> k = (SourceDocker, KindContainer) \<and> sid = s"
  "provenance ad k sid (docker_missing ad s n t) \<longleftrightarrow> k = (SourceDocker, KindContainer) \<and> sid = s"
  "provenance ad k sid (beszel_item ad s row t) \<longleftrightarrow> k = (SourceBeszel, KindMetricSample) \<and> sid = s"
  "provenance ad k sid (beszel_missing ad s n t) \<longleftrightarrow> k = (SourceBeszel, KindMetricSample) \<and> sid = s"
  by (auto simp: provenance_def docker_item_def docker_missing_def beszel_item_def beszel_missing_def Let_def case_prod_beta)

lemma history_items_provenance [provenance_simps]:
  "provenance ad k sid (loki_item ad n opt ls r c i ts line) \<longleftrightarrow> k = (SourceLoki, KindLogLine) \<and> sid = lq_service_id opt"
  "it_id (loki_item ad n opt ls r c i ts line) = ax_id ad i"
  "provenance ad k sid (ntfy_item ad n i s topic m ts) \<longleftrightarrow> k = (SourceNtfy, KindNotification) \<and> sid = s"
  "it_id (ntfy_item ad n i s topic m ts) = ax_id ad i"
  "provenance ad k sid (hc_item ad he i s ch t) \<longleftrightarrow> k = (SourceHealthchecks, KindCronCheck) \<and> sid = s"
  "it_id (hc_item ad he i s ch t) = ax_id ad i"
  "provenance ad k sid (transition_item ad he i s ch entry st fin) \<longleftrightarrow> k = (SourceHealthchecks, KindCronCheck) \<and> sid = s"
  "it_id (transition_item ad he i s ch entry st fin) = ax_id ad i"
  by (auto simp: provenance_def loki_item_def ntfy_item_def hc_item_def transition_item_def Let_def case_prod_beta)

lemma in_window_provenance [provenance_simps]:
  "provenance ad k sid (in_window st fin it) = provenance ad k sid it" "it_id (in_window st fin it) = it_id it"
  by (simp_all add: provenance_def in_window_def)

text \<open>The items of an answer: of one origin, and with the identifiers in the order in which they were made.\<close>

definition numbered :: "'s adapter \<Rightarrow> item list \<Rightarrow> bool" where
  "numbered ad items \<longleftrightarrow> map it_id items = map (ax_id ad) [0..<length items]"

definition well_made :: "'s adapter \<Rightarrow> source_kind \<times> kind \<Rightarrow> string \<Rightarrow> item list \<Rightarrow> bool" where
  "well_made ad k sid items \<longleftrightarrow> list_all (provenance ad k sid) items \<and> (inj (ax_id ad) \<longrightarrow> distinct (map it_id items))"

lemma numbered_enumerate:
  "(\<And>i x. it_id (f i x) = ax_id ad i) \<Longrightarrow> map it_id (map (\<lambda>(i, x). f i x) (enumerate n xs)) = map (ax_id ad) [n..<n + length xs]"
  by (induction xs arbitrary: n) (simp_all add: upt_rec)

lemma numbered_well_made: "numbered ad items \<Longrightarrow> list_all (provenance ad k sid) items \<Longrightarrow> well_made ad k sid items"
  by (simp add: well_made_def numbered_def distinct_map inj_on_subset)

lemma single_well_made: "provenance ad k sid it \<Longrightarrow> well_made ad k sid [it]"
  by (simp add: well_made_def)

lemma keep_newest_well_made:
  assumes "well_made ad k sid items" shows "well_made ad k sid (fst (keep_newest items mx))"
proof -
  obtain old where old: "sort_items items = old @ fst (keep_newest items mx)" using keep_newest_split by blast
  have "mset (map it_id (old @ fst (keep_newest items mx))) = mset (map it_id items)"
    unfolding old [symmetric] by (simp add: sorting_simps)
  then have "distinct (map it_id items) \<Longrightarrow> distinct (map it_id (fst (keep_newest items mx)))"
    using mset_eq_imp_distinct_iff by fastforce
  with assms keep_newest_subset [of items mx] show ?thesis by (auto simp: well_made_def list_all_iff)
qed

text \<open>The loops of the single adapters.\<close>

lemma enumerate_well_made:
  assumes "\<And>i x. it_id (f i x) = ax_id ad i" and "\<And>i x. provenance ad k sid (f i x)"
  shows "well_made ad k sid (map (\<lambda>(i, x). f i x) (enumerate 0 xs))"
proof (rule numbered_well_made)
  show "numbered ad (map (\<lambda>(i, x). f i x) (enumerate 0 xs))"
    using numbered_enumerate [of f ad 0 xs, OF assms(1)] by (simp add: numbered_def)
  show "list_all (provenance ad k sid) (map (\<lambda>(i, x). f i x) (enumerate 0 xs))"
    using assms(2) by (auto simp: list_all_iff)
qed

lemma loki_items_well_made: "well_made ad (SourceLoki, KindLogLine) (lq_service_id opt) (fst (loki_items ad n opt streams))"
proof -
  define P where "P items \<longleftrightarrow> numbered ad items \<and> list_all (provenance ad (SourceLoki, KindLogLine) (lq_service_id opt)) items" for items
  have rec_ok: "P (fst acc) \<Longrightarrow> P (fst (loki_record ad n opt ls pair acc))" for ls pair acc
    by (cases acc; cases ls) (auto simp: P_def loki_record_def numbered_def provenance_simps split: list.split option.split)
  have inner: "P (fst acc) \<Longrightarrow> P (fst (fold (loki_record ad n opt ls) vs acc))" for ls vs acc
    by (induction vs arbitrary: acc) (simp_all add: rec_ok)
  have "P (fst acc) \<Longrightarrow> P (fst (fold (\<lambda>sm. fold (loki_record ad n opt (filter_labels ad (sm_labels sm))) (sm_values sm)) streams acc))" for acc
    by (induction streams arbitrary: acc) (simp_all add: inner)
  from this [of "([], 0)"] have "P (fst (loki_items ad n opt streams))"
    unfolding loki_items_def by (simp add: P_def numbered_def)
  then show ?thesis by (simp add: P_def numbered_well_made)
qed

lemma hc_items_well_made: "well_made ad (SourceHealthchecks, KindCronCheck) sid (hc_items ad he sid checks t)"
  unfolding hc_items_def by (rule enumerate_well_made) (simp_all add: provenance_simps)

lemma message_items_well_made:
  "well_made ad (SourceNtfy, KindNotification) sid (message_items ad n sid topic t st fin ms)"
  using enumerate_well_made [of "\<lambda>i (m, ts). in_window st fin (ntfy_item ad n i sid topic m ts)" ad "(SourceNtfy, KindNotification)" sid]
  unfolding message_items_def Let_def by (simp add: provenance_simps split_def)

lemma in_window_well_made: "well_made ad k sid (map (in_window st fin) items) = well_made ad k sid items"
  by (simp add: well_made_def list_all_iff provenance_simps comp_def)

lemma add_flips_numbered:
  assumes "numbered ad (tr_items tr)" and "list_all (provenance ad (SourceHealthchecks, KindCronCheck) sid) (tr_items tr)"
  shows "numbered ad (tr_items (add_flips ad he sid st fin ch flips tr))"
    and "list_all (provenance ad (SourceHealthchecks, KindCronCheck) sid) (tr_items (add_flips ad he sid st fin ch flips tr))"
proof -
  define items where "items = map (\<lambda>(i, entry). transition_item ad he i sid ch entry st fin)
    (enumerate (length (tr_items tr)) (let ps = window_flips he st fin flips
       in if length ps > max_flips_per_check then drop (length ps - max_flips_per_check) ps else ps))"
  have ids: "map it_id items = map (ax_id ad) [length (tr_items tr)..<length (tr_items tr) + length items]"
    unfolding items_def
    by (subst numbered_enumerate [where f = "\<lambda>i entry. transition_item ad he i sid ch entry st fin" and ad = ad])
      (simp_all add: provenance_simps)
  have items: "tr_items (add_flips ad he sid st fin ch flips tr) = tr_items tr @ items"
    by (simp add: add_flips_def items_def Let_def)
  show "numbered ad (tr_items (add_flips ad he sid st fin ch flips tr))"
    using assms(1) ids upt_add_eq_append [of 0 "length (tr_items tr)" "length items"] by (simp add: items numbered_def)
  have "list_all (provenance ad (SourceHealthchecks, KindCronCheck) sid) items"
    by (auto simp: items_def list_all_iff provenance_simps)
  with assms(2) show "list_all (provenance ad (SourceHealthchecks, KindCronCheck) sid) (tr_items (add_flips ad he sid st fin ch flips tr))"
    by (simp add: items)
qed

lemma hc_transitions_well_made:
  assumes "hc_transitions ad he sid f st fin s = ((tr, err), s')"
  shows "well_made ad (SourceHealthchecks, KindCronCheck) sid (tr_items tr)"
proof -
  define P where "P tr \<longleftrightarrow> numbered ad (tr_items tr) \<and> list_all (provenance ad (SourceHealthchecks, KindCronCheck) sid) (tr_items tr)"
    for tr :: transition_result
  have "P tr"
    using assms
  proof (cases rule: hc_transitions_cases)
    case (run checks t s1 matched err1)
    have start: "P (start_transitions cs)" for cs by (simp add: P_def start_transitions_def no_transitions_def numbered_def)
    have flips: "P (add_flips ad he sid st fin ch flips t)" if "P t" for t ch flips
      using that add_flips_numbered [of ad t sid] by (simp add: P_def)
    have step: "P (t\<lparr>tr_missing_identity := a\<rparr>)" "P (requested t)" "P (t\<lparr>tr_failures := a\<rparr>)" if "P t" for t a
      using that by (simp_all add: P_def)
    from run(3) start show ?thesis
      by (rule hc_histories_inv [where I = P]) (simp_all add: flips step)
  qed (simp_all add: P_def no_transitions_def numbered_def)
  then show ?thesis by (simp add: P_def numbered_well_made)
qed

lemma empty_well_made [simp]: "well_made ad k sid []"
  by (simp add: well_made_def)

lemma gatus_well_made:
  "gatus_status ad decode parse sid key s = (Inr it, s') \<Longrightarrow> well_made ad (SourceGatus, KindEndpointCheck) sid [it]"
  "gatus_window ad decode parse sid key st fin mx s = (((items, c), err), s') \<Longrightarrow> well_made ad (SourceGatus, KindEndpointCheck) sid items"
proof -
  show "well_made ad (SourceGatus, KindEndpointCheck) sid [it]" if "gatus_status ad decode parse sid key s = (Inr it, s')"
    using that
    by (intro single_well_made) (auto simp: gatus_status_def provenance_simps split: prod.splits sum.splits option.splits)
  have many: "well_made ad (SourceGatus, KindEndpointCheck) sid
      (map (\<lambda>(i, r, ts). in_window st fin (gatus_item ad i sid ep r ts True)) (enumerate 0 prs))" for ep prs
    using enumerate_well_made [of "\<lambda>i (r, ts). in_window st fin (gatus_item ad i sid ep r ts True)" ad "(SourceGatus, KindEndpointCheck)" sid]
    by (simp add: provenance_simps split_def)
  have one: "well_made ad (SourceGatus, KindEndpointCheck) sid [in_window st fin (gatus_missing ad sid key t)]" for t
    by (intro single_well_made) (simp add: provenance_simps)
  show "well_made ad (SourceGatus, KindEndpointCheck) sid items" if "gatus_window ad decode parse sid key st fin mx s = (((items, c), err), s')"
    using that by (auto simp: gatus_window_def Let_def many one split: prod.splits sum.splits option.splits if_splits)
qed

lemma snapshot_well_made:
  "docker_evidence ad decode sid name s = (Inr items, s') \<Longrightarrow> well_made ad (SourceDocker, KindContainer) sid items"
  "beszel_evidence ad js sid name s = (Inr items, s') \<Longrightarrow> well_made ad (SourceBeszel, KindMetricSample) sid items"
  by (auto simp: docker_evidence_def docker_status_def beszel_evidence_def beszel_status_def provenance_simps
      intro!: single_well_made split: prod.splits sum.splits option.splits)

lemma run_operation_well_made:
  assumes "run_operation ad lb op s = ((items, err), s')"
  shows "well_made ad (op_kind op) (op_service op) items"
proof (cases op)
  case (GatusStatusOp sid key)
  with assms show ?thesis
    by (cases "fst (gatus_status ad (lb_gatus lb) (lb_parse lb) sid key s)") (auto simp: result_defs prod_eq_iff intro: gatus_well_made(1))
next
  case (GatusWindowOp sid key st fin mx)
  with assms obtain c where "gatus_window ad (lb_gatus lb) (lb_parse lb) sid key st fin mx s = (((items, c), err), s')"
    by (auto simp: result_defs prod_eq_iff)
  with GatusWindowOp gatus_well_made(2) show ?thesis by auto
next
  case (DockerOp sid name)
  with assms show ?thesis
    by (cases "fst (docker_evidence ad (lb_docker lb) sid name s)") (auto simp: result_defs prod_eq_iff intro: snapshot_well_made(1))
next
  case (BeszelOp sid name)
  with assms show ?thesis
    by (cases "fst (beszel_evidence ad (lb_beszel lb) sid name s)") (auto simp: result_defs prod_eq_iff intro: snapshot_well_made(2))
next
  case (LokiOp opt)
  with assms obtain c d where r: "loki_search ad (lb_loki lb) (lb_compiles lb) (lb_max_line lb) opt s = ((((items, c), d), err), s')"
    by (auto simp: result_defs prod_eq_iff)
  have "lq_service_id (effective_query ad opt) = lq_service_id opt" by (simp add: effective_query_def)
  with loki_search_items [OF r] LokiOp keep_newest_well_made [OF loki_items_well_made [of ad "effective_query ad opt"]] show ?thesis
    by auto
next
  case (HcStatusOp sid f)
  with assms show ?thesis
    by (auto simp: result_defs hc_status_def Let_def hc_items_well_made split: prod.splits sum.splits if_splits)
next
  case (HcFailedOp sid f st fin)
  with assms show ?thesis
    by (auto simp: result_defs hc_failed_def in_window_well_made hc_items_well_made split: prod.splits sum.splits if_splits)
next
  case (HcTransitionsOp sid f st fin)
  with assms obtain tr where "hc_transitions ad (lb_hc lb) sid f st fin s = ((tr, err), s')" "items = tr_items tr"
    by (auto simp: result_defs prod_eq_iff)
  with HcTransitionsOp hc_transitions_well_made show ?thesis by auto
next
  case (NtfyOp sid topic st fin limit)
  with assms show ?thesis
    by (auto simp: result_defs ntfy_history_def Let_def case_prod_beta keep_newest_well_made message_items_well_made
        split: prod.splits sum.splits if_splits)
qed

section \<open>Properties of the adapters\<close>

text \<open>
  Property C4: an adapter over the locked client only asks for the routes of the operation, with the
  path, topic and key that it was given, at most as often as the operation may, whatever the server
  answers; every request that it makes goes to the scheme, the host and below the path of its own
  destination; and it changes no destination.
\<close>
theorem adapter_stays_on_its_routes:
  assumes "run_operation (session_adapter env lk eng now ids fmt) lb op sn = (r, sn')"
    and "session_ok env c0 (lk_dest lk) sn"
  shows "session_ok env c0 (lk_dest lk) sn'
    \<and> (\<exists>ps. sn_asked sn' = sn_asked sn @ ps \<and> length ps \<le> max_requests op
        \<and> list_all (op_route (session_adapter env lk eng now ids fmt) op) ps)"
proof (intro conjI)
  show "session_ok env c0 (lk_dest lk) sn'"
    using assms by (rule any_op.run_keeps) (simp add: session_adapter_def session_get_ok)
  show "\<exists>ps. sn_asked sn' = sn_asked sn @ ps \<and> length ps \<le> max_requests op
      \<and> list_all (op_route (session_adapter env lk eng now ids fmt) op) ps"
    using assms(1) by (rule any_op.run_appends) (simp add: session_adapter_def session_get_asked)
qed

text \<open>
  Property C16: every item that an adapter returns names the source and the kind of evidence of the
  adapter, the service it was asked for and the time of the retrieval, and no two items of an answer
  share an identifier, if the generator does not repeat itself; sorting and cutting keep that.
\<close>
theorem adapter_items_are_typed:
  assumes "run_operation ad lb op s = ((items, err), s')" and "inj (ax_id ad)"
  shows "(\<forall>it \<in> set items. (it_source it, it_kind it) = op_kind op \<and> it_service_id it = op_service op \<and> it_retrieved_at it = ax_now ad)
    \<and> distinct (map it_id items)"
  using run_operation_well_made [OF assms(1)] assms(2) by (auto simp: well_made_def provenance_def list_all_iff)

text \<open>A server that answers everything, reached through a client with one destination.\<close>

definition example_link :: link where
  "example_link = \<lparr>lk_send = (\<lambda>_ _. Inr (200, [], Inr ''body'')),
     lk_clock = (\<lambda>_. \<lparr>gk_lookup = 1, gk_read = 7, gk_expire = 7, gk_store = 7\<rparr>), lk_context = (\<lambda>_. None), lk_dest = ''d'',
     lk_headers = [], lk_error = (\<lambda>_. ''failed'')\<rparr>"

definition example_session :: session where
  "example_session = \<lparr>sn_client = example_client, sn_info = None, sn_asked = [], sn_sent = []\<rparr>"

definition example_libraries :: libraries where
  "example_libraries = \<lparr>lb_gatus = (\<lambda>_. Some (Some [example_endpoint])), lb_parse = example_parse_ts, lb_docker = (\<lambda>_. Some (Some [])),
     lb_loki = (\<lambda>_. None), lb_compiles = (\<lambda>_. True), lb_max_line = 2048, lb_hc = example_hc_env, lb_beszel = example_pages,
     lb_ntfy = \<lparr>nj_array = (\<lambda>_. None), nj_object = (\<lambda>_. None)\<rparr>\<rparr>"

lemma adapter_items_are_typed_witness:
  "\<exists>items err s'. run_operation (example_adapter\<lparr>ax_id := \<lambda>i. replicate i (CHR ''x'')\<rparr>) example_libraries (HcStatusOp ''s'' empty_filter) 0
       = ((items, err), s') \<and> distinct (map it_id items) \<and> (\<forall>it \<in> set items. it_source it = SourceHealthchecks \<and> it_retrieved_at it = 100)"
proof -
  let ?ad = "example_adapter\<lparr>ax_id := \<lambda>i. replicate i (CHR ''x'')\<rparr>"
  obtain items err s' where run: "run_operation ?ad example_libraries (HcStatusOp ''s'' empty_filter) 0 = ((items, err), s')"
    by (metis prod.collapse)
  have ids: "inj (ax_id ?ad)" by (auto intro!: injI)
  have "ax_now ?ad = 100" by (simp add: example_adapter_def)
  with adapter_items_are_typed [OF run ids] run show ?thesis by auto
qed

lemma adapter_stays_on_its_routes_witness:
  "\<exists>r sn'. run_operation (session_adapter example_http_env example_link \<lparr>en_exact = [], en_regexps = []\<rparr> 9 show_nat (\<lambda>_. ''t''))
       example_libraries (DockerOp ''s'' ''c'') example_session = (r, sn')
     \<and> set (sn_asked sn') \<subseteq> {docker_path} \<and> list_all (locked example_client ''d'') (sn_sent sn')"
proof -
  let ?ad = "session_adapter example_http_env example_link \<lparr>en_exact = [], en_regexps = []\<rparr> 9 show_nat (\<lambda>_. ''t'')"
  obtain r sn' where run: "run_operation ?ad example_libraries (DockerOp ''s'' ''c'') example_session = (r, sn')" by fastforce
  have "session_ok example_http_env example_client (lk_dest example_link) example_session"
    by (simp add: session_ok_def example_session_def example_client_reach)
  from adapter_stays_on_its_routes [OF run this]
  have "list_all (locked example_client ''d'') (sn_sent sn')" "set (sn_asked sn') \<subseteq> {docker_path}"
    by (auto simp: session_ok_def example_link_def example_session_def list_all_iff)
  with run show ?thesis by blast
qed

text \<open>
  Property C40: a history that an adapter returns without an error has at most as many items as the
  operation allows, each marked with the requested window and observed in it; only an item that
  carries the time of the collection itself may be up to thirty seconds late. The items are in time
  order; the transitions of Healthchecks are one group for each request after the listing of the checks,
  and each group is the history of one check: in time order, at most 200 transitions, under one source id.
\<close>
theorem adapter_history_in_window:
  assumes "run_operation ad lb op s = ((items, None), s')" and "op_window ad op = Some (st, fin, mx)"
  shows "int (length items) \<le> mx \<and> (\<exists>t. \<forall>it \<in> set items. in_history st fin t it)
    \<and> (if per_check op
       then \<exists>paths groups. s' = after_gets ad (hc_list_path # paths) s \<and> length groups = length paths \<and> length paths \<le> 32
              \<and> items = concat groups \<and> (\<forall>g \<in> set groups. one_history g)
       else sorted (map it_observed_at items))"
proof (cases op)
  case (GatusWindowOp sid key a b m)
  with assms obtain c where w: "gatus_window ad (lb_gatus lb) (lb_parse lb) sid key st fin m s = (((items, c), None), s')"
    and mx: "mx = (if m \<le> 0 then 20 else m)" by (auto simp: result_defs prod_eq_iff)
  obtain t where "\<forall>it \<in> set items. is_missing_item it \<longrightarrow> it_observed_at it = t" using gatus_window_late [OF w] by blast
  with history_ok_in [OF gatus_window_history [OF w], of t] mx GatusWindowOp show ?thesis by auto
next
  case (LokiOp opt)
  with assms obtain c d where w: "loki_search ad (lb_loki lb) (lb_compiles lb) (lb_max_line lb) opt s = ((((items, c), d), None), s')"
    and win: "st = lq_start opt" "fin = lq_end (effective_query ad opt)" "mx = lq_limit (effective_query ad opt)"
    by (auto simp: result_defs prod_eq_iff)
  from loki_search_history [OF w] have "history_ok (\<lambda>_. False) st fin mx items" by (simp add: win)
  from history_ok_in [OF this] LokiOp show ?thesis by auto
next
  case (NtfyOp sid topic a b m)
  with assms obtain u c where w: "ntfy_history ad (lb_ntfy lb) (lb_max_line lb) sid topic st fin m s = (((items, u, c), None), s')"
    and mx: "mx = (if m \<le> 0 then 50 else m)" by (auto simp: result_defs prod_eq_iff)
  obtain t where "history_ok (\<lambda>it. it_observed_at it = t) st fin mx items" using ntfy_history_window [OF w] mx by auto
  from history_ok_in [OF this, of t] NtfyOp show ?thesis by auto
next
  case (HcTransitionsOp sid f a b)
  with assms obtain tr where w: "hc_transitions ad (lb_hc lb) sid f st fin s = ((tr, None), s')" and "items = tr_items tr" "mx = 6400"
    by (auto simp: result_defs prod_eq_iff)
  with hc_transitions_history [OF w] hc_transitions_groups [OF w] HcTransitionsOp show ?thesis by auto
qed (use assms(2) in simp_all)

lemma adapter_history_in_window_witness:
  "\<exists>items s'. run_operation example_adapter example_libraries (GatusWindowOp ''s'' ''k'' 0 10 1) 0 = ((items, None), s')
     \<and> length items = 1 \<and> (\<exists>t. \<forall>it \<in> set items. in_history 0 10 t it)"
proof -
  have trim: "trim_space ''k'' = ''k''" "trim_space ''3'' = ''3''" "trim_space ''7'' = ''7''"
    by (simp_all add: ascii_eval trim_space_def space_chunk_def is_space_def)
  have fetch: "gatus_fetch_all example_adapter (\<lambda>_. Some (Some [example_endpoint])) 0 = (Inr ([example_endpoint], 100), 1)"
    by (simp add: gatus_fetch_all_def gatus_paths_def example_adapter_def collection_time_def header_get_def)
  have find: "find_endpoint [example_endpoint] ''k'' = Inr (Some example_endpoint)"
    by (simp add: find_endpoint_def trim example_endpoint_def)
  have timed: "length (timed_results example_parse_ts 0 10 (ep_results example_endpoint)) = 2"
    by (simp add: timed_results_def example_endpoint_def gatus_time_def trim gatus_layouts_def example_parse_ts_def
        slice_stable_def)
  obtain items s' where run: "run_operation example_adapter example_libraries (GatusWindowOp ''s'' ''k'' 0 10 1) 0 = ((items, None), s')"
    and n: "length items = 1"
    using fetch find timed by (simp add: gatus_window_def example_libraries_def both_result_def Let_def)
  from adapter_history_in_window [OF run] n run show ?thesis by auto
qed

end
