(* ===== verification/SourceClients.thy ===== *)
theory SourceClients
  imports AppStart Adapters
begin

text \<open>
  The adapters in the application: the clients that the collectors call and that the start of the
  application makes. Lemmas: no text of an upstream server passes a collector without the redaction
  engine of the application, and the start makes all clients with that engine.
\<close>

section \<open>The clients of the application\<close>

text \<open>The client that a collector calls is an adapter in the state of its call.\<close>

definition gatus_client :: "session adapter \<Rightarrow> libraries \<Rightarrow> session \<Rightarrow> gatus_api" where
  "gatus_client ad lb s = \<lparr>ga_status = (\<lambda>sid key. fst (gatus_status ad (lb_gatus lb) (lb_parse lb) sid key s)),
     ga_window = (\<lambda>sid key st fin mx. fst (gatus_window ad (lb_gatus lb) (lb_parse lb) sid key st fin mx s))\<rparr>"

definition docker_client :: "session adapter \<Rightarrow> libraries \<Rightarrow> session \<Rightarrow> snapshot_api" where
  "docker_client ad lb s = (\<lambda>sid name. fst (docker_evidence ad (lb_docker lb) sid name s))"

definition beszel_client :: "session adapter \<Rightarrow> libraries \<Rightarrow> session \<Rightarrow> snapshot_api" where
  "beszel_client ad lb s = (\<lambda>sid name. fst (beszel_evidence ad (lb_beszel lb) sid name s))"

definition loki_client :: "session adapter \<Rightarrow> libraries \<Rightarrow> session \<Rightarrow> loki_api" where
  "loki_client ad lb s = (\<lambda>opt. fst (loki_search ad (lb_loki lb) (lb_compiles lb) (lb_max_line lb) opt s))"

definition hc_client :: "session adapter \<Rightarrow> libraries \<Rightarrow> session \<Rightarrow> hc_api" where
  "hc_client ad lb s = \<lparr>ha_status = (\<lambda>sid f. fst (hc_status ad (lb_hc lb) sid f s)),
     ha_failed = (\<lambda>sid f st fin. fst (hc_failed ad (lb_hc lb) sid f st fin s)),
     ha_transitions = (\<lambda>sid f st fin. fst (hc_transitions ad (lb_hc lb) sid f st fin s))\<rparr>"

definition ntfy_client :: "session adapter \<Rightarrow> libraries \<Rightarrow> session \<Rightarrow> ntfy_api" where
  "ntfy_client ad lb s = (\<lambda>sid topic st fin limit. fst (ntfy_history ad (lb_ntfy lb) (lb_max_line lb) sid topic st fin limit s))"

text \<open>A client made with the engine \<open>e\<close>.\<close>

definition made_by :: "engine \<Rightarrow> (time \<Rightarrow> string) \<Rightarrow> (session adapter \<Rightarrow> libraries \<Rightarrow> session \<Rightarrow> 'c) \<Rightarrow> 'c \<Rightarrow> bool" where
  "made_by e fmt mk c \<longleftrightarrow> (\<exists>ad lb s. ax_engine ad = e \<and> ax_format ad = fmt \<and> c = mk ad lb s)"

definition clients_made :: "engine \<Rightarrow> (time \<Rightarrow> string) \<Rightarrow> clients \<Rightarrow> bool" where
  "clients_made e fmt cs \<longleftrightarrow> list_all (\<lambda>(_, c). made_by e fmt gatus_client c) (cl_gatus cs)
     \<and> list_all (\<lambda>(_, c). made_by e fmt docker_client c) (cl_docker cs)
     \<and> list_all (\<lambda>(_, c). made_by e fmt loki_client c) (cl_loki cs)
     \<and> list_all (\<lambda>(_, c). made_by e fmt hc_client c) (cl_hc cs)
     \<and> list_all (\<lambda>(_, c). made_by e fmt beszel_client c) (cl_beszel cs)
     \<and> list_all (\<lambda>(_, c). made_by e fmt ntfy_client c) (cl_ntfy cs)"

definition texts_screened :: "engine \<Rightarrow> (time \<Rightarrow> string) \<Rightarrow> item \<Rightarrow> bool" where
  "texts_screened e fmt it \<longleftrightarrow> list_all (screened e fixed_words fmt) (item_texts it)"

lemma item_screened_texts: "item_screened ad = texts_screened (ax_engine ad) (ax_format ad)"
  by (intro ext) (simp add: item_screened_def texts_screened_def)

lemma texts_screened_in_window [simp]: "texts_screened e fmt (in_window st fin it) = texts_screened e fmt it"
  by (simp add: texts_screened_def)

text \<open>Every method of a client returns screened items.\<close>

lemma gatus_client_items:
  assumes "made_by e fmt gatus_client c"
  shows "ga_status c sid key = Inr it \<Longrightarrow> texts_screened e fmt it"
    and "ga_window c sid key st fin mx = ((items, clipped), err) \<Longrightarrow> list_all (texts_screened e fmt) items"
  using assms unfolding made_by_def gatus_client_def
  by (auto, metis gatus_status_screened item_screened_texts prod.collapse,
      metis gatus_window_screened item_screened_texts prod.collapse)

lemma docker_client_items:
  "made_by e fmt docker_client c \<Longrightarrow> c sid name = Inr items \<Longrightarrow> list_all (texts_screened e fmt) items"
  unfolding made_by_def docker_client_def by (auto, metis docker_evidence_items item_screened_texts prod.collapse)

lemma beszel_client_items:
  "made_by e fmt beszel_client c \<Longrightarrow> c sid name = Inr items \<Longrightarrow> list_all (texts_screened e fmt) items"
  unfolding made_by_def beszel_client_def by (auto, metis beszel_evidence_items item_screened_texts prod.collapse)

lemma loki_client_items:
  "made_by e fmt loki_client c \<Longrightarrow> c opt = (((items, clipped), d), err) \<Longrightarrow> list_all (texts_screened e fmt) items"
  unfolding made_by_def loki_client_def by (auto, metis loki_search_screened item_screened_texts prod.collapse)

lemma ntfy_client_items:
  "made_by e fmt ntfy_client c \<Longrightarrow> c sid topic st fin mx = ((items, u, clipped), err) \<Longrightarrow> list_all (texts_screened e fmt) items"
  unfolding made_by_def ntfy_client_def by (auto, metis ntfy_history_screened item_screened_texts prod.collapse)

lemma hc_client_items:
  assumes "made_by e fmt hc_client c"
  shows "ha_status c sid f = Inr items \<Longrightarrow> list_all (texts_screened e fmt) items"
    and "ha_failed c sid f st fin = Inr items \<Longrightarrow> list_all (texts_screened e fmt) items"
    and "ha_transitions c sid f st fin = (tr, err) \<Longrightarrow> list_all (texts_screened e fmt) (tr_items tr)"
proof -
  obtain ad lb s where c: "ax_engine ad = e" "ax_format ad = fmt" "c = hc_client ad lb s" using assms by (auto simp: made_by_def)
  show "ha_status c sid f = Inr items \<Longrightarrow> list_all (texts_screened e fmt) items"
    using hc_status_op.run_screened [OF surjective_pairing, of ad "lb_hc lb" sid f s] c
    by (simp add: hc_client_def item_screened_texts)
  show "ha_failed c sid f st fin = Inr items \<Longrightarrow> list_all (texts_screened e fmt) items"
    using hc_failed_op.run_screened [OF surjective_pairing, of ad "lb_hc lb" sid f st fin s] c
    by (simp add: hc_client_def item_screened_texts)
  show "ha_transitions c sid f st fin = (tr, err) \<Longrightarrow> list_all (texts_screened e fmt) (tr_items tr)"
    using hc_transitions_op.run_screened [OF surjective_pairing, of ad "lb_hc lb" sid f st fin s] c
    by (simp add: hc_client_def item_screened_texts)
qed

text \<open>What a source call passes on.\<close>

lemma source_call_items:
  assumes "source_call cc env name kind result = (o1, items)"
  shows "items = [] \<or> result = Inr items"
    and "so_status o1 \<noteq> StOk \<Longrightarrow> \<exists>msg. so_error o1 = sanitize_err (cc_engine cc) msg"
proof -
  show "items = [] \<or> result = Inr items"
    using assms by (auto simp: source_call_def with_source_timeout_def Let_def split: if_splits sum.splits)
  show "so_status o1 \<noteq> StOk \<Longrightarrow> \<exists>msg. so_error o1 = sanitize_err (cc_engine cc) msg"
    using assms
    by (auto simp: source_call_def with_source_timeout_def with_cache_def source_error_outcome_def Let_def
        split: if_splits sum.splits)
qed

lemma call_items:
  "source_call cc env name kind result = (o1, items) \<Longrightarrow> (\<And>its. result = Inr its \<Longrightarrow> list_all P its) \<Longrightarrow> list_all P items"
  by (drule source_call_items(1)) auto

lemma filter_snapshots_screened:
  "list_all (texts_screened e fmt) items \<Longrightarrow> list_all (texts_screened e fmt) (filter_current_snapshots st fin items)"
  by (auto simp: filter_current_snapshots_def list_all_iff texts_screened_def item_texts_def)

lemma clients_lookup:
  assumes "clients_made e fmt cs"
  shows "map_of (cl_gatus cs) n = Some c1 \<Longrightarrow> made_by e fmt gatus_client c1"
    and "map_of (cl_docker cs) n = Some c2 \<Longrightarrow> made_by e fmt docker_client c2"
    and "map_of (cl_loki cs) n = Some c3 \<Longrightarrow> made_by e fmt loki_client c3"
    and "map_of (cl_hc cs) n = Some c4 \<Longrightarrow> made_by e fmt hc_client c4"
    and "map_of (cl_beszel cs) n = Some c5 \<Longrightarrow> made_by e fmt beszel_client c5"
    and "map_of (cl_ntfy cs) n = Some c6 \<Longrightarrow> made_by e fmt ntfy_client c6"
  using assms by (auto simp: clients_made_def list_all_iff dest!: map_of_SomeD)

text \<open>The client of \<open>failed_crons\<close> comes with the collection.\<close>

fun own_client :: "engine \<Rightarrow> (time \<Rightarrow> string) \<Rightarrow> collection \<Rightarrow> bool" where
  "own_client e fmt (HcAllFailed _ cli _ _) = made_by e fmt hc_client cli"
| "own_client e fmt _ = True"

lemma as_result_Inr [simp]: "as_result x err = Inr y \<longleftrightarrow> err = None \<and> y = x"
  by (cases err) (auto simp: as_result_def)

lemma map_sum_Inr: "map_sum f g x = Inr y \<longleftrightarrow> (\<exists>z. x = Inr z \<and> y = g z)"
  by (cases x) auto

lemma snapshot_client_items:
  "snapshot_result missing clis src sid name = Inr items \<Longrightarrow> (\<And>c. map_of clis src = Some c \<Longrightarrow> c sid name = Inr items \<Longrightarrow> list_all P items)
    \<Longrightarrow> list_all P items"
  by (auto simp: snapshot_result_def split: option.splits)

lemma collect_screened:
  assumes made: "clients_made (cc_engine cc) fmt (cc_clients cc)" "own_client (cc_engine cc) fmt c"
    and run: "collect cc env sid c = (o1, items)"
  shows "list_all (texts_screened (cc_engine cc) fmt) items"
proof -
  note lookup = clients_lookup [OF made(1)]
  show ?thesis
  proof (cases c)
    case (GatusStatus ref)
    with run show ?thesis
      by (auto simp: collect_gatus_status_def Let_def split: prod.splits if_splits option.splits sum.splits
          dest!: lookup(1) elim!: call_items dest: gatus_client_items(1))
  next
    case (GatusWindow ref st fin mx)
    with run show ?thesis
      by (auto simp: collect_gatus_window_def Let_def split: prod.splits if_splits option.splits
          dest!: lookup(1) elim!: call_items dest: gatus_client_items(2))
  next
    case (DockerStatus ref)
    with run show ?thesis
      by (auto simp: collect_docker_status_def Let_def split: prod.splits if_splits
          elim!: call_items snapshot_client_items dest: lookup(2) docker_client_items)
  next
    case (DockerWindow ref st fin)
    have "list_all (texts_screened (cc_engine cc) fmt) its" if "map_sum (\<lambda>e. e) (filter_current_snapshots st fin)
        (snapshot_result m (cl_docker (cc_clients cc)) (dr_source ref) sid (dr_container_name ref)) = Inr its" for its m
      using that by (auto simp: map_sum_Inr intro!: filter_snapshots_screened
          elim!: snapshot_client_items dest: lookup(2) docker_client_items)
    with run DockerWindow show ?thesis
      by (auto simp: collect_docker_window_def Let_def split: prod.splits elim!: call_items)
  next
    case (LokiSearch ref st fin w rx limit)
    with run show ?thesis
      by (auto simp: collect_loki_def Let_def split: prod.splits option.splits elim!: call_items intro: loki_client_items [OF lookup(3)])
  next
    case (HcStatus ref)
    with run show ?thesis
      by (auto simp: collect_hc_status_def Let_def split: prod.splits option.splits elim!: call_items dest: lookup(4) hc_client_items(1))
  next
    case (HcWindow ref st fin)
    with run show ?thesis
      by (auto simp: collect_hc_window_def Let_def split: prod.splits option.splits if_splits elim!: call_items
          dest: lookup(4) hc_client_items(2) intro: hc_client_items(3) [OF lookup(4)])
  next
    case (HcAllFailed name cli st fin)
    with run made(2) show ?thesis
      by (auto simp: collect_hc_all_failed_def split: prod.splits elim!: call_items dest: hc_client_items(2))
  next
    case (Beszel ref)
    with run show ?thesis
      by (auto simp: collect_beszel_def Let_def split: prod.splits if_splits
          elim!: call_items snapshot_client_items dest: lookup(5) beszel_client_items)
  next
    case (BeszelWindow ref st fin)
    have "list_all (texts_screened (cc_engine cc) fmt) its" if "map_sum (\<lambda>e. e) (filter_current_snapshots st fin)
        (snapshot_result m (cl_beszel (cc_clients cc)) (br_source ref) sid (br_system_name ref)) = Inr its" for its m
      using that by (auto simp: map_sum_Inr intro!: filter_snapshots_screened
          elim!: snapshot_client_items dest: lookup(5) beszel_client_items)
    with run BeszelWindow show ?thesis
      by (auto simp: collect_beszel_window_def Let_def split: prod.splits elim!: call_items)
  next
    case (Ntfy ref st fin limit)
    with run show ?thesis
      by (auto simp: collect_ntfy_def Let_def split: prod.splits option.splits elim!: call_items intro: ntfy_client_items [OF lookup(6)])
  qed
qed

lemma collect_errors:
  assumes "collect cc env sid c = (o1, items)" and "so_status o1 \<noteq> StOk"
  shows "\<exists>msg. so_error o1 = sanitize_err (cc_engine cc) msg"
  using assms
  by (cases c) (auto simp: collector_defs collect_hc_window_def Let_def dest: source_call_items(2)
      split: prod.splits if_splits option.splits)

text \<open>
  The clients that \<open>NewApp\<close> makes for a source: its destination and headers, the engine of the
  application, and the line limit where there is one.
\<close>

definition adapter_factory ::
  "http_env \<Rightarrow> (string \<Rightarrow> (string, string) gomap \<Rightarrow> link) \<Rightarrow> time \<Rightarrow> (nat \<Rightarrow> string) \<Rightarrow> (time \<Rightarrow> string) \<Rightarrow> libraries \<Rightarrow> session \<Rightarrow>
   client_factory" where
  "adapter_factory env lk now ids fmt lb s =
     (let ad = (\<lambda>dest headers eng. session_adapter env (lk dest headers) eng now ids fmt)
      in \<lparr>fc_gatus = (\<lambda>dest headers eng. gatus_client (ad dest headers eng) lb s),
          fc_docker = (\<lambda>dest headers eng. docker_client (ad dest headers eng) lb s),
          fc_loki = (\<lambda>dest headers eng line. loki_client (ad dest headers eng) (lb\<lparr>lb_max_line := line\<rparr>) s),
          fc_hc = (\<lambda>dest headers eng. hc_client (ad dest headers eng)
             (lb\<lparr>lb_hc := (lb_hc lb)\<lparr>he_headers := headers \<noteq> []\<rparr>\<rparr>) s),
          fc_beszel = (\<lambda>dest headers eng. beszel_client (ad dest headers eng) lb s),
          fc_ntfy = (\<lambda>dest headers eng line. ntfy_client (ad dest headers eng) (lb\<lparr>lb_max_line := line\<rparr>) s)\<rparr>)"

lemma made_by_session: "made_by e fmt mk (mk (session_adapter env lk e now ids fmt) lb s)"
  unfolding made_by_def
  by (intro exI [of _ "session_adapter env lk e now ids fmt"] exI [of _ lb] exI [of _ s]) (simp add: session_adapter_def)

lemma update_made:
  "list_all (\<lambda>(_, c). P c) xs \<Longrightarrow> P c \<Longrightarrow> list_all (\<lambda>(_, c). P c) (AList.update k c xs)"
  by (auto simp: list_all_iff dest!: set_update_cases)

lemma add_client_made:
  assumes "clients_made eng fmt cs"
  shows "clients_made eng fmt (add_client (adapter_factory env lk now ids fmt lb s) eng l kind name headers cs)"
  using assms unfolding clients_made_def add_client_def adapter_factory_def Let_def
  by (simp add: update_made made_by_session)

lemma add_sources_made:
  "clients_made eng fmt cs \<Longrightarrow>
    add_sources henv (adapter_factory env lk now ids fmt lb s) eng l tokens srcs (c, cs) = Inr (c', cs') \<Longrightarrow> clients_made eng fmt cs'"
proof (induction srcs arbitrary: c cs)
  case (Cons p srcs)
  obtain n src where p: "p = (n, src)" by fastforce
  from Cons.prems Cons.IH [OF add_client_made [OF Cons.prems(1)]] show ?case
    by (auto simp: p Let_def split: sum.splits)
qed simp

lemma new_app_makes_clients:
  assumes "new_app se cfg = Inr (ap, st, ws)" and "se_factory se = adapter_factory env lk now ids fmt lb s"
  shows "clients_made (cc_engine (ap_cc ap)) fmt (cc_clients (ap_cc ap))"
proof -
  obtain tokens where "add_sources (se_http se) (se_factory se) (cc_engine (ap_cc ap)) (cf_limits cfg) tokens (cf_sources cfg)
      (new_locked_client (li_max_body_bytes (cf_limits cfg)) (''homelab-evidence-mcp/'' @ se_version se)
         (li_source_cache_ttl (cf_limits cfg)) (se_random_key se), no_clients) = Inr (as_http st, cc_clients (ap_cc ap))"
    using assms(1) by (rule new_app_parts)
  moreover have "clients_made (cc_engine (ap_cc ap)) fmt no_clients" by (simp add: clients_made_def no_clients_def)
  ultimately show ?thesis unfolding assms(2) by (rule add_sources_made [rotated])
qed

section \<open>Properties of the collectors over the adapters\<close>

text \<open>
  Property C3: no text of an upstream server passes a collector without the redaction engine of the
  application: every source name, summary and text attribute of an item, whatever the servers sent,
  is made of outputs of that engine, of fixed words of the program and of formatted times, and the
  error of a failed call is an output of the engine cut to 300 characters.
\<close>
theorem collected_texts_are_screened:
  assumes "clients_made (cc_engine cc) fmt (cc_clients cc)" and "own_client (cc_engine cc) fmt c"
    and "collect cc env sid c = (o1, items)"
  shows "(\<forall>it \<in> set items. \<forall>s \<in> set (item_texts it). screened (cc_engine cc) fixed_words fmt s)
    \<and> (so_status o1 \<noteq> StOk \<longrightarrow> (\<exists>msg. so_error o1 = fst (truncate_runes (fst (redact_apply (Some (cc_engine cc)) msg)) 300)))"
  using collect_screened [OF assms] collect_errors [OF assms(3)]
  by (auto simp: list_all_iff texts_screened_def sanitize_err_def)

text \<open>The collectors of an application with one Docker source.\<close>

definition example_collectors :: collect_ctx where
  "example_collectors = example_cc\<lparr>cc_clients := no_clients\<lparr>cl_docker :=
     [(''d'', docker_client (session_adapter example_http_env example_link \<lparr>en_exact = [], en_regexps = []\<rparr> 9 show_nat (\<lambda>_. ''t''))
        example_libraries example_session)]\<rparr>\<rparr>"

lemma collected_texts_are_screened_witness:
  "\<exists>o1 items. collect example_collectors calm_run ''media'' (DockerStatus \<lparr>dr_source = ''d'', dr_container_name = ''c''\<rparr>) = (o1, items)
     \<and> (\<forall>it \<in> set items. \<forall>s \<in> set (item_texts it). screened \<lparr>en_exact = [], en_regexps = []\<rparr> fixed_words (\<lambda>_. ''t'') s)"
proof -
  obtain o1 items where run: "collect example_collectors calm_run ''media'' (DockerStatus \<lparr>dr_source = ''d'', dr_container_name = ''c''\<rparr>)
      = (o1, items)" by fastforce
  have eng: "cc_engine example_collectors = \<lparr>en_exact = [], en_regexps = []\<rparr>" by (simp add: example_collectors_def example_cc_def)
  have "clients_made (cc_engine example_collectors) (\<lambda>_. ''t'') (cc_clients example_collectors)"
    by (simp add: eng) (simp add: example_collectors_def clients_made_def no_clients_def made_by_session)
  from collected_texts_are_screened [OF this _ run] run eng show ?thesis by auto
qed

end
