(* ===== verification/OutputSchema.thy ===== *)
theory OutputSchema
  imports Collect
begin

text \<open>
  The output schemas (\<open>mustOutputSchema\<close> and \<open>applyStatusEnum\<close> in \<open>internal/mcpserver/outputs.go\<close>): the
  schema that the library derives from a Go type is a tree, and the program closes the vocabularies of
  its properties. Lemmas: every property of a closed name, at any depth, has its vocabulary and the
  rest of the schema is as derived; every value that the program emits is in the vocabulary.
\<close>

section \<open>Schemas\<close>

text \<open>The parts of \<open>jsonschema.Schema\<close> that the program reads or writes; an empty enumeration allows all values.\<close>

datatype schema = Schema (sc_type: string) (sc_enum: "string list") (sc_properties: "(string \<times> schema) list")
  (sc_items: "schema option") (sc_defs: "(string \<times> schema) list") (sc_definitions: "(string \<times> schema) list")

definition source_kind_enum :: "string list" where
  "source_kind_enum = map source_str [SourceGatus, SourceDocker, SourceLoki, SourceHealthchecks, SourceBeszel, SourceNtfy]"

definition evidence_kind_enum :: "string list" where
  "evidence_kind_enum = map kind_str [KindEndpointCheck, KindContainer, KindLogLine, KindCronCheck, KindMetricSample,
     KindNotification]"

definition severity_enum :: "string list" where
  "severity_enum = map severity_str [SeverityInfo, SeverityWarning, SeverityError, SeverityCritical, SeverityUnknown]"

definition freshness_enum :: "string list" where
  "freshness_enum = map freshness_str [FreshnessLive, FreshnessRecent, FreshnessStale, FreshnessUnknown, FreshnessCached,
     FreshnessMissing]"

text \<open>The vocabulary of a property name, if the program closes it.\<close>

definition closed_vocabulary :: "string \<Rightarrow> string list option" where
  "closed_vocabulary name =
     (if name = ''status'' then Some schema_statuses
      else if name = ''reason'' then Some schema_reasons
      else if name = ''cache_state'' then Some schema_cache_states
      else None)"

fun set_enum :: "string list \<Rightarrow> schema \<Rightarrow> schema" where
  "set_enum en (Schema ty _ ps it ds fs) = Schema ty en ps it ds fs"

definition close_property :: "string \<Rightarrow> schema \<Rightarrow> schema" where
  "close_property name p = (case closed_vocabulary name of None \<Rightarrow> p | Some en \<Rightarrow> set_enum en p)"

text \<open>
  The code sets the enumeration of a property and then visits it; since a visit does not change the
  enumeration of the visited schema itself, the order of the two does not matter.
\<close>

primrec apply_status_enum :: "schema \<Rightarrow> schema" where
  "apply_status_enum (Schema ty en ps it ds fs) =
     Schema ty en (map (\<lambda>(name, p). (name, close_property name p)) (map (map_prod (\<lambda>n. n) apply_status_enum) ps))
       (map_option apply_status_enum it) (map (map_prod (\<lambda>n. n) apply_status_enum) ds) (map (map_prod (\<lambda>n. n) apply_status_enum) fs)"

text \<open>\<open>derive\<close> is \<open>jsonschema.For\<close> for the output type, with the schemas of the named types; an error is a panic.\<close>

definition must_output_schema :: "((string \<times> string list) list \<Rightarrow> string + schema) \<Rightarrow> string + schema" where
  "must_output_schema derive =
     (case derive [(''Kind'', evidence_kind_enum), (''SourceKind'', source_kind_enum), (''Severity'', severity_enum),
         (''Freshness'', freshness_enum)] of
        Inl err \<Rightarrow> Inl (''output schema: '' @ err)
      | Inr s \<Rightarrow> Inr (apply_status_enum s))"

section \<open>Lemmas\<close>

text \<open>The schemas that a schema directly consists of, and all properties within it.\<close>

definition parts :: "schema \<Rightarrow> schema set" where
  "parts s = snd ` set (sc_properties s) \<union> set_option (sc_items s) \<union> snd ` set (sc_defs s) \<union> snd ` set (sc_definitions s)"

inductive within :: "schema \<Rightarrow> string \<Rightarrow> schema \<Rightarrow> bool" where
  own: "(name, p) \<in> set (sc_properties s) \<Longrightarrow> within s name p"
| deeper: "t \<in> parts s \<Longrightarrow> within t name p \<Longrightarrow> within s name p"

text \<open>What is within a schema only depends on its properties and parts.\<close>

lemma within_iff: "within s name p \<longleftrightarrow> (name, p) \<in> set (sc_properties s) \<or> (\<exists>t \<in> parts s. within t name p)"
  by (subst within.simps) auto

lemma set_enum_simps [simp]:
  "sc_enum (set_enum en s) = en" "sc_properties (set_enum en s) = sc_properties s" "sc_items (set_enum en s) = sc_items s"
  "sc_defs (set_enum en s) = sc_defs s" "sc_definitions (set_enum en s) = sc_definitions s" "sc_type (set_enum en s) = sc_type s"
  by (cases s; simp)+

lemma close_property_parts [simp]: "parts (close_property name p) = parts p" "sc_properties (close_property name p) = sc_properties p"
  by (simp_all add: close_property_def parts_def split: option.split)

lemma within_close [simp]: "within (close_property name s) n p = within s n p"
  unfolding within_iff [of "close_property name s"] within_iff [of s] by simp

lemma apply_properties:
  "(name, q) \<in> set (sc_properties (apply_status_enum s)) \<longleftrightarrow>
     (\<exists>p. (name, p) \<in> set (sc_properties s) \<and> q = close_property name (apply_status_enum p))"
  by (cases s) (force simp: image_iff)

lemma apply_parts:
  "t \<in> parts (apply_status_enum s) \<Longrightarrow> \<exists>u \<in> parts s. \<exists>name. t = apply_status_enum u \<or> t = close_property name (apply_status_enum u)"
  by (cases s) (force simp: parts_def image_iff)

text \<open>Every property within a visited schema was closed, at any depth.\<close>

lemma within_applied:
  "within s' name q \<Longrightarrow> (\<exists>n. s' = apply_status_enum s \<or> s' = close_property n (apply_status_enum s)) \<Longrightarrow>
    \<exists>p. within s name p \<and> q = close_property name (apply_status_enum p)"
proof (induction arbitrary: s rule: within.induct)
  case (own name q s')
  then have "(name, q) \<in> set (sc_properties (apply_status_enum s))" by auto
  then show ?case unfolding apply_properties by (auto intro: within.own)
next
  case (deeper t s' name q)
  then have "t \<in> parts (apply_status_enum s)" by auto
  from apply_parts [OF this] obtain u n where u: "u \<in> parts s" "t = apply_status_enum u \<or> t = close_property n (apply_status_enum u)"
    by blast
  with deeper.IH [of u] show ?case by (blast intro: within.deeper)
qed

lemma apply_enum [simp]: "sc_enum (apply_status_enum s) = sc_enum s"
  by (cases s) simp

lemma output_schema_closed:
  assumes "must_output_schema derive = Inr s" and "within s name q"
  shows "\<exists>types p. derive types = Inr p \<and> (case closed_vocabulary name of
      None \<Rightarrow> \<exists>p'. within p name p' \<and> sc_enum q = sc_enum p'
    | Some en \<Rightarrow> sc_enum q = en)"
proof -
  obtain types p where p: "derive types = Inr p" "s = apply_status_enum p"
    using assms(1) by (auto simp: must_output_schema_def split: sum.splits)
  with within_applied [OF assms(2), of p] obtain p' where "within p name p'" "q = close_property name (apply_status_enum p')"
    by auto
  with p show ?thesis by (intro exI [of _ types] exI [of _ p]) (auto simp: close_property_def split: option.splits)
qed

text \<open>The vocabularies are complete: no value of the program's types is missing.\<close>

lemma vocabularies_complete:
  shows "kind_str k \<in> set evidence_kind_enum" and "source_str s \<in> set source_kind_enum" and "severity_str v \<in> set severity_enum"
    and "freshness_str f \<in> set freshness_enum"
proof -
  show "kind_str k \<in> set evidence_kind_enum" by (cases k) (simp_all add: evidence_kind_enum_def)
  show "source_str s \<in> set source_kind_enum" by (cases s) (simp_all add: source_kind_enum_def)
  show "severity_str v \<in> set severity_enum" by (cases v) (simp_all add: severity_enum_def)
  show "freshness_str f \<in> set freshness_enum" by (cases f) (simp_all add: freshness_enum_def)
qed

text \<open>The outcome of every collector is valid against every schema that mentions its fields.\<close>

lemma collected_outcome_valid:
  assumes "collect cc env sid c = (o1, items)" and "must_output_schema derive = Inr s"
  shows "within s ''status'' q \<Longrightarrow> status_str (so_status o1) \<in> set (sc_enum q)"
    and "within s ''reason'' q \<Longrightarrow> so_reason o1 \<in> set (sc_enum q)"
    and "within s ''cache_state'' q \<Longrightarrow> so_cache_state o1 \<in> set (sc_enum q)"
proof -
  have "good_outcome (collection_source c) (collection_kind c) o1 items" using assms(1) by (rule collect_good)
  then have v: "status_str (so_status o1) \<in> set schema_statuses" "so_reason o1 \<in> set schema_reasons"
    "so_cache_state o1 \<in> set schema_cache_states" by (simp_all add: good_outcome_def in_schema_def)
  show "within s ''status'' q \<Longrightarrow> status_str (so_status o1) \<in> set (sc_enum q)"
    "within s ''reason'' q \<Longrightarrow> so_reason o1 \<in> set (sc_enum q)"
    "within s ''cache_state'' q \<Longrightarrow> so_cache_state o1 \<in> set (sc_enum q)"
    using v by (auto dest!: output_schema_closed [OF assms(2)] simp: closed_vocabulary_def)
qed

end
