(* ===== verification/Spec2Isabelle.thy ===== *)
theory Spec2Isabelle
  imports CommandLine ToolBudget SourceClients OutputSchema
begin

text \<open>
  A verification library of homelab-evidence-mcp: a server for the Model Context Protocol, written in
  Go, that answers read-only questions about the services of a home lab. A configuration file binds each
  service to sources (Gatus, Docker, Loki, Healthchecks, Beszel, ntfy). Seven tools read these sources
  with GET requests through one locked client, clean and redact what they return, and answer with
  dated evidence items and one outcome for each source.

  \<^bold>\<open>The parts and how they interact.\<close> \<open>run\<close> (\<open>cmd/homelab-evidence-mcp/main.go\<close>) parses the flags and the
  configuration (\<open>internal/config\<close>), opens the audit file (\<open>internal/audit\<close>) and starts the application
  (\<open>NewApp\<close> in \<open>internal/mcpserver/app.go\<close>): tokens become redaction rules (\<open>internal/redaction\<close>), every
  source becomes a destination of the locked client (\<open>internal/httpx\<close>) and an adapter
  (\<open>internal/adapters\<close>). A tool call (\<open>tools.go\<close>) passes the budget, finds the service in the registry
  (\<open>internal/registry\<close>), starts one collector (\<open>collectors.go\<close>) for each binding, merges the items
  (\<open>internal/correlation\<close>, \<open>compact.go\<close>), stores them in the evidence cache (\<open>internal/evidence\<close>) and writes
  one audit event. \<open>doctor.go\<close> runs every collector once for a diagnosis.

  \<^bold>\<open>The theories.\<close>
  \<^item> \<open>Prelude\<close>, \<open>Utf8\<close>, \<open>GoText\<close>: the parts of Go that the code uses: 64-bit arithmetic that wraps, durations,
    maps as association lists, \<open>sort.SliceStable\<close>, strings as lists of bytes with the decoder of
    \<open>unicode/utf8\<close>, and the functions of \<open>strings\<close> and \<open>strconv\<close>. \<open>Prelude\<close> also states the interface
    \<open>fifo_evict\<close> of a cache that evicts its oldest entry, interpreted by both caches.
  \<^item> \<open>Regex\<close>, \<open>ConfigTypes\<close>, \<open>ConfigCheck\<close>, \<open>Config\<close>, \<open>ConfigAuth\<close>: \<open>config.go\<close>, that is the anchored patterns with
    their semantics, the raw and the validated configuration, the checks with their error texts, the
    parsing of sources and services, secrets from files and the environment, and the credential
    header. Lemmas: an accepted configuration satisfies \<open>config_ok\<close>; a secret file is a private regular
    file; the credential collides with no other header.
  \<^item> \<open>Registry\<close>: \<open>registry.go\<close>. Pages partition the services that match a prefix.
  \<^item> \<open>Redaction\<close>: \<open>redact.go\<close>. The kept pieces of a text contain no exact secret and no match of an
    expression; what leaves is bounded, valid UTF-8 without control characters.
  \<^item> \<open>HttpCache\<close>, \<open>HttpClient\<close>: \<open>client.go\<close> and \<open>requestinfo.go\<close>. A request goes only to the scheme, the host and
    below the path of a registered destination; the cache keeps its limits under interleaved calls, and
    a hit is the last stored response; the collection time is the program's own.
  \<^item> \<open>Evidence\<close>, \<open>EvidenceCache\<close>, \<open>Correlation\<close>, \<open>Compact\<close>: items and outcomes, the cache of shown items, which
    refines a queue, the timeline, which does not depend on the order of delivery, and the compact
    selection with its byte budget.
  \<^item> \<open>Collect\<close>, \<open>OutputSchema\<close>: \<open>collectors.go\<close> and the schemas of \<open>outputs.go\<close>. Every outcome stays in the vocabulary of
    the output schema, at whatever depth the schema mentions it, and tells what the adapter reported: a loss,
    a missing object or a failed call is never a complete or ok result.
  \<^item> \<open>Adapter\<close>, \<open>Docker\<close>, \<open>Gatus\<close>, \<open>Ntfy\<close>, \<open>Loki\<close>, \<open>Beszel\<close>, \<open>Healthchecks\<close>: the six adapters, over a client that is a
    record of functions. \<open>Adapter\<close> states the interface \<open>source_operation\<close> (which GETs an operation may
    make, and that its items only carry text that left the engine), which each operation interprets in
    its own theory.
  \<^item> \<open>Adapters\<close>, \<open>SourceClients\<close>: the adapters over the locked client of \<open>HttpClient\<close>, and as the clients that
    \<open>NewApp\<close> makes and the collectors call. Lemmas: routes, destinations and number of requests, origin and
    identifiers of the items, the window and the order of a history, and that no upstream text passes a collector
    without the engine (a statement on where texts come from). The requests that \<open>session\<close> records have no
    counterpart in the code; \<open>session_sends_only_recorded\<close> shows that the network matters on no others, and
    \<open>session_get_returns\<close> that a reachable client always answers.
  \<^item> \<open>ToolBudget\<close>, \<open>AuditLog\<close>, \<open>Tools\<close>: the rate and concurrency limits as interleaved atomic actions; the rotating
    file over a file system whose operations can fail, with a refinement of an abstract rotation; and
    the seven handlers, each from the request to the answer, the caches and the audit event.
  \<^item> \<open>AppStart\<close>, \<open>Doctor\<close>, \<open>CommandLine\<close>: \<open>NewApp\<close> and the declared tools, the diagnosis, and the command with its
    modes, effects and exit codes. The diagnosis lists the bindings of every source; the usage errors have no effect.

  \<^bold>\<open>Conventions.\<close> A Go struct is a record and keeps its fields, an error is the left side of a sum, a nil
  pointer an option, an \<open>int\<close> an integer or, where it can overflow, a 64-bit word or a number with the wrap-around
  written out. Times are nanoseconds since the year 1 in UTC, 0 is the zero time, and every reading of
  the clock is an argument. State is passed explicitly. Goroutines that collect for one tool call are
  modelled by the order in which they deliver, an argument of the handlers; the caches and the
  budget, which are shared by calls, by step relations over any interleaving of their atomic actions.
  The iteration over a Go map follows the list that represents it, and theorems about the results do not
  depend on it where the code sorts.

  \<^bold>\<open>Bounds and fuel.\<close> No definition uses fuel. The eviction loops of both caches are \<open>while_option\<close>;
  for the invariant states they are proved to return. The trimming of the compact bundle and the other loops that are
  not structural are functions with a measure. The limits are those of the code: 32 pages and 6400 records of Beszel, 32 checks with 200
  transitions each of Healthchecks, 1000 lines of Loki, 128 entries of the response cache.

  \<^bold>\<open>Parameters.\<close> Tables and codecs of the Go library that the program only calls are arguments of the
  definitions that use them: the Unicode tables beyond ASCII, the compiler and matcher of \<open>regexp\<close>,
  \<open>encoding/json\<close> and the YAML decoder, \<open>time.Parse\<close>, \<open>time.ParseDuration\<close> and the time formats, \<open>url.Parse\<close>,
  HMAC-SHA-256 of the header fingerprints, the random source, the operating system and the network. A
  theorem that needs one of their laws has it as a hypothesis.

  \<^bold>\<open>Abstractions.\<close> A collector calls its adapter as a function of the arguments: the handlers of \<open>Tools\<close> and
  \<open>Doctor\<close> carry the locked client (\<open>as_http\<close>) unchanged, although its GETs change the response cache and the
  counters of hits and misses. These changes are modelled where they happen, in \<open>HttpCache\<close> (any interleaving of
  its operations), \<open>HttpClient\<close> (one GET) and \<open>Adapters\<close> (an operation over the client), and are not threaded
  through a tool call. Identifiers come from an injective function of a counter that does not wrap.

  \<^bold>\<open>Not modelled.\<close> The MCP SDK with its transport on standard input and output, and the derivation of the
  JSON schemas from Go types (both third-party code, only called; what the program changes in a derived
  schema is in \<open>OutputSchema\<close>); the TLS and proxy settings of the
  transport of the HTTP client, which are values given to \<open>net/http\<close>; process signals; the build-time
  strings of \<open>internal/version\<close>; and \<open>demo\<close>, a server of fixed sample data.

  \<^bold>\<open>What modelling showed.\<close> Lemmas beside the properties show where the code does not do what it means
  to: the size of a compact bundle is measured before its last fields are set; a failed rename during
  a rotation loses a backup on the next attempt; an observation more than 292 years in the future counts
  as live; a page without metadata ends a paginated Beszel collection, so that rows can be missing; a check name is quoted before
  its summary is redacted; and a later binding overwrites the error text of a source in the diagnosis.
\<close>

end
